(* ===== verification/Hal_Prelude.thy ===== *)
theory Hal_Prelude
  imports Main "HOL-Library.Word" "HOL-Library.Monad_Syntax"
begin

text \<open>
  Shared ground of the development: the integer types of \<^verbatim>\<open>alt_types.h\<close>, the error
  numbers of the C library that the HAL returns, the faults a C program can run into (made
  explicit as values), and the generic lemmas on words that the
  component theories share.
\<close>

unbundle bit_operations_syntax

section \<open>Types\<close>

type_synonym alt_u8 = "8 word"
type_synonym alt_u16 = "16 word"
type_synonym alt_u32 = "32 word"

text \<open>An address of the 32-bit processor; 0 is the null pointer.\<close>

type_synonym addr = "32 word"

text \<open>
  What the C standard leaves undefined. A definition whose C code can get there returns
  \<open>Inl\<close> of a fault instead of an unspecified value.
\<close>

datatype c_fault = Out_Of_Bounds | Null_Pointer | Uninitialized | Overflow

type_synonym 'a c_result = "c_fault + 'a"

section \<open>Device registers\<close>

text \<open>
  \<^verbatim>\<open>IORD(base, reg)\<close> and \<^verbatim>\<open>IOWR(base, reg, data)\<close>, the accesses to the registers of a device:
  the hardware is not under the program's control, so its state has a type of its own and what an
  access does to it is a parameter of the drivers.
\<close>

record 'h bus =
  iord :: "addr \<Rightarrow> nat \<Rightarrow> 'h \<Rightarrow> alt_u32 \<times> 'h"
  iowr :: "addr \<Rightarrow> nat \<Rightarrow> alt_u32 \<Rightarrow> 'h \<Rightarrow> 'h"

section \<open>Error numbers of the C library\<close>

text \<open>The values of newlib's \<^verbatim>\<open>errno.h\<close>; the code uses them by name only.\<close>

definition ESRCH :: int where "ESRCH = 3"
definition EIO :: int where "EIO = 5"
definition ECHILD :: int where "ECHILD = 10"
definition EWOULDBLOCK :: int where "EWOULDBLOCK = 11"
definition ENOMEM :: int where "ENOMEM = 12"
definition EACCES :: int where "EACCES = 13"
definition ENODEV :: int where "ENODEV = 19"
definition EINVAL :: int where "EINVAL = 22"
definition EMFILE :: int where "EMFILE = 24"
definition ENOTTY :: int where "ENOTTY = 25"
definition EBADFD :: int where "EBADFD = 81"
definition ENOSYS :: int where "ENOSYS = 88"
definition ENOTSUP :: int where "ENOTSUP = 134"

named_theorems errno_defs \<open>values of the error numbers\<close>

lemmas [errno_defs] = ESRCH_def EIO_def ECHILD_def EWOULDBLOCK_def ENOMEM_def EACCES_def
  ENODEV_def EINVAL_def EMFILE_def ENOTTY_def EBADFD_def ENOSYS_def ENOTSUP_def

text \<open>The limit \<^verbatim>\<open>INT_MAX\<close> of a 32-bit \<^verbatim>\<open>int\<close>.\<close>

definition INT_MAX :: int where "INT_MAX = 2147483647"

section \<open>Words\<close>

lemma uint_32_bounds: "0 \<le> uint (x :: alt_u32)" "uint (x :: alt_u32) < 4294967296"
  using uint_lt2p [of x] by simp_all

lemma unat_32_bound: "unat (x :: alt_u32) < 4294967296"
  using unsigned_less [of x, where 'a = nat] by simp

lemma uint_32_pos: "x \<noteq> 0 \<Longrightarrow> 0 < uint x" for x :: alt_u32
  by (simp add: word_neq_0_conv word_less_def)

lemma and_low_mask_32:
  "x AND 1 = take_bit 1 x" "x AND 255 = take_bit 8 x" "x AND 65535 = take_bit 16 x" for x :: alt_u32
  by (simp_all add: take_bit_eq_mask mask_eq_exp_minus_1)

lemma byte_through_word [simp]: "ucast (ucast b :: alt_u32) = b" for b :: alt_u8
  by (rule bit_word_eqI) (simp add: bit_simps)

text \<open>A plain \<^verbatim>\<open>char\<close> is signed; widening it to a register keeps its low byte.\<close>

lemma char_through_word [simp]: "ucast (scast b :: alt_u32) = b" for b :: alt_u8
  by (rule bit_word_eqI) (simp add: bit_simps)

lemma unat_max_32_iff: "unat (x :: alt_u32) = 4294967295 \<longleftrightarrow> x = - 1"
  by (simp add: word_unat_eq_iff unsigned_minus_1_eq_mask mask_eq_exp_minus_1)

text \<open>Addition with its wrap-around written out.\<close>

lemma add_wrap_32:
  assumes "r < 4294967296"
  shows "unat (now + of_nat r :: alt_u32) =
    (if unat now + r < 4294967296 then unat now + r else unat now + r - 4294967296)"
proof -
  have "unat now < 4294967296" by (rule unat_32_bound)
  then show ?thesis using assms by (simp add: unat_word_ariths unat_of_nat mod_if)
qed

lemma le_Suc_32: "x + 1 \<noteq> 0 \<Longrightarrow> x \<le> x + 1" for x :: alt_u32
  using add_wrap_32 [of 1 x] unat_32_bound [of x]
  by (auto simp: word_le_nat_alt unat_eq_zero [symmetric] split: if_splits)

lemma bit_single_push [simp]:
  "n < 32 \<Longrightarrow> bit (push_bit n (1 :: alt_u32)) m \<longleftrightarrow> m = n"
  by (auto simp: bit_simps)

text \<open>Words are equal when their bits are; the equation at the 32-bit type.\<close>

lemma word32_eq_iff: "x = y \<longleftrightarrow> (\<forall>n<32. bit x n = bit y n)" for x y :: alt_u32
  by (auto intro: bit_word_eqI)

lemma and_push_bit_eq_0_iff:
  "n < 32 \<Longrightarrow> (x :: alt_u32) AND push_bit n 1 = 0 \<longleftrightarrow> \<not> bit x n"
  by (auto simp: word32_eq_iff bit_simps)

text \<open>The two's complement reading of a 32-bit word.\<close>

lemma sint_32:
  "sint (x :: alt_u32) = (if uint x < 2147483648 then uint x else uint x - 4294967296)"
proof -
  have "sint x = uint x - 4294967296 * of_bool (bit (uint x) 31)"
    by (simp add: sint_uint signed_take_bit_eq_take_bit_minus take_bit_int_eq_self uint_32_bounds
        flip: take_bit_eq_mod)
  moreover have "bit (uint x) 31 \<longleftrightarrow> 2147483648 \<le> uint x"
  proof -
    have "uint x div 2147483648 = (if uint x < 2147483648 then 0 else 1)"
      using uint_32_bounds [of x] by (auto simp: div_eq_dividend_iff)
    then show ?thesis by (simp add: bit_iff_odd)
  qed
  ultimately show ?thesis by simp
qed

end
