(* ===== verification/Llist.thy ===== *)
theory Llist
  imports Hal_Prelude
begin

text \<open>
  The intrusive doubly linked lists of \<^verbatim>\<open>HAL/inc/sys/alt_llist.h\<close>, on which the HAL keeps
  its alarms, devices, file systems, flash devices and DMA channels. The two pointer fields of
  \<^verbatim>\<open>struct alt_llist_s\<close> are functions from addresses to addresses; a list is a cycle through
  its head element. The interface the clients rely on is the locale \<open>entry_list\<close> below.
\<close>

section \<open>The pointer code\<close>

record llheap =
  next_of :: "addr \<Rightarrow> addr"
  prev_of :: "addr \<Rightarrow> addr"

text \<open>\<^verbatim>\<open>ALT_LLIST_HEAD(head)\<close>: the head points to itself.\<close>

definition ALT_LLIST_HEAD :: "addr \<Rightarrow> llheap \<Rightarrow> llheap" where
  "ALT_LLIST_HEAD lh h = h\<lparr>next_of := (next_of h)(lh := lh), prev_of := (prev_of h)(lh := lh)\<rparr>"

definition alt_llist_insert :: "addr \<Rightarrow> addr \<Rightarrow> llheap \<Rightarrow> llheap" where
  "alt_llist_insert list entry h =
     (let h1 = h\<lparr>prev_of := (prev_of h)(entry := list)\<rparr>;
          h2 = h1\<lparr>next_of := (next_of h1)(entry := next_of h1 list)\<rparr>;
          h3 = h2\<lparr>prev_of := (prev_of h2)(next_of h2 list := entry)\<rparr>
      in h3\<lparr>next_of := (next_of h3)(list := entry)\<rparr>)"

definition alt_llist_remove :: "addr \<Rightarrow> llheap \<Rightarrow> llheap" where
  "alt_llist_remove entry h =
     (let h1 = h\<lparr>prev_of := (prev_of h)(next_of h entry := prev_of h entry)\<rparr>;
          h2 = h1\<lparr>next_of := (next_of h1)(prev_of h1 entry := next_of h1 entry)\<rparr>;
          h3 = h2\<lparr>prev_of := (prev_of h2)(entry := entry)\<rparr>
      in h3\<lparr>next_of := (next_of h3)(entry := entry)\<rparr>)"

section \<open>The lists the heap represents\<close>

text \<open>
  \<open>lseg h a xs z\<close>: from \<open>a\<close> the forward pointers lead through \<open>xs\<close> to \<open>z\<close>, and every backward
  pointer on the way undoes its forward pointer. A list with head \<open>lh\<close> is such a segment from
  \<open>lh\<close> back to \<open>lh\<close> without repetition.
\<close>

fun lseg :: "llheap \<Rightarrow> addr \<Rightarrow> addr list \<Rightarrow> addr \<Rightarrow> bool" where
  "lseg h a [] z \<longleftrightarrow> next_of h a = z \<and> prev_of h z = a"
| "lseg h a (x # xs) z \<longleftrightarrow> next_of h a = x \<and> prev_of h x = a \<and> lseg h x xs z"

definition dllist :: "llheap \<Rightarrow> addr \<Rightarrow> addr list \<Rightarrow> bool" where
  "dllist h lh xs \<longleftrightarrow> lseg h lh xs lh \<and> distinct (lh # xs)"

lemma lseg_append: "lseg h a (xs @ y # ys) z \<longleftrightarrow> lseg h a xs y \<and> lseg h y ys z"
  by (induction xs arbitrary: a) auto

lemma lseg_frame:
  assumes "lseg h a xs z"
    and "\<And>p. p \<in> set (a # xs) \<Longrightarrow> next_of h' p = next_of h p"
    and "\<And>p. p \<in> set (xs @ [z]) \<Longrightarrow> prev_of h' p = prev_of h p"
  shows "lseg h' a xs z"
  using assms by (induction xs arbitrary: a) auto

lemma lseg_first: "lseg h a xs z \<Longrightarrow> next_of h a = (case xs of [] \<Rightarrow> z | x # _ \<Rightarrow> x)"
  by (cases xs) auto

lemma lseg_last: "lseg h a xs z \<Longrightarrow> prev_of h z = last (a # xs)"
  by (induction xs arbitrary: a) auto

lemma lseg_unique:
  "lseg h a xs z \<Longrightarrow> lseg h a ys z \<Longrightarrow> z \<notin> set xs \<Longrightarrow> z \<notin> set ys \<Longrightarrow> xs = ys"
proof (induction xs arbitrary: a ys)
  case Nil
  then show ?case by (cases ys) auto
next
  case (Cons x xs)
  then show ?case by (cases ys) auto
qed

lemma dllist_head: "dllist (ALT_LLIST_HEAD lh h) lh []"
  by (simp add: dllist_def ALT_LLIST_HEAD_def)

lemma dllist_insert:
  assumes "dllist h lh xs" and "e \<notin> set (lh # xs)"
  shows "dllist (alt_llist_insert lh e h) lh (e # xs)"
proof -
  let ?h = "alt_llist_insert lh e h"
  have seg: "lseg h lh xs lh" and d: "distinct (lh # xs)" using assms by (auto simp: dllist_def)
  have "lseg ?h e xs lh"
  proof (cases xs)
    case Nil
    then show ?thesis using seg assms by (auto simp: alt_llist_insert_def Let_def)
  next
    case (Cons x ys)
    have "lseg ?h x ys lh"
      by (rule lseg_frame [where h = h]) (use seg d assms Cons in \<open>auto simp: alt_llist_insert_def Let_def\<close>)
    then show ?thesis using seg d assms Cons by (auto simp: alt_llist_insert_def Let_def)
  qed
  moreover have "next_of h lh \<noteq> e"
    using lseg_first [OF seg] assms(2) by (auto split: list.splits)
  ultimately show ?thesis using d assms by (auto simp: dllist_def alt_llist_insert_def Let_def)
qed

lemma alt_llist_remove_self:
  "next_of (alt_llist_remove e h) e = e" "prev_of (alt_llist_remove e h) e = e"
  by (simp_all add: alt_llist_remove_def Let_def)

lemma alt_llist_remove_again: "alt_llist_remove e (alt_llist_remove e h) = alt_llist_remove e h"
  using alt_llist_remove_self [of e h]
  by (simp add: alt_llist_remove_def [of e "alt_llist_remove e h"] Let_def fun_upd_idem)

lemma lseg_retarget:
  assumes "lseg h a xs e"
    and "next_of h' (last (a # xs)) = n" and "prev_of h' n = last (a # xs)"
    and "\<And>p. p \<in> set (butlast (a # xs)) \<Longrightarrow> next_of h' p = next_of h p"
    and "\<And>p. p \<in> set xs \<Longrightarrow> prev_of h' p = prev_of h p"
  shows "lseg h' a xs n"
  using assms by (induction xs arbitrary: a) auto

lemma in_butlast_not_last:
  assumes "p \<in> set (butlast zs)" and "distinct zs"
  shows "p \<noteq> last zs"
proof -
  from assms(1) have "zs \<noteq> []" by auto
  then have "zs = butlast zs @ [last zs]" by simp
  with assms(2) have "last zs \<notin> set (butlast zs)"
    by (metis disjoint_insert(2) distinct_append list.set(2))
  with assms(1) show ?thesis by auto
qed

lemma alt_llist_remove_fields:
  assumes "next_of h e \<noteq> e" and "prev_of h e \<noteq> e"
  shows "next_of (alt_llist_remove e h) = (next_of h)(prev_of h e := next_of h e, e := e)"
    and "prev_of (alt_llist_remove e h) = (prev_of h)(next_of h e := prev_of h e, e := e)"
  using assms by (simp_all add: alt_llist_remove_def Let_def)

lemma dllist_remove:
  assumes "dllist h lh (xs @ e # ys)"
  shows "dllist (alt_llist_remove e h) lh (xs @ ys)"
proof -
  let ?h = "alt_llist_remove e h" and ?n = "case ys of [] \<Rightarrow> lh | y # _ \<Rightarrow> y"
  have seg: "lseg h lh xs e" "lseg h e ys lh" and d: "distinct (lh # xs @ e # ys)"
    using assms by (auto simp: dllist_def lseg_append)
  have p: "prev_of h e = last (lh # xs)" and n: "next_of h e = ?n"
    using lseg_last [OF seg(1)] lseg_first [OF seg(2)] by auto
  have pin: "last (lh # xs) \<in> set (lh # xs)" by (rule last_in_set) simp
  have ne: "prev_of h e \<noteq> e" "next_of h e \<noteq> e" "prev_of h e \<notin> set ys"
    using d p n pin by (auto split: list.splits)
  note f = alt_llist_remove_fields [OF ne(2,1)]
  have front: "lseg ?h lh xs ?n"
  proof (rule lseg_retarget [OF seg(1)])
    fix q assume q: "q \<in> set (butlast (lh # xs))"
    then have "q \<in> set (lh # xs)" by (rule in_set_butlastD)
    moreover have "q \<noteq> last (lh # xs)" using q d by (intro in_butlast_not_last) auto
    ultimately show "next_of ?h q = next_of h q" using d p by (auto simp: f)
  qed (use d p n ne in \<open>auto simp: f split: list.splits\<close>)
  have "lseg ?h lh (xs @ ys) lh"
  proof (cases ys)
    case Nil
    then show ?thesis using front by simp
  next
    case (Cons y zs)
    have "lseg ?h y zs lh"
      by (rule lseg_frame [where h = h]) (use seg(2) d p n ne Cons in \<open>auto simp: f\<close>)
    then show ?thesis using front Cons by (simp add: lseg_append)
  qed
  then show ?thesis using d by (auto simp: dllist_def)
qed

lemma dllist_first: "dllist h lh xs \<Longrightarrow> next_of h lh = (case xs of [] \<Rightarrow> lh | x # _ \<Rightarrow> x)"
  unfolding dllist_def using lseg_first by blast

lemma dllist_next:
  "dllist h lh (xs @ a # ys) \<Longrightarrow> next_of h a = (case ys of [] \<Rightarrow> lh | y # _ \<Rightarrow> y)"
  unfolding dllist_def lseg_append using lseg_first by blast

lemma dllist_unique: "dllist h lh xs \<Longrightarrow> dllist h lh ys \<Longrightarrow> xs = ys"
  unfolding dllist_def using lseg_unique by fastforce

section \<open>The interface\<close>

text \<open>
  What the alarm code and the device lists rely on: a head element, an insertion in front,
  a removal, and the successor pointer, over a relation that says which entries the list
  holds.
\<close>

locale entry_list =
  fixes ins :: "addr \<Rightarrow> addr \<Rightarrow> 'h \<Rightarrow> 'h"
    and rem :: "addr \<Rightarrow> 'h \<Rightarrow> 'h"
    and nxt :: "'h \<Rightarrow> addr \<Rightarrow> addr"
    and holds :: "'h \<Rightarrow> addr \<Rightarrow> addr list \<Rightarrow> bool"
  assumes holds_ins: "holds h lh xs \<Longrightarrow> e \<notin> set (lh # xs) \<Longrightarrow> holds (ins lh e h) lh (e # xs)"
    and holds_rem: "holds h lh (xs @ e # ys) \<Longrightarrow> holds (rem e h) lh (xs @ ys)"
    and rem_again: "rem e (rem e h) = rem e h"
    and nxt_rem: "nxt (rem e h) e = e"
    and nxt_first: "holds h lh xs \<Longrightarrow> nxt h lh = (case xs of [] \<Rightarrow> lh | x # _ \<Rightarrow> x)"
    and nxt_entry: "holds h lh (xs @ a # ys) \<Longrightarrow> nxt h a = (case ys of [] \<Rightarrow> lh | y # _ \<Rightarrow> y)"
    and holds_distinct: "holds h lh xs \<Longrightarrow> distinct (lh # xs)"
    and holds_unique: "holds h lh xs \<Longrightarrow> holds h lh ys \<Longrightarrow> xs = ys"
begin

lemma entry_not_head: "holds h lh xs \<Longrightarrow> x \<in> set xs \<Longrightarrow> x \<noteq> lh"
  using holds_distinct by fastforce

lemma ins_rem:
  assumes "holds h lh xs" and "e \<notin> set (lh # xs)"
  shows "holds (rem e (ins lh e h)) lh xs"
  using holds_rem [of "ins lh e h" lh "[]" e xs] holds_ins [OF assms] by simp

lemma nxt_empty_iff: "holds h lh xs \<Longrightarrow> nxt h lh = lh \<longleftrightarrow> xs = []"
  using nxt_first entry_not_head by (fastforce split: list.splits)

text \<open>
  A walk along the list from one of its entries: whatever is computed from the successor
  pointers by \<open>step\<close> until the head is met is computed by recursion over the entries.
\<close>

lemma walk:
  assumes unfold: "\<And>p. walk p = (if p = lh then fin else step p (walk (nxt h p)))"
    and "holds h lh (xs @ ys)" and "a = (case ys of [] \<Rightarrow> lh | y # _ \<Rightarrow> y)"
  shows "walk a = foldr step ys fin"
  using assms(2,3)
proof (induction ys arbitrary: xs a)
  case Nil
  then show ?case using unfold by simp
next
  case (Cons y ys)
  then have "y \<noteq> lh" using entry_not_head by auto
  moreover have "walk (nxt h y) = foldr step ys fin"
    using Cons.IH [of "xs @ [y]"] Cons.prems nxt_entry [OF Cons.prems(1)] by simp
  ultimately show ?case using unfold [of y] Cons.prems by simp
qed

end

interpretation ll: entry_list alt_llist_insert alt_llist_remove next_of dllist
  by unfold_locales
    (auto simp: alt_llist_remove_again alt_llist_remove_self dllist_next dllist_unique
      intro: dllist_insert dllist_remove dest: dllist_first, auto simp: dllist_def)

section \<open>Properties\<close>

text \<open>Inserting an entry that the list does not hold makes it the first entry and
  keeps the others in their order, with both pointer directions consistent.\<close>

theorem alt_llist_insert_front:
  assumes "dllist h lh xs" and "e \<notin> set (lh # xs)"
  shows "dllist (alt_llist_insert lh e h) lh (e # xs)"
  using assms by (rule ll.holds_ins)

definition demo_heap :: llheap where
  "demo_heap = alt_llist_insert 1 3 (alt_llist_insert 1 2 (ALT_LLIST_HEAD 1
     \<lparr>next_of = (\<lambda>_. 0), prev_of = (\<lambda>_. 0)\<rparr>))"

lemma demo_heap_list: "dllist demo_heap 1 [3, 2]"
  unfolding demo_heap_def by (intro dllist_insert dllist_head) auto

theorem alt_llist_insert_front_witness:
  "dllist (alt_llist_insert 1 9 demo_heap) 1 [9, 3, 2]"
  by (rule alt_llist_insert_front [OF demo_heap_list]) simp

text \<open>Removing an entry, wherever it is, takes exactly it out of the list; the entry
  then points to itself in both directions, and removing it again changes nothing.\<close>

theorem alt_llist_remove_entry:
  assumes "dllist h lh (xs @ e # ys)"
  shows "dllist (alt_llist_remove e h) lh (xs @ ys)
    \<and> next_of (alt_llist_remove e h) e = e \<and> prev_of (alt_llist_remove e h) e = e
    \<and> alt_llist_remove e (alt_llist_remove e h) = alt_llist_remove e h"
  using ll.holds_rem [OF assms] by (simp add: alt_llist_remove_self ll.rem_again)

theorem alt_llist_remove_entry_witness:
  "dllist (alt_llist_remove 2 demo_heap) 1 [3]"
  using alt_llist_remove_entry [of demo_heap 1 "[3]" 2 "[]"] demo_heap_list by simp

end
