(* ===== verification/Cpu_Irq.thy ===== *)
theory Cpu_Irq
  imports Hal_Prelude
begin

text \<open>
  The processor's interrupt state and the interrupt layer of the HAL:
  \<^verbatim>\<open>HAL/inc/sys/alt_irq.h\<close>, \<^verbatim>\<open>HAL/inc/priv/alt_legacy_irq.h\<close>,
  \<^verbatim>\<open>HAL/src/alt_irq_register.c\<close>, \<^verbatim>\<open>HAL/src/alt_iic_isr_register.c\<close>,
  \<^verbatim>\<open>HAL/src/alt_iic.c\<close>, \<^verbatim>\<open>HAL/src/alt_irq_handler.c\<close>,
  \<^verbatim>\<open>HAL/src/altera_nios2_gen2_irq.c\<close> and \<^verbatim>\<open>alt_irq_init\<close> of
  \<^verbatim>\<open>alt_sys_init.c\<close>, in the configuration of \<^verbatim>\<open>system.h\<close>: an internal
  interrupt controller, the enhanced interrupt API, no shadow register sets, no MMU or MPU.
\<close>

section \<open>Processor state\<close>

text \<open>
  The control registers \<^verbatim>\<open>status\<close> and \<^verbatim>\<open>ienable\<close>, the HAL's copies
  \<^verbatim>\<open>alt_irq_active\<close> and \<^verbatim>\<open>alt_priority_mask\<close>, and the global
  \<^verbatim>\<open>errno\<close>. Every component state below extends this record.
\<close>

record cpu =
  alt_errno :: int
  status :: alt_u32
  ienable :: alt_u32
  alt_irq_active :: alt_u32
  alt_priority_mask :: alt_u32

definition NIOS2_STATUS_PIE_MSK :: alt_u32 where "NIOS2_STATUS_PIE_MSK = 1"
definition ALT_NIRQ :: nat where "ALT_NIRQ = 32"

definition alt_irq_enabled :: "'a cpu_scheme \<Rightarrow> alt_u32" where
  "alt_irq_enabled s = status s AND NIOS2_STATUS_PIE_MSK"

definition alt_irq_disable_all :: "'a cpu_scheme \<Rightarrow> alt_u32 \<times> 'a cpu_scheme" where
  "alt_irq_disable_all s =
     (let context = status s
      in (context, s\<lparr>status := context AND NOT NIOS2_STATUS_PIE_MSK\<rparr>))"

definition alt_irq_enable_all :: "alt_u32 \<Rightarrow> 'a cpu_scheme \<Rightarrow> 'a cpu_scheme" where
  "alt_irq_enable_all context s = s\<lparr>status := context\<rparr>"

definition alt_irq_disable :: "alt_u32 \<Rightarrow> 'a cpu_scheme \<Rightarrow> int \<times> 'a cpu_scheme" where
  "alt_irq_disable iid s =
     (let (st, s1) = alt_irq_disable_all s;
          s2 = s1\<lparr>alt_irq_active := alt_irq_active s1 AND NOT (push_bit (unat iid) 1)\<rparr>;
          s3 = s2\<lparr>ienable := alt_irq_active s2\<rparr>
      in (0, alt_irq_enable_all st s3))"

definition alt_irq_enable :: "alt_u32 \<Rightarrow> 'a cpu_scheme \<Rightarrow> int \<times> 'a cpu_scheme" where
  "alt_irq_enable iid s =
     (let (st, s1) = alt_irq_disable_all s;
          s2 = s1\<lparr>alt_irq_active := alt_irq_active s1 OR push_bit (unat iid) 1\<rparr>;
          s3 = s2\<lparr>ienable := alt_irq_active s2\<rparr>
      in (0, alt_irq_enable_all st s3))"

definition alt_irq_interruptible :: "alt_u32 \<Rightarrow> 'a cpu_scheme \<Rightarrow> alt_u32 \<times> 'a cpu_scheme" where
  "alt_irq_interruptible priority s =
     (let old_priority = alt_priority_mask s;
          s1 = s\<lparr>alt_priority_mask := push_bit (unat priority) 1 - 1\<rparr>;
          s2 = s1\<lparr>ienable := alt_irq_active s1 AND alt_priority_mask s1\<rparr>;
          s3 = s2\<lparr>status := 1\<rparr>
      in (old_priority, s3))"

definition alt_irq_non_interruptible :: "alt_u32 \<Rightarrow> 'a cpu_scheme \<Rightarrow> 'a cpu_scheme" where
  "alt_irq_non_interruptible msk s =
     (let s1 = s\<lparr>status := 0\<rparr>;
          s2 = s1\<lparr>alt_priority_mask := msk\<rparr>
      in s2\<lparr>ienable := msk AND alt_irq_active s2\<rparr>)"

definition altera_nios2_gen2_irq_init :: "'a cpu_scheme \<Rightarrow> 'a cpu_scheme" where
  "altera_nios2_gen2_irq_init s = s\<lparr>ienable := 0\<rparr>"

definition alt_irq_cpu_enable_interrupts :: "'a cpu_scheme \<Rightarrow> 'a cpu_scheme" where
  "alt_irq_cpu_enable_interrupts s = s\<lparr>status := NIOS2_STATUS_PIE_MSK\<rparr>"

definition alt_irq_init :: "'a cpu_scheme \<Rightarrow> 'a cpu_scheme" where
  "alt_irq_init s = alt_irq_cpu_enable_interrupts (altera_nios2_gen2_irq_init s)"

section \<open>The handler table\<close>

text \<open>
  The table \<^verbatim>\<open>alt_irq\<close> of \<^verbatim>\<open>alt_irq_handler.c\<close>: entry \<open>i\<close> is the pair of
  the handler's address (0 when none is registered) and its context pointer.
\<close>

record intc = cpu +
  alt_irq :: "(addr \<times> addr) list"

definition alt_ic_irq_enable :: "alt_u32 \<Rightarrow> alt_u32 \<Rightarrow> 'a cpu_scheme \<Rightarrow> int \<times> 'a cpu_scheme" where
  "alt_ic_irq_enable ic_id irq s = alt_irq_enable irq s"

definition alt_ic_irq_disable :: "alt_u32 \<Rightarrow> alt_u32 \<Rightarrow> 'a cpu_scheme \<Rightarrow> int \<times> 'a cpu_scheme" where
  "alt_ic_irq_disable ic_id irq s = alt_irq_disable irq s"

definition alt_ic_irq_enabled :: "alt_u32 \<Rightarrow> alt_u32 \<Rightarrow> 'a cpu_scheme \<Rightarrow> alt_u32" where
  "alt_ic_irq_enabled ic_id irq s =
     (let irq_enabled = ienable s
      in if irq_enabled AND push_bit (unat irq) 1 \<noteq> 0 then 1 else 0)"

text \<open>\<^verbatim>\<open>alt_irq_register()\<close>, the legacy call: the bound is tested on the unsigned id.\<close>

definition alt_irq_register ::
  "alt_u32 \<Rightarrow> addr \<Rightarrow> addr \<Rightarrow> 'a intc_scheme \<Rightarrow> int \<times> 'a intc_scheme" where
  "alt_irq_register iid context handler s =
     (if unat iid < ALT_NIRQ then
        (let (st, s1) = alt_irq_disable_all s;
             s2 = s1\<lparr>alt_irq := (alt_irq s1)[unat iid := (handler, context)]\<rparr>;
             (rc, s3) = (if handler \<noteq> 0 then alt_irq_enable iid s2 else alt_irq_disable iid s2)
         in (rc, alt_irq_enable_all st s3))
      else (- EINVAL, s))"

text \<open>
  \<^verbatim>\<open>alt_iic_isr_register()\<close>: the id is converted to \<^verbatim>\<open>int\<close> before the test, so a
  negative id passes it and the table is written outside its bounds.
\<close>

definition alt_iic_isr_register ::
  "alt_u32 \<Rightarrow> alt_u32 \<Rightarrow> addr \<Rightarrow> addr \<Rightarrow> addr \<Rightarrow> 'a intc_scheme \<Rightarrow> (int \<times> 'a intc_scheme) c_result"
where
  "alt_iic_isr_register ic_id irq isr isr_context flags s =
     (let id = sint irq in
      if id < int ALT_NIRQ then
        (let (st, s1) = alt_irq_disable_all s in
         if id < 0 then Inl Out_Of_Bounds
         else
          (let s2 = s1\<lparr>alt_irq := (alt_irq s1)[nat id := (isr, isr_context)]\<rparr>;
               (rc, s3) = (if isr \<noteq> 0 then alt_ic_irq_enable ic_id (word_of_int id) s2
                           else alt_ic_irq_disable ic_id (word_of_int id) s2)
           in Inr (rc, alt_irq_enable_all st s3)))
      else Inr (- EINVAL, s))"

definition alt_ic_isr_register ::
  "alt_u32 \<Rightarrow> alt_u32 \<Rightarrow> addr \<Rightarrow> addr \<Rightarrow> addr \<Rightarrow> 'a intc_scheme \<Rightarrow> (int \<times> 'a intc_scheme) c_result"
where
  "alt_ic_isr_register ic_id irq isr isr_context flags s =
     alt_iic_isr_register ic_id irq isr isr_context flags s"

section \<open>Dispatch\<close>

text \<open>
  The inner loop of \<^verbatim>\<open>alt_irq_handler()\<close>: \<open>i\<close> and \<open>mask\<close> advance until a bit of
  \<open>active\<close> is found. \<open>None\<close> is the loop that never ends.
\<close>

partial_function (option) alt_irq_scan :: "alt_u32 \<Rightarrow> alt_u32 \<Rightarrow> alt_u32 \<Rightarrow> alt_u32 option" where
  "alt_irq_scan active msk i =
     (if active AND msk \<noteq> 0 then Some i else alt_irq_scan active (push_bit 1 msk) (i + 1))"

text \<open>
  The outer loop. The pending register and the effect of calling a handler are parameters:
  \<open>ipending s\<close> is what \<^verbatim>\<open>NIOS2_READ_IPENDING\<close> returns in state \<open>s\<close>, \<open>call h c s\<close> is
  the state after the function at address \<open>h\<close> was called with context \<open>c\<close>.
\<close>

partial_function (option) alt_irq_dispatch ::
  "('a intc_scheme \<Rightarrow> alt_u32) \<Rightarrow> (addr \<Rightarrow> addr \<Rightarrow> 'a intc_scheme \<Rightarrow> 'a intc_scheme)
   \<Rightarrow> alt_u32 \<Rightarrow> 'a intc_scheme \<Rightarrow> 'a intc_scheme option" where
  "alt_irq_dispatch ipending call active s =
     do {
       i \<leftarrow> alt_irq_scan active 1 0;
       let s1 = call (fst (alt_irq s ! unat i)) (snd (alt_irq s ! unat i)) s;
       (if ipending s1 \<noteq> 0 then alt_irq_dispatch ipending call (ipending s1) s1 else Some s1)
     }"

definition alt_irq_handler ::
  "('a intc_scheme \<Rightarrow> alt_u32) \<Rightarrow> (addr \<Rightarrow> addr \<Rightarrow> 'a intc_scheme \<Rightarrow> 'a intc_scheme)
   \<Rightarrow> 'a intc_scheme \<Rightarrow> 'a intc_scheme option" where
  "alt_irq_handler ipending call s = alt_irq_dispatch ipending call (ipending s) s"

section \<open>Critical sections\<close>

named_theorems irq_defs \<open>definitions of the interrupt control operations\<close>

lemmas [irq_defs] = Let_def alt_irq_disable_all_def alt_irq_enable_all_def alt_irq_enable_def
  alt_irq_disable_def alt_ic_irq_enable_def alt_ic_irq_disable_def alt_ic_isr_register_def

lemma disable_all_masks: "alt_irq_enabled (snd (alt_irq_disable_all s)) = 0"
  by (auto simp: alt_irq_disable_all_def alt_irq_enabled_def word32_eq_iff bit_simps Let_def)

text \<open>
  Every operation of the HAL that must not be interrupted has this shape. What the
  processor's interrupt enable was before the section, it is after it, nested or not.
\<close>

lemma critical_section_restores:
  "status (alt_irq_enable_all (fst (alt_irq_disable_all s)) s') = status s"
  by (simp add: irq_defs)

lemma irq_enable_simps [simp]:
  "fst (alt_irq_enable iid s) = 0"
  "status (snd (alt_irq_enable iid s)) = status s"
  "alt_irq_active (snd (alt_irq_enable iid s)) = alt_irq_active s OR push_bit (unat iid) 1"
  "ienable (snd (alt_irq_enable iid s)) = alt_irq_active s OR push_bit (unat iid) 1"
  by (simp_all add: irq_defs Let_def)

lemma irq_disable_simps [simp]:
  "fst (alt_irq_disable iid s) = 0"
  "status (snd (alt_irq_disable iid s)) = status s"
  "alt_irq_active (snd (alt_irq_disable iid s)) = alt_irq_active s AND NOT (push_bit (unat iid) 1)"
  "ienable (snd (alt_irq_disable iid s)) = alt_irq_active s AND NOT (push_bit (unat iid) 1)"
  by (simp_all add: irq_defs Let_def)

lemma irq_enable_table [simp]: "alt_irq (snd (alt_irq_enable iid s)) = alt_irq s"
  by (simp add: irq_defs Let_def)

lemma irq_disable_table [simp]: "alt_irq (snd (alt_irq_disable iid s)) = alt_irq s"
  by (simp add: irq_defs Let_def)


section \<open>Registration\<close>

text \<open>
  The invariant of the interrupt layer: the table has its declared length, and the
  processor enables exactly the interrupts the HAL believes to be active.
\<close>

definition intc_wf :: "'a intc_scheme \<Rightarrow> bool" where
  "intc_wf s \<longleftrightarrow> length (alt_irq s) = ALT_NIRQ \<and> ienable s = alt_irq_active s"

lemma intc_wf_enable: "intc_wf s \<Longrightarrow> intc_wf (snd (alt_irq_enable iid s))"
  by (simp add: intc_wf_def)

lemma intc_wf_disable: "intc_wf s \<Longrightarrow> intc_wf (snd (alt_irq_disable iid s))"
  by (simp add: intc_wf_def)

lemma alt_irq_register_eq:
  "unat iid < ALT_NIRQ \<Longrightarrow>
   alt_irq_register iid context handler s =
     (0, s\<lparr>alt_irq := (alt_irq s)[unat iid := (handler, context)],
           alt_irq_active := (if handler \<noteq> 0 then alt_irq_active s OR push_bit (unat iid) 1
                              else alt_irq_active s AND NOT (push_bit (unat iid) 1)),
           ienable := (if handler \<noteq> 0 then alt_irq_active s OR push_bit (unat iid) 1
                       else alt_irq_active s AND NOT (push_bit (unat iid) 1))\<rparr>)"
  by (simp add: alt_irq_register_def irq_defs)

lemma alt_iic_isr_register_eq:
  "alt_iic_isr_register ic_id irq isr ctx flags s =
     (if sint irq < 0 then Inl Out_Of_Bounds else Inr (alt_irq_register irq ctx isr s))"
proof (cases "sint irq < 0")
  case True
  then show ?thesis
    by (simp add: alt_iic_isr_register_def ALT_NIRQ_def irq_defs)
next
  case False
  then have nn: "0 \<le> sint irq" by simp
  then have "sint irq = uint irq"
    using uint_32_bounds [of irq] by (simp add: sint_32 split: if_splits)
  then have "nat (sint irq) = unat irq" "word_of_int (sint irq) = irq"
    by simp_all
  moreover have "sint irq < int ALT_NIRQ \<longleftrightarrow> unat irq < ALT_NIRQ"
    using nn \<open>nat (sint irq) = unat irq\<close> by linarith
  ultimately show ?thesis
    using False
    by (simp add: alt_iic_isr_register_def alt_irq_register_def irq_defs split: prod.splits)
qed

section \<open>Dispatch order\<close>

lemma alt_irq_scan_Some_nonzero:
  assumes "alt_irq_scan active msk i = Some r"
  shows "active \<noteq> 0"
  by (rule alt_irq_scan.raw_induct [where P = "\<lambda>active msk i r. active \<noteq> 0", OF _ assms])
     (auto split: if_splits)

lemma alt_irq_scan_from:
  assumes "bit active n" "n < 32" "k \<le> n" "\<forall>j<n. k \<le> j \<longrightarrow> \<not> bit active j"
  shows "alt_irq_scan active (push_bit k 1) (of_nat k) = Some (of_nat n)"
  using assms(3,4)
proof (induction "n - k" arbitrary: k)
  case 0
  with assms(1,2) have "k = n" by simp
  with assms(1,2) show ?case
    by (simp add: alt_irq_scan.simps [of active "2 ^ n"] and_exp_eq_0_iff_not_bit)
next
  case (Suc m)
  then have "k < n" by simp
  with Suc.prems assms(2) have "active AND push_bit k 1 = 0"
    by (simp add: and_exp_eq_0_iff_not_bit)
  moreover have "alt_irq_scan active (push_bit (Suc k) 1) (of_nat (Suc k)) = Some (of_nat n)"
    using Suc.prems Suc.hyps(2) \<open>k < n\<close> by (intro Suc.hyps(1)) auto
  ultimately show ?case
    by (simp add: alt_irq_scan.simps [of active "2 ^ k"] and_exp_eq_0_iff_not_bit
        push_bit_of_1 ac_simps)
qed

text \<open>The numbers of the pending interrupts, highest priority (lowest number) first.\<close>

definition pending_ids :: "alt_u32 \<Rightarrow> nat list" where
  "pending_ids w = filter (bit w) [0..<ALT_NIRQ]"

lemma pending_ids_Nil_iff: "pending_ids w = [] \<longleftrightarrow> w = 0"
  by (auto simp: pending_ids_def filter_empty_conv ALT_NIRQ_def word32_eq_iff)

lemma alt_irq_scan_hd:
  assumes "pending_ids w = n # ns"
  shows "alt_irq_scan w 1 0 = Some (of_nat n)" "n < 32" "bit w n"
proof -
  from assms have mem: "n \<in> set (pending_ids w)" and srt: "sorted (n # ns)"
    and st: "set (n # ns) = {i. i < 32 \<and> bit w i}"
  proof -
    show "n \<in> set (pending_ids w)" by (simp add: assms)
    have "sorted (pending_ids w)"
      unfolding pending_ids_def by (rule sorted_wrt_filter) simp
    then show "sorted (n # ns)" by (simp only: assms)
    have "set (pending_ids w) = {i. i < 32 \<and> bit w i}"
      by (auto simp: pending_ids_def ALT_NIRQ_def)
    then show "set (n # ns) = {i. i < 32 \<and> bit w i}" by (simp only: assms)
  qed
  show "n < 32" "bit w n" using mem by (auto simp: pending_ids_def ALT_NIRQ_def)
  moreover have "\<forall>j<n. 0 \<le> j \<longrightarrow> \<not> bit w j"
  proof (intro allI impI)
    fix j assume "j < n"
    then have "j \<notin> set (n # ns)" using srt by auto
    moreover have "j \<in> set (n # ns) \<longleftrightarrow> j < 32 \<and> bit w j"
      unfolding st by simp
    ultimately show "\<not> bit w j" using \<open>j < n\<close> \<open>n < 32\<close> by simp
  qed
  ultimately show "alt_irq_scan w 1 0 = Some (of_nat n)"
    using alt_irq_scan_from [of w n 0] by simp
qed


text \<open>
  One round of the dispatch loop when the handlers keep to themselves: the called handler
  clears its own request, raises none, and leaves the handler table alone.
\<close>

definition quiet_handlers ::
  "('a intc_scheme \<Rightarrow> alt_u32) \<Rightarrow> (addr \<Rightarrow> addr \<Rightarrow> 'a intc_scheme \<Rightarrow> 'a intc_scheme)
   \<Rightarrow> (addr \<times> addr) list \<Rightarrow> bool" where
  "quiet_handlers ipending call tbl \<longleftrightarrow>
     (\<forall>s n. n < ALT_NIRQ \<and> alt_irq s = tbl \<longrightarrow>
        ipending (call (fst (tbl ! n)) (snd (tbl ! n)) s) = ipending s AND NOT (2 ^ n)
        \<and> alt_irq (call (fst (tbl ! n)) (snd (tbl ! n)) s) = tbl)"

lemma pending_ids_clear:
  assumes "pending_ids w = n # ns"
  shows "pending_ids (w AND NOT (2 ^ n)) = ns"
proof -
  have d: "distinct (n # ns)"
    using assms by (metis distinct_filter distinct_upt pending_ids_def)
  have "pending_ids (w AND NOT (2 ^ n)) = filter (\<lambda>j. j \<noteq> n) (pending_ids w)"
    by (auto simp: pending_ids_def ALT_NIRQ_def bit_simps intro!: filter_cong)
  also have "\<dots> = ns" using d by (auto simp: assms intro!: filter_True)
  finally show ?thesis .
qed

lemma alt_irq_dispatch_serves:
  assumes "quiet_handlers ipending call tbl" "alt_irq s = tbl" "ipending s = w"
    and "pending_ids w = ns" "ns \<noteq> []"
  shows "alt_irq_dispatch ipending call w s =
           Some (fold (\<lambda>n. call (fst (tbl ! n)) (snd (tbl ! n))) ns s)"
  using assms(2-)
proof (induction ns arbitrary: w s)
  case Nil
  then show ?case by simp
next
  case (Cons n ns)
  define s1 where "s1 = call (fst (tbl ! n)) (snd (tbl ! n)) s"
  note scan = alt_irq_scan_hd [OF Cons.prems(3)]
  have s1: "ipending s1 = w AND NOT (2 ^ n)" "alt_irq s1 = tbl"
    using assms(1) Cons.prems scan(2) unfolding s1_def quiet_handlers_def ALT_NIRQ_def by auto
  have ids: "pending_ids (ipending s1) = ns"
    using pending_ids_clear [OF Cons.prems(3)] s1 by simp
  have step: "alt_irq_dispatch ipending call w s =
      (if ipending s1 \<noteq> 0 then alt_irq_dispatch ipending call (ipending s1) s1 else Some s1)"
    using scan(1,2) Cons.prems(1)
    by (subst alt_irq_dispatch.simps) (simp add: s1_def Let_def unat_of_nat)
  show ?case
  proof (cases "ns = []")
    case True
    then show ?thesis using ids step by (simp add: pending_ids_Nil_iff s1_def)
  next
    case False
    then have "ipending s1 \<noteq> 0" using ids pending_ids_Nil_iff by metis
    then show ?thesis
      using step Cons.IH [OF s1(2) refl ids False] by (simp add: s1_def)
  qed
qed


lemma fold_calls_pending:
  assumes "quiet_handlers ipending call tbl" "alt_irq s = tbl" "pending_ids (ipending s) = ns"
  shows "ipending (fold (\<lambda>n. call (fst (tbl ! n)) (snd (tbl ! n))) ns s) = 0"
  using assms(2,3)
proof (induction ns arbitrary: s)
  case Nil
  then show ?case by (simp add: pending_ids_Nil_iff)
next
  case (Cons n ns)
  have "ipending (call (fst (tbl ! n)) (snd (tbl ! n)) s) = ipending s AND NOT (2 ^ n)"
    "alt_irq (call (fst (tbl ! n)) (snd (tbl ! n)) s) = tbl"
    using assms(1) Cons.prems alt_irq_scan_hd(2) [OF Cons.prems(2)]
    unfolding quiet_handlers_def ALT_NIRQ_def by auto
  then show ?case
    using Cons.IH pending_ids_clear [OF Cons.prems(2)] by simp
qed

section \<open>Properties\<close>

text \<open>Registering a handler for a line of the controller succeeds, stores the
  handler and its context in that entry only, enables the line exactly when the handler is not
  null, leaves every other line as it was, keeps the invariant between the HAL's copy and the
  enable register, and restores the processor's interrupt enable.\<close>

theorem alt_irq_register_correct:
  assumes "intc_wf s" and "unat iid < ALT_NIRQ"
  shows "\<exists>s'. alt_irq_register iid context handler s = (0, s') \<and> intc_wf s' \<and> status s' = status s
    \<and> alt_irq s' = (alt_irq s)[unat iid := (handler, context)]
    \<and> (\<forall>j<32. bit (ienable s') j \<longleftrightarrow> (if j = unat iid then handler \<noteq> 0 else bit (ienable s) j))"
  using assms by (auto simp: alt_irq_register_eq intc_wf_def bit_simps ALT_NIRQ_def)

definition idle_intc :: intc where
  "idle_intc = \<lparr>alt_errno = 0, status = 1, ienable = 0, alt_irq_active = 0,
     alt_priority_mask = -1, alt_irq = replicate 32 (0, 0)\<rparr>"

theorem alt_irq_register_correct_witness:
  "intc_wf idle_intc \<and> (\<exists>s'. alt_irq_register 5 77 4096 idle_intc = (0, s') \<and> bit (ienable s') 5)"
proof -
  have h: "intc_wf idle_intc" by (simp add: intc_wf_def idle_intc_def ALT_NIRQ_def)
  have n: "unat (5 :: alt_u32) < ALT_NIRQ" by (simp add: ALT_NIRQ_def)
  show ?thesis using h alt_irq_register_correct [OF h n, of 77 4096] by auto
qed

text \<open>The enhanced registration call agrees with the legacy one on every line
  number below \<open>2\<^sup>3\<^sup>1\<close>, errors included, but its signed bound test lets every larger number
  through (such as \<^verbatim>\<open>ALT_IRQ_NOT_CONNECTED\<close>, that is -1), and the table is then written out
  of its bounds.\<close>

theorem alt_ic_isr_register_signed_bound:
  "alt_ic_isr_register ic_id irq isr ctx flags s =
     (if 2147483648 \<le> uint irq then Inl Out_Of_Bounds else Inr (alt_irq_register irq ctx isr s))"
  using uint_32_bounds [of irq] by (simp add: alt_ic_isr_register_def alt_iic_isr_register_eq sint_32)

text \<open>The search for the interrupt to serve returns the lowest-numbered active
  line, and it returns at all exactly when some line is active: with no active line the loop
  never ends.\<close>

theorem alt_irq_scan_lowest:
  "alt_irq_scan active 1 0 = (case pending_ids active of [] \<Rightarrow> None | n # ns \<Rightarrow> Some (of_nat n))"
proof (cases "pending_ids active")
  case Nil
  then have "active = 0" by (simp add: pending_ids_Nil_iff)
  then have "alt_irq_scan active 1 0 = None"
    using alt_irq_scan_Some_nonzero by (cases "alt_irq_scan active 1 0") auto
  with Nil show ?thesis by simp
next
  case (Cons n ns)
  then show ?thesis using alt_irq_scan_hd by simp
qed

text \<open>Property C10: with handlers that clear their own request and raise no other, the interrupt
  handler returns; it has called the handlers of exactly the lines that were pending, each once,
  in the order of their priority, with their registered contexts, and nothing is pending
  afterwards.\<close>

theorem alt_irq_handler_priority_order:
  assumes "quiet_handlers ipending call (alt_irq s)" and "ipending s \<noteq> 0"
  shows "\<exists>s'. alt_irq_handler ipending call s = Some s' \<and> ipending s' = 0
    \<and> s' = fold (\<lambda>n. call (fst (alt_irq s ! n)) (snd (alt_irq s ! n))) (pending_ids (ipending s)) s"
  using assms alt_irq_dispatch_serves [OF assms(1) refl refl refl]
    fold_calls_pending [OF assms(1) refl refl]
  by (simp add: alt_irq_handler_def pending_ids_Nil_iff)

text \<open>The witness: lines 1 and 4 pending, the extension of the record holds the pending
  register and the log of calls.\<close>

definition logging_call ::
  "addr \<Rightarrow> addr \<Rightarrow> (alt_u32 \<times> addr list) intc_scheme \<Rightarrow> (alt_u32 \<times> addr list) intc_scheme" where
  "logging_call h c s =
     intc.more_update (\<lambda>(p, l). (p AND NOT (2 ^ unat c), l @ [h])) s"

definition busy_intc :: "(alt_u32 \<times> addr list) intc_scheme" where
  "busy_intc = \<lparr>alt_errno = 0, status = 0, ienable = 18, alt_irq_active = 18,
     alt_priority_mask = -1, alt_irq = map (\<lambda>n. (of_nat (100 + n), of_nat n)) [0..<32],
     \<dots> = (18, [])\<rparr>"

lemma busy_intc_quiet: "quiet_handlers (fst \<circ> intc.more) logging_call (alt_irq busy_intc)"
  by (auto simp: quiet_handlers_def logging_call_def busy_intc_def ALT_NIRQ_def unat_of_nat
      split: prod.splits)

theorem alt_irq_handler_priority_order_witness:
  "quiet_handlers (fst \<circ> intc.more) logging_call (alt_irq busy_intc)
   \<and> (\<exists>s'. alt_irq_handler (fst \<circ> intc.more) logging_call busy_intc = Some s'
        \<and> intc.more s' = (0, [101, 104]))"
proof -
  have p: "(fst \<circ> intc.more) busy_intc \<noteq> 0" by (simp add: busy_intc_def)
  have ids: "pending_ids ((fst \<circ> intc.more) busy_intc) = [1, 4]"
    by (simp add: busy_intc_def pending_ids_def ALT_NIRQ_def upt_conv_Cons)
  obtain s' where "alt_irq_handler (fst \<circ> intc.more) logging_call busy_intc = Some s'"
    and "s' = fold (\<lambda>n. logging_call (fst (alt_irq busy_intc ! n)) (snd (alt_irq busy_intc ! n)))
               [1, 4] busy_intc"
    using alt_irq_handler_priority_order [OF busy_intc_quiet p] unfolding ids by blast
  moreover from this(2) have "intc.more s' = (0, [101, 104])"
    by (simp add: logging_call_def busy_intc_def unat_of_nat)
  ultimately show ?thesis using busy_intc_quiet by blast
qed

end
