(* ===== verification/Alarm.thy ===== *)
theory Alarm
  imports Llist Cpu_Irq
begin

text \<open>
  The system clock and its alarms: \<^verbatim>\<open>HAL/src/alt_tick.c\<close>,
  \<^verbatim>\<open>HAL/src/alt_alarm_start.c\<close>, \<^verbatim>\<open>HAL/inc/priv/alt_alarm.h\<close> and
  \<^verbatim>\<open>HAL/inc/sys/alt_alarm.h\<close>. Alarms live at the addresses their owners chose; the
  list of the active ones is the linked list whose head is \<^verbatim>\<open>alt_alarm_list\<close>.
\<close>

section \<open>State\<close>

text \<open>
  \<^verbatim>\<open>struct alt_alarm_s\<close>, less its list pointers, which are in the heap. A callback is the
  address of a function.
\<close>

record alt_alarm =
  time :: alt_u32
  callback :: addr
  rollover :: alt_u8
  cb_context :: addr

text \<open>
  The globals of \<^verbatim>\<open>alt_tick.c\<close>, after those of the interrupt layer: the list pointers, the
  address of the list head, the alarm structures, \<^verbatim>\<open>_alt_tick_rate\<close> and
  \<^verbatim>\<open>_alt_nticks\<close>.
\<close>

record sysclk = intc +
  llists :: llheap
  alt_alarm_list :: addr
  alarm_at :: "addr \<Rightarrow> alt_alarm"
  tick_rate :: alt_u32
  nticks :: alt_u32

definition alt_ticks_per_second :: "'a sysclk_scheme \<Rightarrow> alt_u32" where
  "alt_ticks_per_second s = tick_rate s"

definition alt_nticks :: "'a sysclk_scheme \<Rightarrow> alt_u32" where
  "alt_nticks s = nticks s"

definition alt_sysclk_init :: "alt_u32 \<Rightarrow> 'a sysclk_scheme \<Rightarrow> int \<times> 'a sysclk_scheme" where
  "alt_sysclk_init n s = (if tick_rate s = 0 then (0, s\<lparr>tick_rate := n\<rparr>) else (-1, s))"

section \<open>Operations\<close>

definition alt_alarm_stop :: "addr \<Rightarrow> 'a sysclk_scheme \<Rightarrow> 'a sysclk_scheme" where
  "alt_alarm_stop alarm s =
     (let (irq_context, s1) = alt_irq_disable_all s;
          s2 = s1\<lparr>llists := alt_llist_remove alarm (llists s1)\<rparr>
      in alt_irq_enable_all irq_context s2)"

definition alt_alarm_start ::
  "addr \<Rightarrow> alt_u32 \<Rightarrow> addr \<Rightarrow> addr \<Rightarrow> 'a sysclk_scheme \<Rightarrow> int \<times> 'a sysclk_scheme" where
  "alt_alarm_start alarm n cb ctx s =
     (if alt_ticks_per_second s \<noteq> 0 then
        if alarm \<noteq> 0 then
          (let a1 = (alarm_at s alarm)\<lparr>callback := cb, cb_context := ctx\<rparr>;
               (irq_context, s1) = alt_irq_disable_all (s\<lparr>alarm_at := (alarm_at s)(alarm := a1)\<rparr>);
               current_nticks = alt_nticks s1;
               a2 = a1\<lparr>time := n + current_nticks + 1\<rparr>;
               a3 = a2\<lparr>rollover := (if time a2 < current_nticks then 1 else 0)\<rparr>;
               s2 = s1\<lparr>alarm_at := (alarm_at s1)(alarm := a3),
                       llists := alt_llist_insert (alt_alarm_list s1) alarm (llists s1)\<rparr>
           in (0, alt_irq_enable_all irq_context s2))
        else (- EINVAL, s)
      else (- ENOTSUP, s))"

text \<open>
  The body of the loop of \<^verbatim>\<open>alt_tick()\<close> for one alarm. The parameter \<open>call cb ctx s\<close> is the
  effect of calling the function at address \<open>cb\<close> with \<open>ctx\<close>: the value it returns and the
  state it leaves.
\<close>

definition alt_tick_alarm ::
  "(addr \<Rightarrow> addr \<Rightarrow> 'a sysclk_scheme \<Rightarrow> alt_u32 \<times> 'a sysclk_scheme)
   \<Rightarrow> addr \<Rightarrow> 'a sysclk_scheme \<Rightarrow> 'a sysclk_scheme" where
  "alt_tick_alarm call alarm s =
     (let s1 = (if rollover (alarm_at s alarm) \<noteq> 0 \<and> nticks s = 0
                then s\<lparr>alarm_at := (alarm_at s)(alarm := (alarm_at s alarm)\<lparr>rollover := 0\<rparr>)\<rparr>
                else s)
      in if time (alarm_at s1 alarm) \<le> nticks s1 \<and> rollover (alarm_at s1 alarm) = 0 then
           (let (next_callback, s2) = call (callback (alarm_at s1 alarm)) (cb_context (alarm_at s1 alarm)) s1
            in if next_callback = 0 then alt_alarm_stop alarm s2
               else
                 (let a = (alarm_at s2 alarm)\<lparr>time := time (alarm_at s2 alarm) + next_callback\<rparr>;
                      a' = (if time a < nticks s2 then a\<lparr>rollover := 1\<rparr> else a)
                  in s2\<lparr>alarm_at := (alarm_at s2)(alarm := a')\<rparr>))
         else s1)"

text \<open>The loop: the successor is read before the alarm is processed. \<open>None\<close> is not returning.\<close>

partial_function (option) alt_tick_loop ::
  "(addr \<Rightarrow> addr \<Rightarrow> 'a sysclk_scheme \<Rightarrow> alt_u32 \<times> 'a sysclk_scheme)
   \<Rightarrow> addr \<Rightarrow> 'a sysclk_scheme \<Rightarrow> 'a sysclk_scheme option" where
  "alt_tick_loop call alarm s =
     (if alarm = alt_alarm_list s then Some s
      else alt_tick_loop call (next_of (llists s) alarm) (alt_tick_alarm call alarm s))"

definition alt_tick ::
  "(addr \<Rightarrow> addr \<Rightarrow> 'a sysclk_scheme \<Rightarrow> alt_u32 \<times> 'a sysclk_scheme)
   \<Rightarrow> 'a sysclk_scheme \<Rightarrow> 'a sysclk_scheme option" where
  "alt_tick call s =
     (let alarm = next_of (llists s) (alt_alarm_list s);
          s1 = s\<lparr>nticks := nticks s + 1\<rparr>
      in alt_tick_loop call alarm s1)"

section \<open>One alarm\<close>

text \<open>Whether the loop body calls the alarm's callback.\<close>

definition alarm_due :: "'a sysclk_scheme \<Rightarrow> addr \<Rightarrow> bool" where
  "alarm_due s x \<longleftrightarrow> time (alarm_at s x) \<le> nticks s
     \<and> (rollover (alarm_at s x) = 0 \<or> nticks s = 0)"

text \<open>
  Callbacks that leave the alarm facility itself alone. What else they do is free.
\<close>

definition alarm_safe ::
  "(addr \<Rightarrow> addr \<Rightarrow> 'a sysclk_scheme \<Rightarrow> alt_u32 \<times> 'a sysclk_scheme) \<Rightarrow> bool" where
  "alarm_safe call \<longleftrightarrow> (\<forall>cb ctx s.
     llists (snd (call cb ctx s)) = llists s \<and> alarm_at (snd (call cb ctx s)) = alarm_at s
     \<and> nticks (snd (call cb ctx s)) = nticks s \<and> alt_alarm_list (snd (call cb ctx s)) = alt_alarm_list s)"

lemma alarm_safeD:
  assumes "alarm_safe call"
  shows "llists (snd (call cb ctx s)) = llists s" "alarm_at (snd (call cb ctx s)) = alarm_at s"
    "nticks (snd (call cb ctx s)) = nticks s"
    "alt_alarm_list (snd (call cb ctx s)) = alt_alarm_list s"
  using assms by (simp_all add: alarm_safe_def)

lemma alarm_stop_simps [simp]:
  "llists (alt_alarm_stop x s) = alt_llist_remove x (llists s)"
  "alarm_at (alt_alarm_stop x s) = alarm_at s" "nticks (alt_alarm_stop x s) = nticks s"
  "alt_alarm_list (alt_alarm_stop x s) = alt_alarm_list s"
  "status (alt_alarm_stop x s) = status s"
  by (simp_all add: alt_alarm_stop_def irq_defs)

text \<open>The rollover flag cleared at the tick on which the counter wraps.\<close>

definition cleared :: "'a sysclk_scheme \<Rightarrow> addr \<Rightarrow> 'a sysclk_scheme" where
  "cleared s x = (if rollover (alarm_at s x) \<noteq> 0 \<and> nticks s = 0
     then s\<lparr>alarm_at := (alarm_at s)(x := (alarm_at s x)\<lparr>rollover := 0\<rparr>)\<rparr> else s)"

lemma cleared_simps [simp]:
  "llists (cleared s x) = llists s" "nticks (cleared s x) = nticks s"
  "alt_alarm_list (cleared s x) = alt_alarm_list s"
  "time (alarm_at (cleared s x) x) = time (alarm_at s x)"
  "callback (alarm_at (cleared s x) x) = callback (alarm_at s x)"
  "cb_context (alarm_at (cleared s x) x) = cb_context (alarm_at s x)"
  "rollover (alarm_at (cleared s x) x) = (if nticks s = 0 then 0 else rollover (alarm_at s x))"
  "y \<noteq> x \<Longrightarrow> alarm_at (cleared s x) y = alarm_at s y"
  by (simp_all add: cleared_def)

text \<open>What a due alarm's callback returns, called when the loop reaches it in state \<open>s\<close>.\<close>

definition alarm_result ::
  "(addr \<Rightarrow> addr \<Rightarrow> 'a sysclk_scheme \<Rightarrow> alt_u32 \<times> 'a sysclk_scheme)
   \<Rightarrow> 'a sysclk_scheme \<Rightarrow> addr \<Rightarrow> alt_u32" where
  "alarm_result call s x =
     fst (call (callback (alarm_at s x)) (cb_context (alarm_at s x)) (cleared s x))"

lemma tick_alarm_not_due: "\<not> alarm_due s x \<Longrightarrow> alt_tick_alarm call x s = cleared s x"
  by (auto simp: alt_tick_alarm_def alarm_due_def cleared_def Let_def)

lemma tick_alarm_due:
  assumes "alarm_due s x"
  shows "alt_tick_alarm call x s =
    (let (r, s2) = call (callback (alarm_at s x)) (cb_context (alarm_at s x)) (cleared s x)
     in if r = 0 then alt_alarm_stop x s2
        else (let a = (alarm_at s2 x)\<lparr>time := time (alarm_at s2 x) + r\<rparr>
              in s2\<lparr>alarm_at := (alarm_at s2)
                     (x := if time a < nticks s2 then a\<lparr>rollover := 1\<rparr> else a)\<rparr>))"
  using assms by (auto simp: alt_tick_alarm_def alarm_due_def cleared_def Let_def split: prod.splits)

lemma tick_alarm_frame:
  assumes "alarm_safe call"
  shows "nticks (alt_tick_alarm call x s) = nticks s"
    and "alt_alarm_list (alt_tick_alarm call x s) = alt_alarm_list s"
    and "y \<noteq> x \<Longrightarrow> alarm_at (alt_tick_alarm call x s) y = alarm_at s y"
    and "llists (alt_tick_alarm call x s) =
      (if alarm_due s x \<and> alarm_result call s x = 0 then alt_llist_remove x (llists s) else llists s)"
proof -
  note sf = alarm_safeD [OF assms, of "callback (alarm_at s x)" "cb_context (alarm_at s x)" "cleared s x"]
  show "nticks (alt_tick_alarm call x s) = nticks s"
    "alt_alarm_list (alt_tick_alarm call x s) = alt_alarm_list s"
    "y \<noteq> x \<Longrightarrow> alarm_at (alt_tick_alarm call x s) y = alarm_at s y"
    "llists (alt_tick_alarm call x s) =
      (if alarm_due s x \<and> alarm_result call s x = 0 then alt_llist_remove x (llists s) else llists s)"
    using sf
    by (cases "alarm_due s x";
        auto simp: tick_alarm_not_due tick_alarm_due alarm_result_def Let_def split: prod.splits)+
qed

lemma tick_alarm_self:
  assumes "alarm_safe call" and "alarm_due s x" and "alarm_result call s x \<noteq> 0"
  shows "time (alarm_at (alt_tick_alarm call x s) x) = time (alarm_at s x) + alarm_result call s x"
    and "rollover (alarm_at (alt_tick_alarm call x s) x) =
      (if time (alarm_at s x) + alarm_result call s x < nticks s then 1 else 0)"
    and "callback (alarm_at (alt_tick_alarm call x s) x) = callback (alarm_at s x)"
    and "cb_context (alarm_at (alt_tick_alarm call x s) x) = cb_context (alarm_at s x)"
proof -
  note sf = alarm_safeD [OF assms(1), of "callback (alarm_at s x)" "cb_context (alarm_at s x)" "cleared s x"]
  have ro: "rollover (alarm_at (cleared s x) x) = 0"
    using assms(2) by (auto simp: alarm_due_def)
  show "time (alarm_at (alt_tick_alarm call x s) x) = time (alarm_at s x) + alarm_result call s x"
    "rollover (alarm_at (alt_tick_alarm call x s) x) =
      (if time (alarm_at s x) + alarm_result call s x < nticks s then 1 else 0)"
    "callback (alarm_at (alt_tick_alarm call x s) x) = callback (alarm_at s x)"
    "cb_context (alarm_at (alt_tick_alarm call x s) x) = cb_context (alarm_at s x)"
    using sf ro assms(2,3)
    by (auto simp: tick_alarm_due alarm_result_def Let_def simp del: cleared_simps(7)
        split: prod.splits)
qed

lemma tick_alarm_callback:
  assumes "alarm_safe call"
  shows "callback (alarm_at (alt_tick_alarm call x s) x) = callback (alarm_at s x)"
    and "cb_context (alarm_at (alt_tick_alarm call x s) x) = cb_context (alarm_at s x)"
  using alarm_safeD [OF assms, of "callback (alarm_at s x)" "cb_context (alarm_at s x)" "cleared s x"]
  by (cases "alarm_due s x";
      auto simp: tick_alarm_not_due tick_alarm_due Let_def split: prod.splits)+

section \<open>One tick\<close>

lemma alt_tick_loop_runs:
  assumes safe: "alarm_safe call"
  shows "dllist (llists s) (alt_alarm_list s) (xs @ ys) \<Longrightarrow>
     alarm = (case ys of [] \<Rightarrow> alt_alarm_list s | y # _ \<Rightarrow> y) \<Longrightarrow>
     alt_tick_loop call alarm s = Some (fold (alt_tick_alarm call) ys s)"
proof (induction ys arbitrary: xs s alarm)
  case Nil
  then show ?case by (simp add: alt_tick_loop.simps)
next
  case (Cons y ys)
  let ?s = "alt_tick_alarm call y s"
  note fr = tick_alarm_frame [OF safe]
  have ne: "y \<noteq> alt_alarm_list s" using ll.entry_not_head [OF Cons.prems(1)] by simp
  have nx: "next_of (llists s) y = (case ys of [] \<Rightarrow> alt_alarm_list s | z # _ \<Rightarrow> z)"
    using ll.nxt_entry [OF Cons.prems(1)] .
  obtain zs where zs: "dllist (llists ?s) (alt_alarm_list ?s) (zs @ ys)"
  proof (cases "alarm_due s y \<and> alarm_result call s y = 0")
    case True
    then have "dllist (llists ?s) (alt_alarm_list ?s) (xs @ ys)"
      using ll.holds_rem [OF Cons.prems(1)] by (auto simp: fr(2,4))
    then show ?thesis by (rule that)
  next
    case False
    then have "dllist (llists ?s) (alt_alarm_list ?s) ((xs @ [y]) @ ys)"
      using Cons.prems(1) by (auto simp: fr(2,4))
    then show ?thesis by (rule that)
  qed
  have "alt_tick_loop call (next_of (llists s) y) ?s = Some (fold (alt_tick_alarm call) ys ?s)"
    by (rule Cons.IH [OF zs]) (simp add: nx fr(2) split: list.splits)
  then show ?case
    using ne Cons.prems(2) by (simp add: alt_tick_loop.simps [of call y])
qed

lemma alt_tick_runs:
  assumes "alarm_safe call" and "dllist (llists s) (alt_alarm_list s) xs"
  shows "alt_tick call s = Some (fold (alt_tick_alarm call) xs (s\<lparr>nticks := nticks s + 1\<rparr>))"
  using alt_tick_loop_runs [OF assms(1), of "s\<lparr>nticks := nticks s + 1\<rparr>" "[]" xs] assms(2)
    ll.nxt_first [OF assms(2)]
  by (cases xs) (simp_all add: alt_tick_def)

text \<open>
  Each alarm of the list is processed once, in a state that differs from the one at the start
  of the tick only in what other alarms' processing changed: its own structure is untouched.
\<close>

lemma fold_tick_frame:
  assumes "alarm_safe call"
  shows "nticks (fold (alt_tick_alarm call) ys s) = nticks s"
    and "alt_alarm_list (fold (alt_tick_alarm call) ys s) = alt_alarm_list s"
    and "x \<notin> set ys \<Longrightarrow> alarm_at (fold (alt_tick_alarm call) ys s) x = alarm_at s x"
  by (induction ys arbitrary: s) (auto simp: tick_alarm_frame [OF assms])

lemma fold_tick_context:
  assumes "alarm_safe call"
  shows "cb_context (alarm_at (fold (alt_tick_alarm call) ys s) x) = cb_context (alarm_at s x)"
proof (induction ys arbitrary: s)
  case (Cons y ys)
  have "cb_context (alarm_at (alt_tick_alarm call y s) x) = cb_context (alarm_at s x)"
    by (cases "x = y") (simp_all add: tick_alarm_callback [OF assms] tick_alarm_frame [OF assms])
  then show ?case using Cons by simp
qed simp

text \<open>An alarm whose callback never asks to be stopped.\<close>

definition keeps_going ::
  "(addr \<Rightarrow> addr \<Rightarrow> 'a sysclk_scheme \<Rightarrow> alt_u32 \<times> 'a sysclk_scheme)
   \<Rightarrow> 'a sysclk_scheme \<Rightarrow> addr \<Rightarrow> bool" where
  "keeps_going call s x \<longleftrightarrow>
     (\<forall>t. fst (call (callback (alarm_at s x)) (cb_context (alarm_at s x)) t) \<noteq> 0)"

lemma fold_tick_list:
  assumes "alarm_safe call"
  shows "dllist (llists s) (alt_alarm_list s) (xs @ ys) \<Longrightarrow>
     \<exists>zs. dllist (llists (fold (alt_tick_alarm call) ys s)) (alt_alarm_list s) (xs @ zs)
       \<and> set zs \<subseteq> set ys
       \<and> (\<forall>x\<in>set ys. \<not> alarm_due s x \<or> keeps_going call s x \<longrightarrow> x \<in> set zs)"
proof (induction ys arbitrary: s xs)
  case Nil
  then show ?case by auto
next
  case (Cons y ys)
  let ?s = "alt_tick_alarm call y s"
  note fr = tick_alarm_frame [OF assms]
  have yn: "y \<notin> set ys" using ll.holds_distinct [OF Cons.prems] by auto
  then have due: "alarm_due ?s x = alarm_due s x" if "x \<in> set ys" for x
    using that yn by (cases "x = y") (simp_all add: alarm_due_def fr)
  have kg: "keeps_going call ?s x = keeps_going call s x" if "x \<in> set ys" for x
    using that yn by (cases "x = y") (simp_all add: keeps_going_def fr)
  show ?case
  proof (cases "alarm_due s y \<and> alarm_result call s y = 0")
    case True
    then have "dllist (llists ?s) (alt_alarm_list ?s) (xs @ ys)"
      using ll.holds_rem [OF Cons.prems] by (auto simp: fr(2,4))
    from Cons.IH [OF this] obtain zs where
      "dllist (llists (fold (alt_tick_alarm call) ys ?s)) (alt_alarm_list s) (xs @ zs)"
      "set zs \<subseteq> set ys"
      "\<forall>x\<in>set ys. \<not> alarm_due s x \<or> keeps_going call s x \<longrightarrow> x \<in> set zs"
      using due kg by (auto simp: fr(2))
    moreover have "\<not> keeps_going call s y"
      using True by (auto simp: keeps_going_def alarm_result_def)
    ultimately show ?thesis using True by auto
  next
    case False
    then have "dllist (llists ?s) (alt_alarm_list ?s) ((xs @ [y]) @ ys)"
      using Cons.prems by (auto simp: fr(2,4))
    from Cons.IH [OF this] obtain zs where
      "dllist (llists (fold (alt_tick_alarm call) ys ?s)) (alt_alarm_list s) ((xs @ [y]) @ zs)"
      "set zs \<subseteq> set ys"
      "\<forall>x\<in>set ys. \<not> alarm_due s x \<or> keeps_going call s x \<longrightarrow> x \<in> set zs"
      using due kg by (auto simp: fr(2))
    then show ?thesis by (intro exI [of _ "y # zs"]) auto
  qed
qed

text \<open>The effect of one tick on one alarm of the list.\<close>

lemma alt_tick_member:
  assumes safe: "alarm_safe call" and ls: "dllist (llists s) (alt_alarm_list s) xs"
    and x: "x \<in> set xs"
  obtains s' zs t where "alt_tick call s = Some s'" "nticks s' = nticks s + 1"
    "alt_alarm_list s' = alt_alarm_list s"
    "dllist (llists s') (alt_alarm_list s') zs" "set zs \<subseteq> set xs"
    "\<not> alarm_due (s\<lparr>nticks := nticks s + 1\<rparr>) x \<or> keeps_going call s x \<Longrightarrow> x \<in> set zs"
    "nticks t = nticks s + 1" "alarm_at t x = alarm_at s x"
    "alarm_at s' x = alarm_at (alt_tick_alarm call x t) x"
    "alarm_due t x = alarm_due (s\<lparr>nticks := nticks s + 1\<rparr>) x"
proof -
  let ?s0 = "s\<lparr>nticks := nticks s + 1\<rparr>"
  obtain as bs where xs: "xs = as @ x # bs" using x by (auto simp: in_set_conv_decomp)
  have d: "x \<notin> set as" "x \<notin> set bs" using ll.holds_distinct [OF ls] xs by auto
  let ?t = "fold (alt_tick_alarm call) as ?s0"
  let ?s' = "fold (alt_tick_alarm call) xs ?s0"
  note ff = fold_tick_frame [OF safe]
  obtain zs where zs: "dllist (llists ?s') (alt_alarm_list ?s0) zs" "set zs \<subseteq> set xs"
    "\<forall>x\<in>set xs. \<not> alarm_due ?s0 x \<or> keeps_going call s x \<longrightarrow> x \<in> set zs"
    using fold_tick_list [OF safe, of ?s0 "[]" xs] ls by (auto simp: keeps_going_def)
  show thesis
  proof (rule that [of ?s' zs ?t])
    show "alt_tick call s = Some ?s'" by (rule alt_tick_runs [OF safe ls])
    show "alarm_at ?s' x = alarm_at (alt_tick_alarm call x ?t) x"
      using d by (simp add: xs ff(3))
    show at: "alarm_at ?t x = alarm_at s x" using d by (simp add: ff(3))
    show "alarm_due ?t x = alarm_due ?s0 x" using d by (simp add: alarm_due_def ff)
    show "x \<in> set zs" if "\<not> alarm_due ?s0 x \<or> keeps_going call s x" using zs(3) x that by blast
  qed (use zs in \<open>auto simp: ff(1,2)\<close>)
qed

section \<open>When an alarm fires\<close>

text \<open>
  \<open>armed s x r\<close>: alarm \<open>x\<close> is in the list and due \<open>r\<close> ticks from now, where the rollover flag
  records that the 32-bit tick counter wraps before that. Time and counter alone do not say so:
  they are equal modulo \<open>2\<^sup>3\<^sup>2\<close> for many \<open>r\<close>.
\<close>

definition armed :: "'a sysclk_scheme \<Rightarrow> addr \<Rightarrow> nat \<Rightarrow> bool" where
  "armed s x r \<longleftrightarrow> (\<exists>xs. dllist (llists s) (alt_alarm_list s) xs \<and> x \<in> set xs)
     \<and> 0 < r \<and> r < 4294967296 \<and> time (alarm_at s x) = nticks s + of_nat r
     \<and> (rollover (alarm_at s x) \<noteq> 0 \<longleftrightarrow> time (alarm_at s x) < nticks s)"

lemma due_arith:
  fixes now T :: alt_u32
  assumes "0 < r" "r < 4294967296" "T = now + of_nat r"
  shows "T \<le> now + 1 \<and> (\<not> T < now \<or> now + 1 = 0) \<longleftrightarrow> r = 1"
    and "1 < r \<Longrightarrow> (now + 1 \<noteq> 0 \<and> T < now) \<longleftrightarrow> T < now + 1"
proof -
  have n: "unat now < 4294967296" by (rule unat_32_bound)
  have T: "unat T = (if unat now + r < 4294967296 then unat now + r else unat now + r - 4294967296)"
    using add_wrap_32 [OF assms(2)] assms(3) by simp
  have N: "unat (now + 1) = (if unat now + 1 < 4294967296 then unat now + 1 else 0)"
    using add_wrap_32 [of 1 now] n by auto
  have z: "now + 1 = 0 \<longleftrightarrow> unat (now + 1) = 0" by (simp add: unat_eq_zero)
  show "T \<le> now + 1 \<and> (\<not> T < now \<or> now + 1 = 0) \<longleftrightarrow> r = 1"
    unfolding word_le_nat_alt word_less_nat_alt z T N using assms(1,2) n by auto
  show "1 < r \<Longrightarrow> (now + 1 \<noteq> 0 \<and> T < now) \<longleftrightarrow> T < now + 1"
    unfolding word_less_nat_alt z T N using assms(1,2) n by auto
qed

lemma armed_due:
  assumes "armed s x r"
  shows "alarm_due (s\<lparr>nticks := nticks s + 1\<rparr>) x \<longleftrightarrow> r = 1"
  using assms due_arith(1) [of r "time (alarm_at s x)" "nticks s"]
  by (auto simp: armed_def alarm_due_def)

lemma armed_tick:
  assumes safe: "alarm_safe call" and ar: "armed s x r"
  obtains s' where "alt_tick call s = Some s'" "nticks s' = nticks s + 1"
    "callback (alarm_at s' x) = callback (alarm_at s x)"
    "cb_context (alarm_at s' x) = cb_context (alarm_at s x)"
    "1 < r \<Longrightarrow> armed s' x (r - 1)"
    "\<And>p. r = 1 \<Longrightarrow> p \<noteq> 0 \<Longrightarrow>
       (\<And>t. fst (call (callback (alarm_at s x)) (cb_context (alarm_at s x)) t) = p) \<Longrightarrow>
       armed s' x (unat p)"
proof -
  obtain xs where xs: "dllist (llists s) (alt_alarm_list s) xs" "x \<in> set xs"
    using ar by (auto simp: armed_def)
  obtain s' zs t where m: "alt_tick call s = Some s'" "nticks s' = nticks s + 1"
    "alt_alarm_list s' = alt_alarm_list s"
    "dllist (llists s') (alt_alarm_list s') zs" "set zs \<subseteq> set xs"
    "\<not> alarm_due (s\<lparr>nticks := nticks s + 1\<rparr>) x \<or> keeps_going call s x \<Longrightarrow> x \<in> set zs"
    "nticks t = nticks s + 1" "alarm_at t x = alarm_at s x"
    "alarm_at s' x = alarm_at (alt_tick_alarm call x t) x"
    "alarm_due t x = alarm_due (s\<lparr>nticks := nticks s + 1\<rparr>) x"
    using alt_tick_member [OF safe xs] by metis
  note f = ar [unfolded armed_def]
  note due = armed_due [OF ar]
  show thesis
  proof (rule that [OF m(1,2)])
    show "1 < r \<Longrightarrow> armed s' x (r - 1)"
      using due m f due_arith(2) [of r "time (alarm_at s x)" "nticks s"]
      by (auto simp: armed_def tick_alarm_not_due of_nat_diff simp del: not_gr_zero)
    show "callback (alarm_at s' x) = callback (alarm_at s x)"
      "cb_context (alarm_at s' x) = cb_context (alarm_at s x)"
      using m(8,9) by (simp_all add: tick_alarm_callback [OF safe])
    show "armed s' x (unat p)" if "r = 1" "p \<noteq> 0"
      "\<And>t. fst (call (callback (alarm_at s x)) (cb_context (alarm_at s x)) t) = p" for p
    proof -
      have d: "alarm_due t x" and k: "keeps_going call s x" and res: "alarm_result call t x = p"
        using due m(8,10) that by (auto simp: keeps_going_def alarm_result_def)
      have "time (alarm_at s' x) = nticks s' + p"
        "rollover (alarm_at s' x) = (if nticks s' + p < nticks s' then 1 else 0)"
        using tick_alarm_self(1,2) [OF safe d] that(1,2) res f m(2,7,8,9) by auto
      moreover have "0 < unat p" "unat p < 4294967296"
        using that(2) unat_32_bound [of p] by (simp_all add: unat_gt_0)
      ultimately show ?thesis
        using m(4,6) k by (auto simp: armed_def)
    qed
  qed
qed

section \<open>Sequences of ticks\<close>

fun alt_ticks ::
  "(addr \<Rightarrow> addr \<Rightarrow> 'a sysclk_scheme \<Rightarrow> alt_u32 \<times> 'a sysclk_scheme)
   \<Rightarrow> nat \<Rightarrow> 'a sysclk_scheme \<Rightarrow> 'a sysclk_scheme option" where
  "alt_ticks call 0 s = Some s"
| "alt_ticks call (Suc k) s = Option.bind (alt_tick call s) (alt_ticks call k)"

text \<open>
  Callbacks that record, in the extension of the state, the context they are called with and
  the tick of the call. What they return is a function of callback and context.
\<close>

definition logging_callbacks ::
  "(addr \<Rightarrow> addr \<Rightarrow> alt_u32) \<Rightarrow> addr \<Rightarrow> addr \<Rightarrow> (addr \<times> alt_u32) list sysclk_scheme
   \<Rightarrow> alt_u32 \<times> (addr \<times> alt_u32) list sysclk_scheme" where
  "logging_callbacks res cb ctx s =
     (res cb ctx, sysclk.more_update (\<lambda>l. l @ [(ctx, nticks s)]) s)"

lemma logging_callbacks_safe: "alarm_safe (logging_callbacks res)"
  by (simp add: alarm_safe_def logging_callbacks_def)

lemma alarm_stop_more [simp]: "sysclk.more (alt_alarm_stop x s) = sysclk.more s"
  by (simp add: alt_alarm_stop_def irq_defs)

lemma cleared_more [simp]: "sysclk.more (cleared s x) = sysclk.more s"
  by (simp add: cleared_def)

lemma tick_alarm_log:
  "sysclk.more (alt_tick_alarm (logging_callbacks res) x s) =
     sysclk.more s @ (if alarm_due s x then [(cb_context (alarm_at s x), nticks s)] else [])"
  by (cases "alarm_due s x")
     (auto simp: tick_alarm_not_due tick_alarm_due logging_callbacks_def Let_def)

lemma fold_tick_log:
  "distinct ys \<Longrightarrow>
   sysclk.more (fold (alt_tick_alarm (logging_callbacks res)) ys s) =
     sysclk.more s @ map (\<lambda>y. (cb_context (alarm_at s y), nticks s)) (filter (alarm_due s) ys)"
proof (induction ys arbitrary: s)
  case (Cons y ys)
  let ?s = "alt_tick_alarm (logging_callbacks res) y s"
  have at: "alarm_at ?s z = alarm_at s z" "alarm_due ?s z = alarm_due s z" if "z \<in> set ys" for z
  proof -
    have "z \<noteq> y" using that Cons.prems by auto
    then show "alarm_at ?s z = alarm_at s z" "alarm_due ?s z = alarm_due s z"
      by (simp_all add: alarm_due_def tick_alarm_frame [OF logging_callbacks_safe])
  qed
  have "filter (alarm_due ?s) ys = filter (alarm_due s) ys" using at by (intro filter_cong) auto
  moreover have "map (\<lambda>z. (cb_context (alarm_at ?s z), nticks ?s)) (filter (alarm_due s) ys) =
      map (\<lambda>z. (cb_context (alarm_at s z), nticks s)) (filter (alarm_due s) ys)"
    using at by (intro map_cong) (auto simp: tick_alarm_frame(1) [OF logging_callbacks_safe])
  ultimately show ?case using Cons by (simp add: tick_alarm_log)
qed simp

text \<open>No other alarm of the list has the context of \<open>x\<close>, so the log tells its calls apart.\<close>

definition sole_context :: "'a sysclk_scheme \<Rightarrow> addr \<Rightarrow> bool" where
  "sole_context s x \<longleftrightarrow> (\<forall>xs. dllist (llists s) (alt_alarm_list s) xs \<longrightarrow>
     (\<forall>y\<in>set xs. y \<noteq> x \<longrightarrow> cb_context (alarm_at s y) \<noteq> cb_context (alarm_at s x)))"

abbreviation calls_of :: "addr \<Rightarrow> (addr \<times> alt_u32) list \<Rightarrow> (addr \<times> alt_u32) list" where
  "calls_of c l \<equiv> filter (\<lambda>e. fst e = c) l"

lemma filter_eq_single:
  "distinct xs \<Longrightarrow> x \<in> set xs \<Longrightarrow> P x \<Longrightarrow> (\<And>y. y \<in> set xs \<Longrightarrow> y \<noteq> x \<Longrightarrow> \<not> P y) \<Longrightarrow>
   filter P xs = [x]"
proof (induction xs)
  case (Cons y ys)
  show ?case
  proof (cases "y = x")
    case True
    then have "filter P ys = []" using Cons.prems by (auto simp: filter_empty_conv)
    then show ?thesis using True Cons.prems by simp
  next
    case False
    then show ?thesis using Cons by auto
  qed
qed simp

text \<open>One tick with recording callbacks, for an alarm that is due in \<open>r\<close> ticks.\<close>

lemma logged_tick:
  assumes ar: "armed s x r" and sole: "sole_context s x"
    and p: "p = res (callback (alarm_at s x)) (cb_context (alarm_at s x))" "p \<noteq> 0"
  obtains s' where "alt_tick (logging_callbacks res) s = Some s'" "nticks s' = nticks s + 1"
    "callback (alarm_at s' x) = callback (alarm_at s x)"
    "cb_context (alarm_at s' x) = cb_context (alarm_at s x)"
    "armed s' x (if r = 1 then unat p else r - 1)" "sole_context s' x"
    "calls_of (cb_context (alarm_at s x)) (sysclk.more s') =
       calls_of (cb_context (alarm_at s x)) (sysclk.more s)
       @ (if r = 1 then [(cb_context (alarm_at s x), nticks s + 1)] else [])"
proof -
  let ?c = "cb_context (alarm_at s x)" and ?s0 = "s\<lparr>nticks := nticks s + 1\<rparr>"
    and ?call = "logging_callbacks res"
  obtain xs where xs: "dllist (llists s) (alt_alarm_list s) xs" "x \<in> set xs"
    using ar by (auto simp: armed_def)
  have d: "distinct xs" using ll.holds_distinct [OF xs(1)] by simp
  have run: "alt_tick ?call s = Some (fold (alt_tick_alarm ?call) xs ?s0)"
    by (rule alt_tick_runs [OF logging_callbacks_safe xs(1)])
  define s' where "s' = fold (alt_tick_alarm ?call) xs ?s0"
  have other: "cb_context (alarm_at s y) \<noteq> ?c" if "y \<in> set xs" "y \<noteq> x" for y
    using sole xs that by (auto simp: sole_context_def)
  have log: "calls_of ?c (sysclk.more s') = calls_of ?c (sysclk.more s)
      @ (if r = 1 then [(?c, nticks s + 1)] else [])"
  proof -
    let ?f = "\<lambda>y. (cb_context (alarm_at s y), nticks s + 1)"
    have "calls_of ?c (map ?f (filter (alarm_due ?s0) xs)) =
        map ?f (filter (\<lambda>y. alarm_due ?s0 y \<and> y = x) xs)"
      using other by (auto simp: filter_map intro!: filter_cong arg_cong [where f = "map ?f"])
    also have "\<dots> = (if r = 1 then [?f x] else [])"
    proof (cases "r = 1")
      case True
      have "filter (\<lambda>y. alarm_due ?s0 y \<and> y = x) xs = [x]"
        by (rule filter_eq_single) (use d xs True armed_due [OF ar] in auto)
      then show ?thesis using True by simp
    next
      case False
      then show ?thesis using armed_due [OF ar] by (auto simp: filter_empty_conv)
    qed
    finally show ?thesis by (simp add: s'_def fold_tick_log [OF d])
  qed
  obtain s'' where a: "alt_tick ?call s = Some s''" "nticks s'' = nticks s + 1"
    "callback (alarm_at s'' x) = callback (alarm_at s x)"
    "cb_context (alarm_at s'' x) = ?c"
    "1 < r \<Longrightarrow> armed s'' x (r - 1)"
    "\<And>p. r = 1 \<Longrightarrow> p \<noteq> 0 \<Longrightarrow>
       (\<And>t. fst (?call (callback (alarm_at s x)) ?c t) = p) \<Longrightarrow> armed s'' x (unat p)"
    using armed_tick [OF logging_callbacks_safe ar, where res1 = res] by metis
  have eq: "s'' = s'" using run a(1) by (simp add: s'_def)
  have ctx: "cb_context (alarm_at s' y) = cb_context (alarm_at s y)" for y
    unfolding s'_def by (simp add: fold_tick_context [OF logging_callbacks_safe])
  obtain zs where "dllist (llists s') (alt_alarm_list s') zs" "set zs \<subseteq> set xs"
    using fold_tick_list [OF logging_callbacks_safe, of ?s0 "[]" xs res] xs(1)
    by (auto simp: s'_def fold_tick_frame [OF logging_callbacks_safe])
  then have "sole_context s' x"
    using other by (auto simp: sole_context_def ctx dest: ll.holds_unique)
  moreover have "armed s' x (if r = 1 then unat p else r - 1)"
  proof (cases "r = 1")
    case True
    then show ?thesis using a(6) [of p] p by (simp add: eq logging_callbacks_def)
  next
    case False
    then have "1 < r" using ar by (simp add: armed_def)
    then show ?thesis using a(5) eq by simp
  qed
  ultimately show thesis using that [of s'] a log by (simp add: eq)
qed

section \<open>Starting an alarm\<close>

lemma alt_alarm_start_errors:
  "tick_rate s = 0 \<Longrightarrow> alt_alarm_start x n cb ctx s = (- ENOTSUP, s)"
  "tick_rate s \<noteq> 0 \<Longrightarrow> alt_alarm_start 0 n cb ctx s = (- EINVAL, s)"
  by (simp_all add: alt_alarm_start_def alt_ticks_per_second_def)

lemma alt_alarm_start_eq:
  assumes "tick_rate s \<noteq> 0" "x \<noteq> 0"
  shows "alt_alarm_start x n cb ctx s =
    (0, s\<lparr>alarm_at := (alarm_at s)(x := (alarm_at s x)\<lparr>callback := cb, cb_context := ctx,
             time := n + nticks s + 1, rollover := (if n + nticks s + 1 < nticks s then 1 else 0)\<rparr>),
           llists := alt_llist_insert (alt_alarm_list s) x (llists s)\<rparr>)"
  using assms by (simp add: alt_alarm_start_def alt_ticks_per_second_def alt_nticks_def irq_defs)

text \<open>
  The one period that is not honoured: with \<open>n = 2\<^sup>3\<^sup>2 - 1\<close> the time of the alarm is the current
  tick, no rollover is noted, and the alarm is due at the next tick.
\<close>

lemma alt_alarm_start_max_due_next:
  assumes "tick_rate s \<noteq> 0" "x \<noteq> 0" "nticks s + 1 \<noteq> 0"
    and "alt_alarm_start x (- 1) cb ctx s = (rc, s')"
  shows "alarm_due (s'\<lparr>nticks := nticks s' + 1\<rparr>) x"
  using assms(4) le_Suc_32 [OF assms(3)]
  by (auto simp: alt_alarm_start_eq [OF assms(1,2)] alarm_due_def)

lemma alt_alarm_start_armed:
  assumes "dllist (llists s) (alt_alarm_list s) xs" and "x \<notin> set (alt_alarm_list s # xs)"
    and "x \<noteq> 0" and "tick_rate s \<noteq> 0" and "n \<noteq> - 1"
  shows "\<exists>s'. alt_alarm_start x n cb ctx s = (0, s') \<and> status s' = status s
    \<and> dllist (llists s') (alt_alarm_list s') (x # xs) \<and> armed s' x (unat n + 1)
    \<and> callback (alarm_at s' x) = cb \<and> cb_context (alarm_at s' x) = ctx
    \<and> (\<forall>y. y \<noteq> x \<longrightarrow> alarm_at s' y = alarm_at s y)"
proof -
  have "unat n \<noteq> 4294967295"
    using assms(5) by (simp add: unat_max_32_iff)
  then have n: "unat n + 1 < 4294967296" using unat_32_bound [of n] by simp
  show ?thesis
    using assms n ll.holds_ins [OF assms(1,2)]
    by (auto simp: alt_alarm_start_eq armed_def algebra_simps)
qed

section \<open>Properties\<close>

text \<open>Property C22: starting an alarm that is not in the list succeeds, puts it at the front of the
  list with its callback and context, leaves every other alarm and the interrupt enable as they
  were, and arms it to expire in exactly \<open>n + 1\<close> ticks, for every \<open>n\<close> but the largest and for
  every value of the tick counter.\<close>

theorem alt_alarm_start_arms:
  assumes "dllist (llists s) (alt_alarm_list s) xs" and "x \<notin> set (alt_alarm_list s # xs)"
    and "x \<noteq> 0" and "tick_rate s \<noteq> 0" and "n \<noteq> - 1"
  shows "\<exists>s'. alt_alarm_start x n cb ctx s = (0, s') \<and> status s' = status s
    \<and> dllist (llists s') (alt_alarm_list s') (x # xs) \<and> armed s' x (unat n + 1)
    \<and> callback (alarm_at s' x) = cb \<and> cb_context (alarm_at s' x) = ctx
    \<and> (\<forall>y. y \<noteq> x \<longrightarrow> alarm_at s' y = alarm_at s y)"
  by (rule alt_alarm_start_armed [OF assms])

definition idle_clock :: "(addr \<times> alt_u32) list sysclk_scheme" where
  "idle_clock = \<lparr>alt_errno = 0, status = 1, ienable = 0, alt_irq_active = 0,
     alt_priority_mask = -1, alt_irq = replicate 32 (0, 0),
     llists = ALT_LLIST_HEAD 16 \<lparr>next_of = (\<lambda>_. 0), prev_of = (\<lambda>_. 0)\<rparr>, alt_alarm_list = 16,
     alarm_at = (\<lambda>_. \<lparr>time = 0, callback = 0, rollover = 0, cb_context = 0\<rparr>),
     tick_rate = 1000, nticks = - 2, \<dots> = []\<rparr>"

lemma idle_clock_list: "dllist (llists idle_clock) (alt_alarm_list idle_clock) []"
  by (simp add: idle_clock_def dllist_head)

theorem alt_alarm_start_arms_witness:
  "\<exists>s'. alt_alarm_start 32 5 100 7 idle_clock = (0, s') \<and> armed s' 32 6"
proof -
  have "32 \<notin> set (alt_alarm_list idle_clock # [])" "(32 :: alt_u32) \<noteq> 0"
    "tick_rate idle_clock \<noteq> 0" "(5 :: alt_u32) \<noteq> - 1"
    by (simp_all add: idle_clock_def)
  from alt_alarm_start_arms [OF idle_clock_list this, of 100 7] show ?thesis by auto
qed

text \<open>When no callback meddles with the alarm list, a tick returns, and it is the
  fold of the loop body over the alarms that were in the list at its start, each processed once
  in list order, although alarms unlink themselves on the way.\<close>

theorem alt_tick_folds:
  assumes "alarm_safe call" and "dllist (llists s) (alt_alarm_list s) xs"
  shows "alt_tick call s = Some (fold (alt_tick_alarm call) xs (s\<lparr>nticks := nticks s + 1\<rparr>))"
  by (rule alt_tick_runs [OF assms])

theorem alt_tick_folds_witness:
  "alt_tick (logging_callbacks (\<lambda>_ _. 0)) idle_clock = Some (idle_clock\<lparr>nticks := - 1\<rparr>)"
  using alt_tick_folds [OF logging_callbacks_safe idle_clock_list]
  by (simp add: idle_clock_def)

lemma stopped_alarm_loops:
  assumes "next_of (llists s) b = b" "b \<noteq> alt_alarm_list s" "\<not> alarm_due s b"
  shows "alt_tick_loop call b s = None"
proof -
  have "\<not> (alarm = b \<and> next_of (llists s) b = b \<and> b \<noteq> alt_alarm_list s \<and> \<not> alarm_due s b)"
    if "alt_tick_loop call alarm s = Some r" for alarm s r
  proof (rule alt_tick_loop.raw_induct [where P = "\<lambda>call alarm s r. \<not> (alarm = b \<and>
      next_of (llists s) b = b \<and> b \<noteq> alt_alarm_list s \<and> \<not> alarm_due s b)", OF _ that], goal_cases)
    case (1 loop call alarm s r)
    show ?case
    proof
      assume a: "alarm = b \<and> next_of (llists s) b = b \<and> b \<noteq> alt_alarm_list s \<and> \<not> alarm_due s b"
      then have "\<not> alarm_due (cleared s b) b" by (auto simp: alarm_due_def)
      with a 1(2) 1(1) [of call b "cleared s b" r] show False
        by (auto simp: tick_alarm_not_due)
    qed
  qed
  with assms show ?thesis by (cases "alt_tick_loop call b s") auto
qed

text \<open>Property C28: a callback that stops the alarm after its own in the list makes the tick
  never return: the successor was read before the call, the stopped alarm points to itself, and
  the loop waits for the head of the list.\<close>

theorem alt_tick_stopping_next_hangs:
  assumes "dllist (llists s) (alt_alarm_list s) (a # b # xs)"
    and "alarm_due (s\<lparr>nticks := nticks s + 1\<rparr>) a" and "\<not> alarm_due (s\<lparr>nticks := nticks s + 1\<rparr>) b"
    and "\<And>t. call (callback (alarm_at s a)) (cb_context (alarm_at s a)) t = (p, alt_alarm_stop b t)"
    and "p \<noteq> 0"
  shows "alt_tick call s = None"
proof -
  let ?s0 = "s\<lparr>nticks := nticks s + 1\<rparr>"
  have ne: "a \<noteq> b" "a \<noteq> alt_alarm_list s" "b \<noteq> alt_alarm_list s"
    using ll.holds_distinct [OF assms(1)] by auto
  have nx: "next_of (llists s) (alt_alarm_list s) = a" "next_of (llists s) a = b"
    using ll.nxt_first [OF assms(1)] ll.nxt_entry [of _ _ "[]" a "b # xs"] assms(1) by auto
  let ?s1 = "alt_tick_alarm call a ?s0"
  have "alt_tick_loop call b ?s1 = None"
  proof (rule stopped_alarm_loops)
    show "next_of (llists ?s1) b = b" "b \<noteq> alt_alarm_list ?s1" "\<not> alarm_due ?s1 b"
      using ne assms(3-5) tick_alarm_due [OF assms(2), of call]
      by (auto simp: Let_def alarm_due_def alt_llist_remove_self)
  qed
  then show ?thesis
    using nx ne by (simp add: alt_tick_def alt_tick_loop.simps [of call a])
qed

definition stopping_calls :: "addr \<Rightarrow> addr \<Rightarrow> 'a sysclk_scheme \<Rightarrow> alt_u32 \<times> 'a sysclk_scheme" where
  "stopping_calls cb ctx s = (10, if cb = 200 then alt_alarm_stop ctx s else s)"

theorem alt_tick_stopping_next_hangs_witness:
  "\<exists>s1 s2. alt_alarm_start 64 5 100 0 idle_clock = (0, s1) \<and> alt_alarm_start 32 0 200 64 s1 = (0, s2)
     \<and> alt_tick stopping_calls s2 = None"
proof -
  obtain s1 where s1: "alt_alarm_start 64 5 100 0 idle_clock = (0, s1)"
    "dllist (llists s1) (alt_alarm_list s1) [64]"
    "alt_alarm_list s1 = 16" "tick_rate s1 = 1000" "nticks s1 = - 2"
    "time (alarm_at s1 64) = 4" "rollover (alarm_at s1 64) = 1"
    using dllist_insert [OF idle_clock_list, of 64]
    by (auto simp: alt_alarm_start_eq idle_clock_def)
  obtain s2 where s2: "alt_alarm_start 32 0 200 64 s1 = (0, s2)"
    "dllist (llists s2) (alt_alarm_list s2) [32, 64]"
    "nticks s2 = - 2" "time (alarm_at s2 64) = 4" "rollover (alarm_at s2 64) = 1"
    "time (alarm_at s2 32) = - 1" "rollover (alarm_at s2 32) = 0"
    "callback (alarm_at s2 32) = 200" "cb_context (alarm_at s2 32) = 64"
    using dllist_insert [OF s1(2), of 32] s1 by (auto simp: alt_alarm_start_eq)
  have "alt_tick stopping_calls s2 = None"
    using s2 by (intro alt_tick_stopping_next_hangs [where a = 32 and b = 64 and xs = "[]" and p = 10])
      (auto simp: alarm_due_def stopping_calls_def)
  with s1 s2 show ?thesis by blast
qed

text \<open>The ticks, of the next \<open>k\<close>, at which an alarm due in \<open>r\<close> ticks with period \<open>p\<close> fires.\<close>

definition firing_ticks :: "nat \<Rightarrow> nat \<Rightarrow> nat \<Rightarrow> nat list" where
  "firing_ticks r p k = filter (\<lambda>j. r \<le> j \<and> (j - r) mod p = 0) [1..<Suc k]"

lemma firing_ticks_Suc:
  assumes "0 < r" "0 < p"
  shows "firing_ticks r p (Suc k) =
    (if r = 1 then [1] else []) @ map Suc (firing_ticks (if r = 1 then p else r - 1) p k)"
proof -
  have u: "[1..<Suc (Suc k)] = 1 # map Suc [1..<Suc k]"
    by (simp add: map_Suc_upt upt_conv_Cons del: upt_Suc)
  have eq: "r \<le> Suc j \<and> (Suc j - r) mod p = 0 \<longleftrightarrow>
      (if r = 1 then p else r - 1) \<le> j \<and> (j - (if r = 1 then p else r - 1)) mod p = 0"
    if "0 < j" for j
  proof (cases "r = 1")
    case True
    have "j mod p = 0 \<longleftrightarrow> p \<le> j \<and> (j - p) mod p = 0"
    proof (cases "p \<le> j")
      case True
      then show ?thesis by (simp add: le_mod_geq)
    next
      case False
      then show ?thesis using that by simp
    qed
    with True show ?thesis by simp
  next
    case False
    moreover obtain q where "r = Suc q" using assms(1) by (cases r) auto
    ultimately show ?thesis by simp
  qed
  have f: "filter (\<lambda>j. r \<le> Suc j \<and> (Suc j - r) mod p = 0) [1..<Suc k] =
      firing_ticks (if r = 1 then p else r - 1) p k"
    unfolding firing_ticks_def by (intro filter_cong refl eq) auto
  have g: "(r \<le> 1 \<and> (1 - r) mod p = 0) \<longleftrightarrow> r = 1" using assms by auto
  show ?thesis
    unfolding firing_ticks_def [of r p "Suc k"] u filter.simps filter_map comp_def f g by simp
qed

text \<open>Property C3: an alarm that is armed to expire in \<open>r\<close> ticks, whose callback keeps returning the
  period \<open>p\<close>, is called on exactly the ticks \<open>r, r + p, r + 2p, ...\<close>, however many ticks pass, whatever
  other alarms are in the list, and however often the 32-bit counter wraps.\<close>

theorem alarm_fires_periodically:
  assumes "armed s x r" and "sole_context s x"
    and "p = res (callback (alarm_at s x)) (cb_context (alarm_at s x))" and "p \<noteq> 0"
  shows "\<exists>s'. alt_ticks (logging_callbacks res) k s = Some s'
    \<and> calls_of (cb_context (alarm_at s x)) (sysclk.more s') =
        calls_of (cb_context (alarm_at s x)) (sysclk.more s)
        @ map (\<lambda>j. (cb_context (alarm_at s x), nticks s + of_nat j)) (firing_ticks r (unat p) k)"
  using assms
proof (induction k arbitrary: s r)
  case 0
  then show ?case by (simp add: firing_ticks_def)
next
  case (Suc k)
  obtain s1 where s1: "alt_tick (logging_callbacks res) s = Some s1" "nticks s1 = nticks s + 1"
    "callback (alarm_at s1 x) = callback (alarm_at s x)"
    "cb_context (alarm_at s1 x) = cb_context (alarm_at s x)"
    "armed s1 x (if r = 1 then unat p else r - 1)" "sole_context s1 x"
    "calls_of (cb_context (alarm_at s x)) (sysclk.more s1) =
       calls_of (cb_context (alarm_at s x)) (sysclk.more s)
       @ (if r = 1 then [(cb_context (alarm_at s x), nticks s + 1)] else [])"
    by (rule logged_tick [where res = res, OF Suc.prems(1,2,3,4)]) blast
  have pos: "0 < r" "0 < unat p" using Suc.prems by (auto simp: armed_def unat_gt_0)
  obtain s' where "alt_ticks (logging_callbacks res) k s1 = Some s'"
    "calls_of (cb_context (alarm_at s x)) (sysclk.more s') =
       calls_of (cb_context (alarm_at s x)) (sysclk.more s1)
       @ map (\<lambda>j. (cb_context (alarm_at s x), nticks s1 + of_nat j))
           (firing_ticks (if r = 1 then unat p else r - 1) (unat p) k)"
    using Suc.IH [OF s1(5,6)] Suc.prems(3,4) s1(3,4) by auto
  then show ?case
    using s1 by (auto simp: firing_ticks_Suc [OF pos] ac_simps)
qed

theorem alarm_fires_periodically_witness:
  "\<exists>s s'. alt_alarm_start 32 2 100 7 idle_clock = (0, s)
     \<and> alt_ticks (logging_callbacks (\<lambda>_ _. 5)) 14 s = Some s'
     \<and> calls_of 7 (sysclk.more s') = [(7, 1), (7, 6), (7, 11)]"
proof -
  have pre: "32 \<notin> set (alt_alarm_list idle_clock # [])" "(32 :: alt_u32) \<noteq> 0"
    "tick_rate idle_clock \<noteq> 0" "(2 :: alt_u32) \<noteq> - 1"
    by (simp_all add: idle_clock_def)
  obtain s where s: "alt_alarm_start 32 2 100 7 idle_clock = (0, s)"
    and ls: "dllist (llists s) (alt_alarm_list s) [32]"
    and ctx: "cb_context (alarm_at s 32) = 7" and log: "sysclk.more s = []" "nticks s = - 2"
    using dllist_insert [OF idle_clock_list, of 32] pre
    by (auto simp: alt_alarm_start_eq idle_clock_def)
  have ar: "armed s 32 3"
    using alt_alarm_start_armed [OF idle_clock_list pre, of 100 7] s by auto
  have sole: "sole_context s 32"
    using ls by (auto simp: sole_context_def dest: ll.holds_unique)
  have "firing_ticks 3 5 14 = [3, 8, 13]"
    by (simp add: firing_ticks_def upt_conv_Cons)
  then show ?thesis
    using alarm_fires_periodically [OF ar sole refl, of "\<lambda>_ _. 5" 14] s log
    by (auto simp: ctx)
qed

end
