(* ===== verification/Clock.thy ===== *)
theory Clock
  imports Alarm
begin

text \<open>
  The services built on the system clock: \<^verbatim>\<open>HAL/src/alt_gettod.c\<close>,
  \<^verbatim>\<open>HAL/src/alt_settod.c\<close>, \<^verbatim>\<open>HAL/src/alt_times.c\<close>, the calibrated delay of
  \<^verbatim>\<open>HAL/src/alt_busy_sleep.c\<close> and \<^verbatim>\<open>HAL/src/alt_usleep.c\<close>, and the timer and
  system-id drivers \<^verbatim>\<open>drivers/src/altera_avalon_timer_sc.c\<close>,
  \<^verbatim>\<open>altera_avalon_timer_ts.c\<close> (its 32-bit counter) and
  \<^verbatim>\<open>altera_avalon_sysid_qsys.c\<close>.
\<close>

section \<open>Wall clock time\<close>

text \<open>
  The fields are of type \<^verbatim>\<open>long\<close>, 32 bits and signed. Their values are kept as
  integers; \<open>as_long\<close> is the conversion of an \<^verbatim>\<open>unsigned\<close> result back to \<^verbatim>\<open>long\<close>, and of a
  signed one that overflows.
\<close>

record timeval =
  tv_sec :: int
  tv_usec :: int

record timezone =
  tz_minuteswest :: int
  tz_dsttime :: int

record wallclock = sysclk +
  alt_resettime :: timeval
  alt_timezone :: timezone

definition as_long :: "alt_u32 \<Rightarrow> int" where
  "as_long w = sint w"

definition ALT_US :: int where "ALT_US = 1000000"

text \<open>The two normalising loops of \<^verbatim>\<open>gettimeofday()\<close>.\<close>

function borrow_seconds :: "int \<Rightarrow> int \<Rightarrow> int \<times> int" where
  "borrow_seconds sec usec =
     (if usec < 0 then
        if sec \<le> 0 then (0, 0) else borrow_seconds (sec - 1) (usec + ALT_US)
      else (sec, usec))"
  by auto
termination by (relation "measure (\<lambda>(sec, usec). nat (- usec))") (auto simp: ALT_US_def)

function carry_seconds :: "int \<Rightarrow> int \<Rightarrow> int \<times> int" where
  "carry_seconds sec usec =
     (if usec \<ge> ALT_US then carry_seconds (as_long (word_of_int (sec + 1))) (usec - ALT_US)
      else (sec, usec))"
  by auto
termination by (relation "measure (\<lambda>(sec, usec). nat usec)") (auto simp: ALT_US_def)

declare borrow_seconds.simps [simp del] carry_seconds.simps [simp del]

text \<open>
  \<^verbatim>\<open>gettimeofday()\<close>: the error number, or the time and the time zone it stored. The product
  is taken in 64 bits.
\<close>

definition ALT_GETTIMEOFDAY :: "'a wallclock_scheme \<Rightarrow> int + timeval \<times> timezone" where
  "ALT_GETTIMEOFDAY s =
     (let n = alt_nticks s; rate = alt_ticks_per_second s in
      if rate \<noteq> 0 then
        (let sec = as_long (word_of_int (tv_sec (alt_resettime s)) + n div rate);
             frac = ucast (((ucast n :: 64 word) * ucast (1000000 div rate)) mod 1000000);
             usec = as_long (word_of_int (tv_usec (alt_resettime s)) + frac);
             (sec1, usec1) = borrow_seconds sec usec;
             (sec2, usec2) = carry_seconds sec1 usec1
         in Inr (\<lparr>tv_sec = sec2, tv_usec = usec2\<rparr>, alt_timezone s))
      else Inl (- ENOTSUP))"

text \<open>\<^verbatim>\<open>settimeofday()\<close>: the product is taken in 32 bits.\<close>

definition ALT_SETTIMEOFDAY ::
  "timeval \<Rightarrow> timezone \<Rightarrow> 'a wallclock_scheme \<Rightarrow> int \<times> 'a wallclock_scheme" where
  "ALT_SETTIMEOFDAY t tz s =
     (let n = alt_nticks s; rate = alt_ticks_per_second s in
      if rate \<noteq> 0 then
        (0, s\<lparr>alt_resettime :=
                \<lparr>tv_sec = as_long (word_of_int (tv_sec t) - n div rate),
                 tv_usec = as_long (word_of_int (tv_usec t) - (n * (1000000 div rate)) mod 1000000)\<rparr>,
              alt_timezone := tz\<rparr>)
      else (- 1, s\<lparr>alt_errno := ENOSYS\<rparr>))"

text \<open>\<^verbatim>\<open>times()\<close>: the four fields of \<^verbatim>\<open>struct tms\<close> when it stores them.\<close>

record tms =
  tms_utime :: alt_u32
  tms_stime :: alt_u32
  tms_cutime :: alt_u32
  tms_cstime :: alt_u32

definition ALT_TIMES :: "'a sysclk_scheme \<Rightarrow> alt_u32 \<times> tms option \<times> 'a sysclk_scheme" where
  "ALT_TIMES s =
     (let ticks = alt_nticks s in
      if alt_ticks_per_second s = 0 then (0, None, s\<lparr>alt_errno := ENOSYS\<rparr>)
      else (ticks, Some \<lparr>tms_utime = 0, tms_stime = ticks, tms_cutime = 0, tms_cstime = 0\<rparr>, s))"

section \<open>The calibrated delay\<close>

text \<open>
  The delay loops are two instructions each, counted here by their iterations: the register is
  decremented, then tested for being non-zero (\<^verbatim>\<open>bne\<close>) or positive as a signed number
  (\<^verbatim>\<open>bgt\<close>).
\<close>

lemma dec_measure:
  "r \<noteq> 1 \<Longrightarrow> unat (r - 2) < unat (r - 1)"
  "0 < sint (r - 1) \<Longrightarrow> unat (r - 2) < unat (r - 1)" for r :: alt_u32
proof -
  have "unat (y - 1) < unat y" if "y \<noteq> 0" for y :: alt_u32
    using that by (simp add: unat_minus_one unat_gt_0)
  from this [of "r - 1"] show *: "r \<noteq> 1 \<Longrightarrow> unat (r - 2) < unat (r - 1)"
    by auto
  show "0 < sint (r - 1) \<Longrightarrow> unat (r - 2) < unat (r - 1)"
    using * by (cases "r = 1") auto
qed

function bne_iterations :: "alt_u32 \<Rightarrow> nat" where
  "bne_iterations r = (let r1 = r - 1 in if r1 \<noteq> 0 then Suc (bne_iterations r1) else 1)"
  by auto
termination
  by (relation "measure (\<lambda>r. unat (r - 1))") (auto intro: dec_measure)

function bgt_iterations :: "alt_u32 \<Rightarrow> nat" where
  "bgt_iterations r = (let r1 = r - 1 in if 0 < sint r1 then Suc (bgt_iterations r1) else 1)"
  by auto
termination
  by (relation "measure (\<lambda>r. unat (r - 1))") (auto intro: dec_measure)

declare bne_iterations.simps [simp del] bgt_iterations.simps [simp del]

definition ALT_CPU_FREQ :: alt_u32 where "ALT_CPU_FREQ = 100000000"
definition NIOS2_CPU_IMPLEMENTATION :: string where "NIOS2_CPU_IMPLEMENTATION = ''fast''"

fun big_loop :: "nat \<Rightarrow> alt_u32 \<Rightarrow> alt_u32 \<Rightarrow> nat \<times> alt_u32" where
  "big_loop 0 per us = (0, us)"
| "big_loop (Suc k) per us =
     (let (n, us') = big_loop k per (us - 2147483647 div per)
      in (bne_iterations 2147483647 + n, us'))"

text \<open>\<^verbatim>\<open>alt_busy_sleep()\<close>: its result, and the number of loop iterations it spends.\<close>

definition alt_busy_sleep :: "alt_u32 \<Rightarrow> alt_u32 \<times> nat" where
  "alt_busy_sleep us =
     (let cycles_per_loop = (if NIOS2_CPU_IMPLEMENTATION = ''tiny'' then 9 else 3);
          per = ALT_CPU_FREQ div (cycles_per_loop * 1000000);
          big_loops = us div (2147483647 div per)
      in if big_loops \<noteq> 0 then
           (let (n, us') = big_loop (unat big_loops) per us
            in (0, n + bne_iterations (us' * per)))
         else (0, bgt_iterations (us * per)))"

definition ALT_USLEEP :: "alt_u32 \<Rightarrow> alt_u32 \<times> nat" where
  "ALT_USLEEP us = alt_busy_sleep us"

lemma bne_iterations_of_nat:
  "0 < n \<Longrightarrow> n < 4294967296 \<Longrightarrow> bne_iterations (of_nat n) = n"
proof (induction n)
  case (Suc n)
  show ?case
  proof (cases "n = 0")
    case False
    then have "(of_nat n :: alt_u32) \<noteq> 0"
      using Suc.prems by (simp add: of_nat_eq_0_iff unsigned_eq_0_iff word_eq_iff_unsigned unat_of_nat flip: unat_eq_zero)
    then show ?thesis using Suc False by (subst bne_iterations.simps) (simp add: Let_def)
  qed (simp add: bne_iterations.simps [of 1])
qed simp

lemma bne_iterations_eq:
  "bne_iterations r = (if r = 0 then 4294967296 else unat r)"
proof (cases "r = 0")
  case True
  have "bne_iterations (of_nat 4294967295) = 4294967295" by (rule bne_iterations_of_nat) auto
  moreover have "(of_nat 4294967295 :: alt_u32) = - 1"
    by (simp flip: unat_max_32_iff)
  ultimately have "bne_iterations (- 1) = 4294967295" by metis
  then show ?thesis using True by (subst bne_iterations.simps) (simp add: Let_def)
next
  case False
  then show ?thesis
    using bne_iterations_of_nat [of "unat r"] unat_32_bound [of r] by (simp add: unat_gt_0)
qed

lemma bgt_iterations_of_nat:
  "0 < n \<Longrightarrow> n < 2147483648 \<Longrightarrow> bgt_iterations (of_nat n) = n"
proof (induction n)
  case (Suc n)
  have "sint (of_nat n :: alt_u32) = int n"
    using Suc.prems by (simp add: sint_32 uint_nat unat_of_nat)
  then show ?case
    using Suc by (cases "n = 0"; subst bgt_iterations.simps) (auto simp: Let_def)
qed simp

lemma bgt_iterations_eq:
  assumes "unat r < 2147483648"
  shows "bgt_iterations r = (if r = 0 then 1 else unat r)"
proof (cases "r = 0")
  case True
  then show ?thesis by (subst bgt_iterations.simps) (simp add: Let_def)
next
  case False
  then show ?thesis
    using bgt_iterations_of_nat [of "unat r"] assms by (simp add: unat_gt_0)
qed

text \<open>The scaled constants on this processor: 33 iterations to the microsecond.\<close>

lemma delay_constants:
  "ALT_CPU_FREQ div ((if NIOS2_CPU_IMPLEMENTATION = ''tiny'' then 9 else 3) * 1000000) = 33"
  "(2147483647 :: alt_u32) div 33 = 65075262"
  by (simp_all add: ALT_CPU_FREQ_def NIOS2_CPU_IMPLEMENTATION_def)

lemma big_loop_step: "bne_iterations 2147483647 = 2147483647"
  by (simp add: bne_iterations_eq)

lemma big_loop_eq:
  "unat us \<ge> k * 65075262 \<Longrightarrow>
   big_loop k 33 us = (k * 2147483647, us - of_nat (k * 65075262))"
proof (induction k arbitrary: us)
  case (Suc k)
  have "unat (us - 65075262) = unat us - 65075262"
    using Suc.prems by (subst unat_sub) (auto simp: word_le_nat_alt)
  then have "big_loop k 33 (us - 65075262) = (k * 2147483647, us - 65075262 - of_nat (k * 65075262))"
    using Suc by simp
  then show ?case
    unfolding big_loop.simps delay_constants(2) big_loop_step by (simp add: algebra_simps)
qed simp

lemma alt_busy_sleep_eq:
  "alt_busy_sleep us =
    (let b = us div 65075262
     in if b \<noteq> 0 then (let (n, us') = big_loop (unat b) 33 us in (0, n + bne_iterations (us' * 33)))
        else (0, bgt_iterations (us * 33)))"
  unfolding alt_busy_sleep_def Let_def delay_constants by (rule refl)

text \<open>Property C30: the calibrated delay spends 33 loop iterations for each microsecond it is asked
  for, within one iteration per 65 seconds and for every 32-bit argument, but for two: a delay of 0
  takes one iteration, and a delay of a non-zero multiple of 65075262 microseconds takes
  \<open>2\<^sup>3\<^sup>2\<close> iterations (130 seconds) more, because the remainder loop decrements 0 before testing
  it.\<close>

theorem alt_busy_sleep_iterations:
  "alt_busy_sleep us =
    (0, (if us = 0 then 1 else 33 * unat us + unat us div 65075262)
        + (if us \<noteq> 0 \<and> unat us mod 65075262 = 0 then 4294967296 else 0))"
proof -
  define q m where "q = unat us div 65075262" and "m = unat us mod 65075262"
  have us: "unat us = q * 65075262 + m" and m: "m < 65075262" by (simp_all add: q_def m_def)
  have b: "unat (us div 65075262) = q" by (simp add: q_def unat_div)
  then have b0: "us div 65075262 = 0 \<longleftrightarrow> q = 0" by (metis unat_eq_zero)
  have us_m: "us = of_nat (q * 65075262 + m)" unfolding us [symmetric] by simp
  show ?thesis
  proof (cases "q = 0")
    case True
    then have u: "unat (us * 33) = m * 33" and um: "unat us = m"
      using us m by (simp_all add: unat_word_ariths)
    have z: "us * 33 = 0 \<longleftrightarrow> m = 0" "us = 0 \<longleftrightarrow> m = 0"
      using u um unat_eq_zero [of us] unat_eq_zero [of "us * 33"] by auto
    have "bgt_iterations (us * 33) = (if m = 0 then 1 else m * 33)"
      using bgt_iterations_eq [of "us * 33"] m u z(1) by simp
    then have "alt_busy_sleep us = (0, if m = 0 then 1 else m * 33)"
      using True b0 by (simp add: alt_busy_sleep_eq)
    moreover have "unat us div 65075262 = 0" "unat us mod 65075262 = m"
      using True by (simp_all only: q_def m_def)
    ultimately show ?thesis using z(2) um by simp
  next
    case False
    have "us - of_nat (q * 65075262) = of_nat m"
      by (subst us_m) (simp only: of_nat_add add_diff_cancel_left')
    then have "big_loop q 33 us = (q * 2147483647, of_nat m)"
      using big_loop_eq [of q us] us by simp
    moreover have u: "unat ((of_nat m :: alt_u32) * 33) = m * 33"
      using m by (simp add: unat_word_ariths unat_of_nat)
    have "(of_nat m :: alt_u32) * 33 = 0 \<longleftrightarrow> m = 0"
      using u unat_eq_zero [of "(of_nat m :: alt_u32) * 33"] by auto
    then have "bne_iterations (of_nat m * 33) = (if m = 0 then 4294967296 else m * 33)"
      using u by (simp add: bne_iterations_eq)
    ultimately have "alt_busy_sleep us =
        (0, q * 2147483647 + (if m = 0 then 4294967296 else m * 33))"
      using False b b0 by (simp add: alt_busy_sleep_eq)
    moreover have "unat us div 65075262 = q" "unat us mod 65075262 = m"
      by (simp_all only: q_def m_def)
    moreover have "us \<noteq> 0" using us False by auto
    ultimately show ?thesis using us by simp
  qed
qed

section \<open>Setting and reading the clock\<close>

lemma as_long_of_int:
  "- 2147483648 \<le> a \<Longrightarrow> a < 2147483648 \<Longrightarrow> as_long (word_of_int a) = a"
  by (simp add: as_long_def sint_sbintrunc' signed_take_bit_int_eq_self)

lemma as_long_add:
  "- 2147483648 \<le> a + uint w \<Longrightarrow> a + uint w < 2147483648 \<Longrightarrow>
   as_long (word_of_int a + w) = a + uint w"
  using as_long_of_int [of "a + uint w"] by simp

lemma as_long_diff:
  "- 2147483648 \<le> a - uint w \<Longrightarrow> a - uint w < 2147483648 \<Longrightarrow>
   as_long (word_of_int a - w) = a - uint w"
  using as_long_of_int [of "a - uint w"] by simp

lemma borrow_seconds_once:
  "- ALT_US \<le> usec \<Longrightarrow> usec < 0 \<Longrightarrow> 0 < sec \<Longrightarrow> borrow_seconds sec usec = (sec - 1, usec + ALT_US)"
  "0 \<le> usec \<Longrightarrow> borrow_seconds sec usec = (sec, usec)"
  by (simp_all add: borrow_seconds.simps [of sec] borrow_seconds.simps [of "sec - 1"])

lemma carry_seconds_once:
  "ALT_US \<le> usec \<Longrightarrow> usec < 2 * ALT_US \<Longrightarrow> - 1 \<le> sec \<Longrightarrow> sec < 2147483647 \<Longrightarrow>
   carry_seconds sec usec = (sec + 1, usec - ALT_US)"
  "usec < ALT_US \<Longrightarrow> carry_seconds sec usec = (sec, usec)"
  using as_long_of_int [of "sec + 1"]
  by (simp_all add: carry_seconds.simps [of _ usec] carry_seconds.simps [of _ "usec - ALT_US"])

text \<open>What the two loops leave, when one borrow or one carry is enough.\<close>

lemma normalised:
  assumes "- ALT_US \<le> usec" "usec < 2 * ALT_US" "0 \<le> sec * ALT_US + usec"
    and "sec < 2147483647"
  shows "\<exists>sec' usec'. (let (a, b) = borrow_seconds sec usec in carry_seconds a b) = (sec', usec')
    \<and> 0 \<le> usec' \<and> usec' < ALT_US \<and> sec' * ALT_US + usec' = sec * ALT_US + usec"
proof (cases "usec < 0")
  case True
  then have "0 < sec" using assms(3) by (auto simp: ALT_US_def)
  with True assms show ?thesis
    by (simp add: borrow_seconds_once carry_seconds_once) (simp add: ALT_US_def)
next
  case False
  have "- 1 \<le> sec" using assms(2,3) by (auto simp: ALT_US_def)
  with False assms show ?thesis
    by (cases "usec < ALT_US")
      (simp_all add: borrow_seconds_once carry_seconds_once, simp_all add: ALT_US_def)
qed

text \<open>
  The elapsed time in the two forms in which the code computes it, for a tick rate that divides
  the second: \<open>wide\<close> as \<^verbatim>\<open>gettimeofday()\<close> does.
\<close>

lemma wide_product:
  fixes n rate :: alt_u32
  shows "uint (ucast (((ucast n :: 64 word) * ucast (1000000 div rate)) mod 1000000) :: alt_u32) =
    (uint n * (1000000 div uint rate)) mod 1000000"
proof -
  have d: "0 \<le> 1000000 div uint rate" "1000000 div uint rate \<le> 1000000"
  proof -
    show "0 \<le> 1000000 div uint rate"
      using uint_32_bounds(1) [of "1000000 div rate"] by (simp add: uint_div)
    show "1000000 div uint rate \<le> 1000000"
    proof (cases "rate = 0")
      case False
      then show ?thesis
        using uint_32_pos [OF False] zdiv_mono2 [of 1000000 1 "uint rate"] by auto
    qed simp
  qed
  then have "uint n * (1000000 div uint rate) < 4294967296 * 1000001"
    using uint_32_bounds [of n] by (intro mult_strict_mono) auto
  moreover have "take_bit 64 (uint n) = uint n" "take_bit 64 (1000000 div uint rate) = 1000000 div uint rate"
    using d uint_32_bounds [of n] by (simp_all add: take_bit_int_eq_self)
  moreover have "0 \<le> uint n * (1000000 div uint rate)" using d by simp
  ultimately have "uint ((ucast n :: 64 word) * ucast (1000000 div rate)) = uint n * (1000000 div uint rate)"
    by (simp add: uint_word_ariths uint_div unsigned_ucast_eq)
  then show ?thesis
    by (simp add: unsigned_ucast_eq uint_mod uint_word_ariths take_bit_eq_mod)
qed

text \<open>
  Reading the clock, whatever the stored reset time, as long as the time read is not negative
  and fits: the microseconds since the epoch.
\<close>

definition micros :: "timeval \<Rightarrow> int" where
  "micros t = tv_sec t * ALT_US + tv_usec t"

definition elapsed :: "alt_u32 \<Rightarrow> alt_u32 \<Rightarrow> int" where
  "elapsed n rate = uint n * (ALT_US div uint rate)"

lemma elapsed_split:
  assumes "uint rate dvd ALT_US" "rate \<noteq> 0"
  shows "elapsed n rate = (uint n div uint rate) * ALT_US + elapsed n rate mod ALT_US"
proof -
  obtain k where k: "ALT_US = uint rate * k" using assms(1) by blast
  have r: "0 < uint rate" using assms(2) by (rule uint_32_pos)
  have "0 < uint rate * k" using k by (simp add: ALT_US_def)
  then have kpos: "0 < k" using r by (rule zero_less_mult_pos)
  have e: "elapsed n rate = uint n * k" using r unfolding elapsed_def k by simp
  have "elapsed n rate div ALT_US = uint n div uint rate"
    using kpos by (simp add: e k)
  then show ?thesis using div_mult_mod_eq [of "elapsed n rate" ALT_US] by simp
qed

lemma gettimeofday_reads:
  assumes rate: "uint (tick_rate s) dvd ALT_US" "tick_rate s \<noteq> 0"
    and reset: "alt_resettime s = \<lparr>tv_sec = s0, tv_usec = u0\<rparr>" "- ALT_US \<le> u0" "u0 < ALT_US"
    and range: "- 2147483648 \<le> s0 + uint (nticks s) div uint (tick_rate s)"
      "s0 + uint (nticks s) div uint (tick_rate s) < 2147483647"
    and pos: "0 \<le> s0 * ALT_US + u0 + elapsed (nticks s) (tick_rate s)"
  shows "\<exists>t. ALT_GETTIMEOFDAY s = Inr (t, alt_timezone s) \<and> 0 \<le> tv_usec t \<and> tv_usec t < ALT_US
    \<and> micros t = s0 * ALT_US + u0 + elapsed (nticks s) (tick_rate s)"
proof -
  let ?e = "elapsed (nticks s) (tick_rate s)" and ?q = "uint (nticks s) div uint (tick_rate s)"
  have fr: "0 \<le> ?e mod ALT_US" "?e mod ALT_US < ALT_US" by (simp_all add: ALT_US_def)
  have sec: "as_long (word_of_int s0 + nticks s div tick_rate s) = s0 + ?q"
    using range by (subst as_long_add) (simp_all add: uint_div)
  have usec: "as_long (word_of_int u0 + ucast (((ucast (nticks s) :: 64 word)
        * ucast (1000000 div tick_rate s)) mod 1000000)) = u0 + ?e mod ALT_US"
    using fr reset(2,3)
    by (subst as_long_add) (simp_all add: wide_product elapsed_def ALT_US_def)
  have total: "(s0 + ?q) * ALT_US + (u0 + ?e mod ALT_US) = s0 * ALT_US + u0 + ?e"
    using elapsed_split [OF rate, of "nticks s"] by (simp add: algebra_simps)
  obtain sec' usec' where
    "(let (a, b) = borrow_seconds (s0 + ?q) (u0 + ?e mod ALT_US) in carry_seconds a b) = (sec', usec')"
    "0 \<le> usec'" "usec' < ALT_US" "sec' * ALT_US + usec' = s0 * ALT_US + u0 + ?e"
    using normalised [of "u0 + ?e mod ALT_US" "s0 + ?q"] fr reset(2,3) range(2) pos total by auto
  then show ?thesis
    using rate(2)
    by (auto simp: ALT_GETTIMEOFDAY_def alt_nticks_def alt_ticks_per_second_def reset(1) sec usec
        Let_def micros_def split: prod.splits)
qed

lemma elapsed_nonneg: "0 \<le> elapsed n rate"
  using uint_32_bounds(1) [of "1000000 div rate"] uint_32_bounds(1) [of n]
  by (simp add: elapsed_def uint_div ALT_US_def)

text \<open>
  Setting the clock stores the time less the elapsed time, of which the microseconds are taken
  from a product in 32 bits.
\<close>

lemma settimeofday_stores:
  assumes rate: "tick_rate s \<noteq> 0"
    and t: "0 \<le> tv_sec t" "tv_sec t < 2147483648" "0 \<le> tv_usec t" "tv_usec t < ALT_US"
    and q: "uint (nticks s) div uint (tick_rate s) < 2147483648"
  shows "ALT_SETTIMEOFDAY t tz s = (0, s\<lparr>alt_resettime :=
      \<lparr>tv_sec = tv_sec t - uint (nticks s) div uint (tick_rate s),
       tv_usec = tv_usec t - elapsed (nticks s) (tick_rate s) mod 4294967296 mod ALT_US\<rparr>, alt_timezone := tz\<rparr>)"
    and "- 2147483648 \<le> tv_sec t - uint (nticks s) div uint (tick_rate s)"
proof -
  let ?e = "elapsed (nticks s) (tick_rate s)" and ?q = "uint (nticks s) div uint (tick_rate s)"
  have fr: "0 \<le> ?e mod 4294967296 mod ALT_US" "?e mod 4294967296 mod ALT_US < ALT_US" by (simp_all add: ALT_US_def)
  have q0: "0 \<le> ?q" using uint_32_bounds(1) [of "nticks s div tick_rate s"] by (simp add: uint_div)
  then show "- 2147483648 \<le> tv_sec t - ?q" using t q by simp
  have "as_long (word_of_int (tv_sec t) - nticks s div tick_rate s) = tv_sec t - ?q"
    using t q q0 by (subst as_long_diff) (simp_all add: uint_div)
  moreover have "uint ((nticks s * (1000000 div tick_rate s)) mod 1000000) = ?e mod 4294967296 mod ALT_US"
    by (simp add: uint_mod uint_word_ariths uint_div elapsed_def ALT_US_def)
  then have "as_long (word_of_int (tv_usec t) - (nticks s * (1000000 div tick_rate s)) mod 1000000) =
      tv_usec t - ?e mod 4294967296 mod ALT_US"
    using fr t by (subst as_long_diff) (simp_all add: ALT_US_def)
  ultimately show "ALT_SETTIMEOFDAY t tz s = (0, s\<lparr>alt_resettime :=
      \<lparr>tv_sec = tv_sec t - ?q, tv_usec = tv_usec t - ?e mod 4294967296 mod ALT_US\<rparr>, alt_timezone := tz\<rparr>)"
    using rate by (simp add: ALT_SETTIMEOFDAY_def alt_nticks_def alt_ticks_per_second_def Let_def)
qed

text \<open>The error that this makes, and when it makes none.\<close>

definition set_error :: "alt_u32 \<Rightarrow> alt_u32 \<Rightarrow> int" where
  "set_error n rate = elapsed n rate mod ALT_US - elapsed n rate mod 4294967296 mod ALT_US"

lemma set_error_narrow: "elapsed n rate < 4294967296 \<Longrightarrow> set_error n rate = 0"
  using elapsed_nonneg [of n rate] by (simp add: set_error_def)

lemma set_error_bounds: "- ALT_US < set_error n rate" "set_error n rate < ALT_US"
  by (simp_all add: set_error_def ALT_US_def)

text \<open>
  What is lost is a number of times \<open>2\<^sup>3\<^sup>2\<close> microseconds, which is a whole number of
  seconds for no smaller number than 15625.
\<close>

lemma set_error_zero_iff:
  assumes "uint rate dvd ALT_US" "64 \<le> uint rate"
  shows "set_error n rate = 0 \<longleftrightarrow> elapsed n rate < 4294967296"
proof
  let ?e = "elapsed n rate" and ?k = "elapsed n rate div 4294967296"
  assume "set_error n rate = 0"
  then have "?e mod ALT_US = (?e mod 4294967296) mod ALT_US" by (simp add: set_error_def)
  then have "ALT_US dvd ?e - ?e mod 4294967296" by (simp only: mod_eq_dvd_iff)
  then have "ALT_US dvd 4294967296 * ?k" by (simp add: minus_mod_eq_mult_div)
  then have "15625 dvd 67108864 * ?k" by (auto simp: ALT_US_def)
  moreover have "coprime ((5 :: int) ^ 6) (2 ^ 26)"
    by (simp only: coprime_power_left_iff coprime_power_right_iff coprime_right_2_iff_odd) simp
  then have "coprime 15625 (67108864 :: int)" by simp
  ultimately have "15625 dvd ?k" using coprime_dvd_mult_right_iff by blast
  moreover have "?k < 15625"
  proof -
    have "ALT_US div uint rate \<le> 15625"
      using zdiv_mono2 [of ALT_US 64 "uint rate"] assms(2) by (simp add: ALT_US_def)
    then have "?e \<le> uint n * 15625"
      unfolding elapsed_def by (intro mult_left_mono) (simp_all add: uint_32_bounds)
    then have "?e < 15625 * 4294967296" using uint_32_bounds(2) [of n] by linarith
    then show ?thesis by linarith
  qed
  ultimately have "?k = 0"
    using elapsed_nonneg [of n rate] zdvd_imp_le [of 15625 ?k] by (smt (verit) pos_imp_zdiv_nonneg_iff)
  then show "?e < 4294967296"
    using elapsed_nonneg [of n rate] by simp
qed (rule set_error_narrow)

text \<open>Reading the clock back, with that error.\<close>

lemma clock_read_back:
  assumes "uint (tick_rate s) dvd ALT_US" and "tick_rate s \<noteq> 0"
    and "0 \<le> tv_sec t" and "0 \<le> tv_usec t" and "tv_usec t < ALT_US"
    and "uint (nticks s) div uint (tick_rate s) < 2147483648"
    and "0 \<le> micros t + set_error (nticks s) (tick_rate s)"
    and "ALT_SETTIMEOFDAY t tz s = (rc, s')"
    and "uint (nticks s) \<le> uint later"
    and "tv_sec t + uint later div uint (tick_rate s) < 2147483647"
  shows "rc = 0 \<and> (\<exists>t'. ALT_GETTIMEOFDAY (s'\<lparr>nticks := later\<rparr>) = Inr (t', tz)
    \<and> 0 \<le> tv_usec t' \<and> tv_usec t' < ALT_US
    \<and> micros t' = micros t + elapsed later (tick_rate s) - elapsed (nticks s) (tick_rate s)
        + set_error (nticks s) (tick_rate s))"
proof -
  let ?r = "tick_rate s" and ?e = "elapsed (nticks s) (tick_rate s)"
  let ?q = "uint (nticks s) div uint ?r" and ?ql = "uint later div uint ?r"
  let ?u = "tv_usec t - ?e mod 4294967296 mod ALT_US"
  have r: "0 < uint ?r" by (rule uint_32_pos [OF assms(2)])
  have q: "0 \<le> ?q" "?q \<le> ?ql" using r assms(9) by (simp_all add: pos_imp_zdiv_nonneg_iff zdiv_mono1)
  have fr: "0 \<le> ?e mod 4294967296 mod ALT_US" "?e mod 4294967296 mod ALT_US < ALT_US" by (simp_all add: ALT_US_def)
  note st = settimeofday_stores [OF assms(2,3) _ assms(4-6)]
  have bound: "tv_sec t < 2147483648" using assms(10) q by linarith
  have s': "rc = 0" "alt_resettime s' = \<lparr>tv_sec = tv_sec t - ?q, tv_usec = ?u\<rparr>"
    "tick_rate s' = ?r" "alt_timezone s' = tz"
    using st(1) [OF bound, of tz] assms(8) by auto
  have "0 \<le> uint later - uint (nticks s)" using assms(9) by simp
  then have "0 \<le> elapsed later ?r - ?e"
    using r by (simp add: elapsed_def ALT_US_def pos_imp_zdiv_nonneg_iff mult_right_mono)
  moreover have e: "(tv_sec t - ?q) * ALT_US + ?u = micros t - ?e + set_error (nticks s) ?r"
    using elapsed_split [OF assms(1,2), of "nticks s"] by (simp add: micros_def set_error_def algebra_simps)
  ultimately have pos: "0 \<le> (tv_sec t - ?q) * ALT_US + ?u + elapsed later ?r"
    using assms(7) by linarith
  have "\<exists>t'. ALT_GETTIMEOFDAY (s'\<lparr>nticks := later\<rparr>) = Inr (t', alt_timezone (s'\<lparr>nticks := later\<rparr>))
    \<and> 0 \<le> tv_usec t' \<and> tv_usec t' < ALT_US
    \<and> micros t' = (tv_sec t - ?q) * ALT_US + ?u +
        elapsed (nticks (s'\<lparr>nticks := later\<rparr>)) (tick_rate (s'\<lparr>nticks := later\<rparr>))"
    by (rule gettimeofday_reads) (use assms q fr pos s' st(2) [OF bound] in \<open>simp_all add: ALT_US_def\<close>)
  then show ?thesis using s' e by auto
qed

text \<open>Property C8: after the clock was set, every later reading is the time it was set to plus the
  ticks that passed, normalised, for every tick rate that divides the second, if it was set at most
  \<open>2\<^sup>3\<^sup>2\<close> microseconds (71.6 minutes) after reset.\<close>

theorem clock_set_then_read:
  assumes "uint (tick_rate s) dvd ALT_US" and "tick_rate s \<noteq> 0"
    and "0 \<le> tv_sec t" and "0 \<le> tv_usec t" and "tv_usec t < ALT_US"
    and "elapsed (nticks s) (tick_rate s) < 4294967296"
    and "ALT_SETTIMEOFDAY t tz s = (rc, s')"
    and "uint (nticks s) \<le> uint later"
    and "tv_sec t + uint later div uint (tick_rate s) < 2147483647"
  shows "rc = 0 \<and> (\<exists>t'. ALT_GETTIMEOFDAY (s'\<lparr>nticks := later\<rparr>) = Inr (t', tz)
    \<and> 0 \<le> tv_usec t' \<and> tv_usec t' < ALT_US
    \<and> micros t' = micros t + elapsed later (tick_rate s) - elapsed (nticks s) (tick_rate s))"
proof -
  have e0: "set_error (nticks s) (tick_rate s) = 0" by (rule set_error_narrow [OF assms(6)])
  have "0 \<le> elapsed (nticks s) (tick_rate s) mod ALT_US" by (simp add: ALT_US_def)
  then have "uint (nticks s) div uint (tick_rate s) < 2147483648"
    using elapsed_split [OF assms(1,2), of "nticks s"] assms(6) by (simp add: ALT_US_def)
  moreover have "0 \<le> micros t" using assms(3,4) by (simp add: micros_def ALT_US_def)
  ultimately show ?thesis
    using clock_read_back [OF assms(1-5) _ _ assms(7-9)] e0 by simp
qed

definition running_clock :: "alt_u32 \<Rightarrow> wallclock" where
  "running_clock n = \<lparr>alt_errno = 0, status = 1, ienable = 0, alt_irq_active = 0,
     alt_priority_mask = -1, alt_irq = replicate 32 (0, 0),
     llists = ALT_LLIST_HEAD 16 \<lparr>next_of = (\<lambda>_. 0), prev_of = (\<lambda>_. 0)\<rparr>, alt_alarm_list = 16,
     alarm_at = (\<lambda>_. \<lparr>time = 0, callback = 0, rollover = 0, cb_context = 0\<rparr>),
     tick_rate = 1000, nticks = n, alt_resettime = \<lparr>tv_sec = 0, tv_usec = 0\<rparr>,
     alt_timezone = \<lparr>tz_minuteswest = 0, tz_dsttime = 0\<rparr>\<rparr>"

theorem clock_set_then_read_witness:
  "\<exists>t'. ALT_GETTIMEOFDAY (snd (ALT_SETTIMEOFDAY \<lparr>tv_sec = 1532685125, tv_usec = 999999\<rparr>
      \<lparr>tz_minuteswest = 60, tz_dsttime = 1\<rparr> (running_clock 1234))\<lparr>nticks := 5678\<rparr>)
      = Inr (t', \<lparr>tz_minuteswest = 60, tz_dsttime = 1\<rparr>)
    \<and> micros t' = 1532685130443999"
proof -
  let ?t = "\<lparr>tv_sec = 1532685125, tv_usec = 999999\<rparr>" and ?z = "\<lparr>tz_minuteswest = 60, tz_dsttime = 1\<rparr>"
  have h: "uint (tick_rate (running_clock 1234)) dvd ALT_US" "tick_rate (running_clock 1234) \<noteq> 0"
    "0 \<le> tv_sec ?t" "0 \<le> tv_usec ?t" "tv_usec ?t < ALT_US"
    "elapsed (nticks (running_clock 1234)) (tick_rate (running_clock 1234)) < 4294967296"
    by (simp_all add: running_clock_def ALT_US_def elapsed_def)
  obtain rc s' where s': "ALT_SETTIMEOFDAY ?t ?z (running_clock 1234) = (rc, s')" by fastforce
  have "uint (nticks (running_clock 1234)) \<le> uint (5678 :: alt_u32)"
    "tv_sec ?t + uint (5678 :: alt_u32) div uint (tick_rate (running_clock 1234)) < 2147483647"
    by (simp_all add: running_clock_def)
  from clock_set_then_read [OF h s' this] s' show ?thesis
    by (auto simp: running_clock_def micros_def elapsed_def ALT_US_def)
qed

text \<open>Property C39: that bound is sharp, on every system whose tick rate divides the second and is at
  least 64 Hz (the 1 kHz of this one among them). If the clock is set later than \<open>2\<^sup>3\<^sup>2\<close>
  microseconds after reset, to whatever time from the first second on, then every later reading
  is wrong, by the same amount: what the 32-bit product of \<^verbatim>\<open>settimeofday()\<close> loses against the
  64-bit one of \<^verbatim>\<open>gettimeofday()\<close>.\<close>

theorem clock_set_late_is_wrong:
  assumes "uint (tick_rate s) dvd ALT_US" and "64 \<le> uint (tick_rate s)"
    and "1 \<le> tv_sec t" and "0 \<le> tv_usec t" and "tv_usec t < ALT_US"
    and "ALT_SETTIMEOFDAY t tz s = (rc, s')"
    and "uint (nticks s) \<le> uint later"
    and "tv_sec t + uint later div uint (tick_rate s) < 2147483647"
  shows "\<exists>t'. ALT_GETTIMEOFDAY (s'\<lparr>nticks := later\<rparr>) = Inr (t', tz)
    \<and> (micros t' = micros t + elapsed later (tick_rate s) - elapsed (nticks s) (tick_rate s)
        \<longleftrightarrow> elapsed (nticks s) (tick_rate s) < 4294967296)
    \<and> micros t' - micros t - (elapsed later (tick_rate s) - elapsed (nticks s) (tick_rate s))
        = elapsed (nticks s) (tick_rate s) mod ALT_US
          - (elapsed (nticks s) (tick_rate s) mod 4294967296) mod ALT_US"
proof -
  let ?err = "set_error (nticks s) (tick_rate s)"
  have r: "tick_rate s \<noteq> 0" using assms(2) by auto
  have "uint (nticks s) div uint (tick_rate s) \<le> uint (nticks s) div 64"
    using zdiv_mono2 [of "uint (nticks s)" 64 "uint (tick_rate s)"] assms(2) by simp
  then have q: "uint (nticks s) div uint (tick_rate s) < 2147483648"
    using uint_32_bounds(2) [of "nticks s"] by linarith
  have "1 * ALT_US \<le> tv_sec t * ALT_US" using assms(3) by (intro mult_right_mono) (simp_all add: ALT_US_def)
  then have "0 \<le> micros t + ?err" using set_error_bounds(1) [of "nticks s" "tick_rate s"] assms(4) by (simp add: micros_def)
  then obtain t' where "ALT_GETTIMEOFDAY (s'\<lparr>nticks := later\<rparr>) = Inr (t', tz)"
    "micros t' = micros t + elapsed later (tick_rate s) - elapsed (nticks s) (tick_rate s) + ?err"
    using clock_read_back [OF assms(1) r _ assms(4,5) q _ assms(6-8)] assms(3) by auto
  then show ?thesis
    using set_error_zero_iff [OF assms(1,2), of "nticks s"] by (auto simp: set_error_def)
qed

text \<open>On this system: set to 1000 s at tick 4294968, the clock reads 1000.967296 s at once.\<close>

theorem clock_set_late_is_wrong_witness:
  "\<exists>t'. ALT_GETTIMEOFDAY (snd (ALT_SETTIMEOFDAY \<lparr>tv_sec = 1000, tv_usec = 0\<rparr>
      \<lparr>tz_minuteswest = 0, tz_dsttime = 0\<rparr> (running_clock 4294968))\<lparr>nticks := 4294968\<rparr>)
      = Inr (t', \<lparr>tz_minuteswest = 0, tz_dsttime = 0\<rparr>) \<and> micros t' = 1000967296"
proof -
  let ?t = "\<lparr>tv_sec = 1000, tv_usec = 0\<rparr>" and ?z = "\<lparr>tz_minuteswest = 0, tz_dsttime = 0\<rparr>"
  let ?s = "running_clock 4294968"
  have h: "uint (tick_rate ?s) dvd ALT_US" "64 \<le> uint (tick_rate ?s)"
    "1 \<le> tv_sec ?t" "0 \<le> tv_usec ?t" "tv_usec ?t < ALT_US"
    by (simp_all add: running_clock_def ALT_US_def)
  obtain rc s' where s': "ALT_SETTIMEOFDAY ?t ?z ?s = (rc, s')" by fastforce
  have "uint (nticks ?s) \<le> uint (4294968 :: alt_u32)"
    "tv_sec ?t + uint (4294968 :: alt_u32) div uint (tick_rate ?s) < 2147483647"
    by (simp_all add: running_clock_def)
  from clock_set_late_is_wrong [OF h s' this] s' show ?thesis
    by (auto simp: running_clock_def micros_def elapsed_def ALT_US_def)
qed

section \<open>The timer and system-id devices\<close>

text \<open>Register numbers and control bits of \<^verbatim>\<open>altera_avalon_timer_regs.h\<close>.\<close>

abbreviation (input) TIMER_STATUS :: nat where "TIMER_STATUS \<equiv> 0"
abbreviation (input) TIMER_CONTROL :: nat where "TIMER_CONTROL \<equiv> 1"
abbreviation (input) TIMER_PERIODL :: nat where "TIMER_PERIODL \<equiv> 2"
abbreviation (input) TIMER_PERIODH :: nat where "TIMER_PERIODH \<equiv> 3"
abbreviation (input) TIMER_SNAPL :: nat where "TIMER_SNAPL \<equiv> 4"
abbreviation (input) TIMER_SNAPH :: nat where "TIMER_SNAPH \<equiv> 5"

definition TIMER_CONTROL_ITO_MSK :: alt_u32 where "TIMER_CONTROL_ITO_MSK = 1"
definition TIMER_CONTROL_CONT_MSK :: alt_u32 where "TIMER_CONTROL_CONT_MSK = 2"
definition TIMER_CONTROL_START_MSK :: alt_u32 where "TIMER_CONTROL_START_MSK = 4"
definition TIMER_CONTROL_STOP_MSK :: alt_u32 where "TIMER_CONTROL_STOP_MSK = 8"

text \<open>
  The interrupt handler of the system clock: acknowledge, read back, and one \<^verbatim>\<open>alt_tick()\<close>
  with interrupts disabled. \<open>None\<close> when the tick does not return.
\<close>

definition alt_avalon_timer_sc_irq ::
  "'h bus \<Rightarrow> (addr \<Rightarrow> addr \<Rightarrow> 'a sysclk_scheme \<Rightarrow> alt_u32 \<times> 'a sysclk_scheme) \<Rightarrow> addr
   \<Rightarrow> 'h \<Rightarrow> 'a sysclk_scheme \<Rightarrow> ('h \<times> 'a sysclk_scheme) option" where
  "alt_avalon_timer_sc_irq bus call base h s =
     (let h1 = iowr bus base TIMER_STATUS 0 h;
          (_, h2) = iord bus base TIMER_CONTROL h1;
          (cpu_sr, s1) = alt_irq_disable_all s
      in do {
        s2 \<leftarrow> alt_tick call s1;
        Some (h2, alt_irq_enable_all cpu_sr s2)
      })"

text \<open>\<open>isr\<close> is the address of the handler above.\<close>

definition alt_avalon_timer_sc_init ::
  "'h bus \<Rightarrow> addr \<Rightarrow> addr \<Rightarrow> alt_u32 \<Rightarrow> alt_u32 \<Rightarrow> alt_u32 \<Rightarrow> 'h \<Rightarrow> 'a sysclk_scheme
   \<Rightarrow> ('h \<times> 'a sysclk_scheme) c_result" where
  "alt_avalon_timer_sc_init bus isr base irq_controller_id irq freq h s =
     (let (_, s1) = alt_sysclk_init freq s;
          h1 = iowr bus base TIMER_CONTROL
                 (TIMER_CONTROL_ITO_MSK OR TIMER_CONTROL_CONT_MSK OR TIMER_CONTROL_START_MSK) h
      in case alt_ic_isr_register irq_controller_id irq isr base 0 s1 of
           Inl f \<Rightarrow> Inl f
         | Inr (_, s2) \<Rightarrow> Inr (h1, s2))"

text \<open>
  The timestamp driver with its 32-bit counter. \<open>base\<close> and \<open>freq\<close> are the variables of
  \<^verbatim>\<open>altera_avalon_timer_vars.c\<close>.
\<close>

definition alt_timestamp_start :: "'h bus \<Rightarrow> addr \<Rightarrow> alt_u32 \<Rightarrow> 'h \<Rightarrow> int \<times> 'h" where
  "alt_timestamp_start bus base freq h =
     (if freq = 0 then (- 1, h)
      else
        (let h1 = iowr bus base TIMER_CONTROL TIMER_CONTROL_STOP_MSK h;
             h2 = iowr bus base TIMER_PERIODL 0xFFFF h1;
             h3 = iowr bus base TIMER_PERIODH 0xFFFF h2;
             h4 = iowr bus base TIMER_CONTROL TIMER_CONTROL_START_MSK h3
         in (0, h4)))"

definition alt_timestamp :: "'h bus \<Rightarrow> addr \<Rightarrow> alt_u32 \<Rightarrow> 'h \<Rightarrow> alt_u32 \<times> 'h" where
  "alt_timestamp bus base freq h =
     (if freq = 0 then (0xFFFFFFFF, h)
      else
        (let h1 = iowr bus base TIMER_SNAPL 0 h;
             (l, h2) = iord bus base TIMER_SNAPL h1;
             lower = l AND 0xFFFF;
             (u, h3) = iord bus base TIMER_SNAPH h2;
             upper = u AND 0xFFFF
         in (0xFFFFFFFF - (push_bit 16 upper OR lower), h3)))"

definition alt_timestamp_freq :: "alt_u32 \<Rightarrow> alt_u32" where
  "alt_timestamp_freq freq = freq"

definition SYSID_ID :: alt_u32 where "SYSID_ID = 0"
definition SYSID_TIMESTAMP :: alt_u32 where "SYSID_TIMESTAMP = 1532685125"

definition alt_avalon_sysid_qsys_test :: "'h bus \<Rightarrow> addr \<Rightarrow> 'h \<Rightarrow> int \<times> 'h" where
  "alt_avalon_sysid_qsys_test bus base h =
     (let (hardware_id, h1) = iord bus base 0 h;
          (hardware_timestamp, h2) = iord bus base 1 h1
      in if SYSID_TIMESTAMP = hardware_timestamp \<and> SYSID_ID = hardware_id then (0, h2)
         else (if sint (hardware_timestamp - SYSID_TIMESTAMP) > 0 then 1 else - 1, h2))"

text \<open>The clock interrupt is a tick, and it leaves the interrupt enable as it found it.\<close>

lemma timer_irq_ticks:
  assumes "alarm_safe call" "dllist (llists s) (alt_alarm_list s) xs"
  shows "\<exists>h' s1. alt_avalon_timer_sc_irq bus call base h s = Some (h', s1\<lparr>status := status s\<rparr>)
    \<and> alt_tick call (snd (alt_irq_disable_all s)) = Some s1 \<and> nticks s1 = nticks s + 1"
proof -
  let ?s = "snd (alt_irq_disable_all s)"
  have "llists ?s = llists s" "alt_alarm_list ?s = alt_alarm_list s" "nticks ?s = nticks s"
    by (simp_all add: irq_defs)
  then have "alt_tick call ?s = Some (fold (alt_tick_alarm call) xs (?s\<lparr>nticks := nticks s + 1\<rparr>))"
    using alt_tick_runs [OF assms(1), of ?s xs] assms(2) by simp
  then show ?thesis
    by (simp add: alt_avalon_timer_sc_irq_def irq_defs fold_tick_frame [OF assms(1)]
        split: prod.splits)
qed

text \<open>The timestamp counts up: the complement of the down-counter's snapshot.\<close>

lemma alt_timestamp_snapshot:
  assumes "freq \<noteq> 0"
    and "iord bus base TIMER_SNAPL (iowr bus base TIMER_SNAPL 0 h) = (take_bit 16 c, h1)"
    and "iord bus base TIMER_SNAPH h1 = (drop_bit 16 c, h2)"
  shows "alt_timestamp bus base freq h = (NOT c, h2)"
proof -
  have "push_bit 16 (drop_bit 16 c AND 0xFFFF) OR (take_bit 16 c AND 0xFFFF) = c"
    by (auto simp: and_low_mask_32 word32_eq_iff bit_simps)
  moreover have "(0xFFFFFFFF :: alt_u32) - c = NOT c"
    by (simp add: not_eq_complement flip: unat_max_32_iff)
  ultimately show ?thesis using assms by (simp add: alt_timestamp_def Let_def)
qed

end
