(* ===== verification/Fd_Table.thy ===== *)
theory Fd_Table
  imports Alarm
begin

text \<open>
  Devices and file descriptors: \<^verbatim>\<open>HAL/inc/sys/alt_dev.h\<close>,
  \<^verbatim>\<open>HAL/inc/priv/alt_file.h\<close>, \<^verbatim>\<open>HAL/src/alt_dev.c\<close>,
  \<^verbatim>\<open>alt_dev_llist_insert.c\<close>, \<^verbatim>\<open>alt_fs_reg.c\<close>, \<^verbatim>\<open>alt_find_dev.c\<close>,
  \<^verbatim>\<open>alt_find_file.c\<close>, \<^verbatim>\<open>alt_flash_dev.c\<close>, \<^verbatim>\<open>alt_dma_rxchan_open.c\<close>,
  \<^verbatim>\<open>alt_dma_txchan_open.c\<close>, \<^verbatim>\<open>alt_get_fd.c\<close>, \<^verbatim>\<open>alt_release_fd.c\<close>,
  \<^verbatim>\<open>alt_fd_lock.c\<close> and \<^verbatim>\<open>alt_fd_unlock.c\<close>. The semaphore around the table is empty
  without an operating system.
\<close>

section \<open>State\<close>

text \<open>
  \<^verbatim>\<open>struct alt_dev_s\<close>, less its list pointers. The name is \<open>None\<close> for a null pointer; a
  function pointer is an address, 0 when the driver does not provide the function.
\<close>

record alt_dev =
  dev_name :: "string option"
  dev_open :: addr
  dev_close :: addr
  dev_read :: addr
  dev_write :: addr
  dev_lseek :: addr
  dev_fstat :: addr
  dev_ioctl :: addr

record alt_fd =
  fd_dev :: addr
  fd_priv :: addr
  fd_flags :: alt_u32

text \<open>The addresses of the list heads are those of the globals.\<close>

record fdtable = sysclk +
  alt_dev_list :: addr
  alt_fs_list :: addr
  alt_flash_dev_list :: addr
  alt_dma_rxchan_list :: addr
  alt_dma_txchan_list :: addr
  dev_at :: "addr \<Rightarrow> alt_dev"
  alt_fd_list :: "alt_fd list"
  alt_max_fd :: int

definition ALT_MAX_FD :: nat where "ALT_MAX_FD = 32"
definition ALT_FD_EXCL :: alt_u32 where "ALT_FD_EXCL = 0x80000000"
definition ALT_FD_DEV :: alt_u32 where "ALT_FD_DEV = 0x40000000"
definition ALT_FD_FLAGS_MASK :: alt_u32 where "ALT_FD_FLAGS_MASK = ALT_FD_EXCL OR ALT_FD_DEV"

text \<open>The static initial value of the table: the three standard descriptors on \<^verbatim>\<open>/dev/null\<close>.\<close>

definition initial_fd_list :: "addr \<Rightarrow> alt_fd list" where
  "initial_fd_list null_dev =
     replicate 3 \<lparr>fd_dev = null_dev, fd_priv = 0, fd_flags = 0\<rparr>
     @ replicate (ALT_MAX_FD - 3) \<lparr>fd_dev = 0, fd_priv = 0, fd_flags = 0\<rparr>"

definition alt_dev_null_write :: "nat \<Rightarrow> alt_u8 list \<Rightarrow> int \<Rightarrow> 's \<Rightarrow> int \<times> 's" where
  "alt_dev_null_write fd ptr len s = (len, s)"

text \<open>\<open>wr\<close> is the address of the function above.\<close>

definition alt_dev_null :: "addr \<Rightarrow> alt_dev" where
  "alt_dev_null wr = \<lparr>dev_name = Some ''/dev/null'', dev_open = 0, dev_close = 0, dev_read = 0,
     dev_write = wr, dev_lseek = 0, dev_fstat = 0, dev_ioctl = 0\<rparr>"

section \<open>Registration\<close>

definition alt_dev_llist_insert :: "addr \<Rightarrow> addr \<Rightarrow> 'a fdtable_scheme \<Rightarrow> int \<times> 'a fdtable_scheme" where
  "alt_dev_llist_insert dev lst s =
     (if dev = 0 \<or> dev_name (dev_at s dev) = None then (- EINVAL, s\<lparr>alt_errno := EINVAL\<rparr>)
      else (0, s\<lparr>llists := alt_llist_insert lst dev (llists s)\<rparr>))"

definition alt_dev_reg :: "addr \<Rightarrow> 'a fdtable_scheme \<Rightarrow> int \<times> 'a fdtable_scheme" where
  "alt_dev_reg dev s = alt_dev_llist_insert dev (alt_dev_list s) s"

definition alt_fs_reg :: "addr \<Rightarrow> 'a fdtable_scheme \<Rightarrow> int \<times> 'a fdtable_scheme" where
  "alt_fs_reg dev s =
     (if dev_name (dev_at s dev) = None then (- ENODEV, s)
      else (0, s\<lparr>llists := alt_llist_insert (alt_fs_list s) dev (llists s)\<rparr>))"

section \<open>Lookup\<close>

text \<open>
  \<^verbatim>\<open>memcmp(a, b, len) == 0\<close> on two C strings. A difference is found at the latest at the
  terminator of the shorter one, so what lies behind it does not matter.
\<close>

definition memcmp_eq :: "string \<Rightarrow> string \<Rightarrow> nat \<Rightarrow> bool" where
  "memcmp_eq a b len \<longleftrightarrow> take len (a @ [CHR 0x00]) = take len (b @ [CHR 0x00])"

partial_function (option) alt_find_dev_loop ::
  "'a fdtable_scheme \<Rightarrow> string \<Rightarrow> addr \<Rightarrow> addr \<Rightarrow> addr option" where
  "alt_find_dev_loop s name lst nxt =
     (if nxt = lst then Some 0
      else if memcmp_eq (the (dev_name (dev_at s nxt))) name (length name + 1) then Some nxt
      else alt_find_dev_loop s name lst (next_of (llists s) nxt))"

definition alt_find_dev :: "string \<Rightarrow> addr \<Rightarrow> 'a fdtable_scheme \<Rightarrow> addr option" where
  "alt_find_dev name lst s = alt_find_dev_loop s name lst (next_of (llists s) lst)"

text \<open>The character at an index of a C string: the terminator is in bounds, what follows is not.\<close>

definition char_at :: "string \<Rightarrow> int \<Rightarrow> char c_result" where
  "char_at str i =
     (if i < 0 \<or> int (length str) < i then Inl Out_Of_Bounds
      else if i = int (length str) then Inr (CHR 0x00) else Inr (str ! nat i))"

text \<open>The test of one file system of \<^verbatim>\<open>alt_find_file()\<close>.\<close>

definition alt_fs_matches :: "string \<Rightarrow> string \<Rightarrow> bool c_result" where
  "alt_fs_matches fs name =
     (case char_at fs (int (length fs) - 1) of
        Inl f \<Rightarrow> Inl f
      | Inr c \<Rightarrow>
          (let len = (if c = CHR ''/'' then int (length fs) - 1 else int (length fs))
           in case char_at name len of
                Inl f \<Rightarrow> Inl f
              | Inr d \<Rightarrow> Inr ((d = CHR ''/'' \<or> d = CHR 0x00) \<and> memcmp_eq fs name (nat len))))"

partial_function (option) alt_find_file_loop ::
  "'a fdtable_scheme \<Rightarrow> string \<Rightarrow> addr \<Rightarrow> addr c_result option" where
  "alt_find_file_loop s name nxt =
     (if nxt = alt_fs_list s then Some (Inr 0)
      else case alt_fs_matches (the (dev_name (dev_at s nxt))) name of
             Inl f \<Rightarrow> Some (Inl f)
           | Inr b \<Rightarrow> (if b then Some (Inr nxt)
                       else alt_find_file_loop s name (next_of (llists s) nxt)))"

definition alt_find_file :: "string \<Rightarrow> 'a fdtable_scheme \<Rightarrow> addr c_result option" where
  "alt_find_file name s = alt_find_file_loop s name (next_of (llists s) (alt_fs_list s))"

text \<open>
  The openers that only look a device up. A flash device is an \<open>alt_dev\<close> here; calling its
  open function is the parameter \<open>call_open\<close>, its close function \<open>call_close\<close>.
\<close>

definition alt_flash_open_dev ::
  "(addr \<Rightarrow> addr \<Rightarrow> string \<Rightarrow> 'a fdtable_scheme \<Rightarrow> addr \<times> 'a fdtable_scheme)
   \<Rightarrow> string \<Rightarrow> 'a fdtable_scheme \<Rightarrow> (addr \<times> 'a fdtable_scheme) option" where
  "alt_flash_open_dev call_open name s =
     do {
       dev \<leftarrow> alt_find_dev name (alt_flash_dev_list s) s;
       Some (if dev \<noteq> 0 \<and> dev_open (dev_at s dev) \<noteq> 0
             then call_open (dev_open (dev_at s dev)) dev name s else (dev, s))
     }"

definition alt_flash_close_dev ::
  "(addr \<Rightarrow> addr \<Rightarrow> 'a fdtable_scheme \<Rightarrow> 'a fdtable_scheme) \<Rightarrow> addr \<Rightarrow> 'a fdtable_scheme \<Rightarrow> 'a fdtable_scheme"
where
  "alt_flash_close_dev call_close fd s =
     (if fd \<noteq> 0 \<and> dev_close (dev_at s fd) \<noteq> 0 then call_close (dev_close (dev_at s fd)) fd s else s)"

definition alt_dma_rxchan_open :: "string \<Rightarrow> 'a fdtable_scheme \<Rightarrow> (addr \<times> 'a fdtable_scheme) option" where
  "alt_dma_rxchan_open name s =
     do {
       dev \<leftarrow> alt_find_dev name (alt_dma_rxchan_list s) s;
       Some (dev, if dev = 0 then s\<lparr>alt_errno := ENODEV\<rparr> else s)
     }"

definition alt_dma_txchan_open :: "string \<Rightarrow> 'a fdtable_scheme \<Rightarrow> (addr \<times> 'a fdtable_scheme) option" where
  "alt_dma_txchan_open name s =
     do {
       dev \<leftarrow> alt_find_dev name (alt_dma_txchan_list s) s;
       Some (dev, if dev = 0 then s\<lparr>alt_errno := ENODEV\<rparr> else s)
     }"

section \<open>The descriptor pool\<close>

abbreviation set_fd :: "nat \<Rightarrow> (alt_fd \<Rightarrow> alt_fd) \<Rightarrow> 'a fdtable_scheme \<Rightarrow> 'a fdtable_scheme" where
  "set_fd i f s \<equiv> s\<lparr>alt_fd_list := (alt_fd_list s)[i := f (alt_fd_list s ! i)]\<rparr>"

text \<open>The search loop of \<^verbatim>\<open>alt_get_fd()\<close> from index \<open>i\<close>.\<close>

function alt_get_fd_loop :: "addr \<Rightarrow> nat \<Rightarrow> 'a fdtable_scheme \<Rightarrow> int \<times> 'a fdtable_scheme" where
  "alt_get_fd_loop dev i s =
     (if i < ALT_MAX_FD then
        if fd_dev (alt_fd_list s ! i) = 0 then
          (let s1 = set_fd i (\<lambda>e. e\<lparr>fd_dev := dev\<rparr>) s
           in (int i, if int i > alt_max_fd s1 then s1\<lparr>alt_max_fd := int i\<rparr> else s1))
        else alt_get_fd_loop dev (Suc i) s
      else (- EMFILE, s))"
  by auto
termination by (relation "measure (\<lambda>(dev, i, s). ALT_MAX_FD - i)") auto

declare alt_get_fd_loop.simps [simp del]

definition alt_get_fd :: "addr \<Rightarrow> 'a fdtable_scheme \<Rightarrow> int \<times> 'a fdtable_scheme" where
  "alt_get_fd dev s = alt_get_fd_loop dev 0 s"

definition alt_release_fd :: "int \<Rightarrow> 'a fdtable_scheme \<Rightarrow> 'a fdtable_scheme" where
  "alt_release_fd fd s =
     (if fd > 2 then set_fd (nat fd) (\<lambda>e. e\<lparr>fd_flags := 0, fd_dev := 0\<rparr>) s else s)"

text \<open>
  \<^verbatim>\<open>alt_fd_lock()\<close>. A descriptor pointer is the index of the descriptor. The loop runs over
  \<open>i < alt_max_fd\<close>.
\<close>

definition alt_fd_lock :: "nat \<Rightarrow> 'a fdtable_scheme \<Rightarrow> int \<times> 'a fdtable_scheme" where
  "alt_fd_lock fd s =
     (if list_ex (\<lambda>i. i \<noteq> fd \<and> fd_dev (alt_fd_list s ! i) = fd_dev (alt_fd_list s ! fd))
          [0..<nat (alt_max_fd s)]
      then (- EACCES, s)
      else (0, set_fd fd (\<lambda>e. e\<lparr>fd_flags := fd_flags e OR ALT_FD_EXCL\<rparr>) s))"

definition alt_fd_unlock :: "nat \<Rightarrow> 'a fdtable_scheme \<Rightarrow> int \<times> 'a fdtable_scheme" where
  "alt_fd_unlock fd s =
     (0, set_fd fd (\<lambda>e. e\<lparr>fd_flags := fd_flags e AND NOT ALT_FD_EXCL\<rparr>) s)"

section \<open>Lookup, as a search of the registered names\<close>

definition c_string :: "string \<Rightarrow> bool" where
  "c_string str \<longleftrightarrow> CHR 0x00 \<notin> set str"

lemma memcmp_whole:
  assumes "c_string a"
  shows "memcmp_eq a b (length b + 1) \<longleftrightarrow> a = b"
proof
  assume m: "memcmp_eq a b (length b + 1)"
  then have m': "take (length b + 1) (a @ [CHR 0x00]) = b @ [CHR 0x00]"
    by (simp add: memcmp_eq_def)
  then have "length b + 1 \<le> length (a @ [CHR 0x00])"
    by (metis length_append_singleton length_take min.absorb_iff2 min.commute Suc_eq_plus1)
  moreover have "\<not> length b < length a"
  proof
    assume l: "length b < length a"
    then have "take (length b + 1) a = b @ [CHR 0x00]" using m' by simp
    then have "CHR 0x00 \<in> set a" by (metis in_set_conv_decomp in_set_takeD)
    with assms show False by (simp add: c_string_def)
  qed
  ultimately have "length a = length b" by simp
  with m' show "a = b" by simp
qed (simp add: memcmp_eq_def)

text \<open>The devices of a list are named, by C strings.\<close>

definition named_devices :: "'a fdtable_scheme \<Rightarrow> addr list \<Rightarrow> bool" where
  "named_devices s xs \<longleftrightarrow> (\<forall>x\<in>set xs. \<exists>n. dev_name (dev_at s x) = Some n \<and> c_string n)"

definition first_named :: "'a fdtable_scheme \<Rightarrow> string \<Rightarrow> addr list \<Rightarrow> addr" where
  "first_named s name xs =
     (case find (\<lambda>x. dev_name (dev_at s x) = Some name) xs of None \<Rightarrow> 0 | Some x \<Rightarrow> x)"

lemma alt_find_dev_eq:
  assumes "dllist (llists s) lst xs" and "named_devices s xs"
  shows "alt_find_dev name lst s = Some (first_named s name xs)"
proof -
  let ?step = "\<lambda>x r. if memcmp_eq (the (dev_name (dev_at s x))) name (length name + 1) then Some x else r"
  have "alt_find_dev name lst s = foldr ?step xs (Some 0)"
    unfolding alt_find_dev_def
    by (rule ll.walk [where xs = "[]" and h = "llists s" and lh = lst])
      (use assms(1) ll.nxt_first [OF assms(1)] in \<open>auto simp: alt_find_dev_loop.simps\<close>)
  also have "\<dots> = Some (first_named s name xs)"
    using assms(2) by (induction xs) (auto simp: named_devices_def first_named_def memcmp_whole [simplified])
  finally show ?thesis .
qed

lemma alt_dev_reg_eq:
  assumes "dllist (llists s) (alt_dev_list s) xs" "dev \<notin> set (alt_dev_list s # xs)"
    and "dev \<noteq> 0" "dev_name (dev_at s dev) = Some n"
  shows "\<exists>s'. alt_dev_reg dev s = (0, s') \<and> dllist (llists s') (alt_dev_list s') (dev # xs)
    \<and> dev_at s' = dev_at s"
  using assms ll.holds_ins [OF assms(1,2)] by (simp add: alt_dev_reg_def alt_dev_llist_insert_def)

section \<open>The pool\<close>

text \<open>
  The invariant of the table. The standard descriptors are always open; above the highwater
  mark no other is.
\<close>

definition fd_wf :: "'a fdtable_scheme \<Rightarrow> bool" where
  "fd_wf s \<longleftrightarrow> length (alt_fd_list s) = ALT_MAX_FD \<and> - 1 \<le> alt_max_fd s \<and> alt_max_fd s < int ALT_MAX_FD
     \<and> (\<forall>i<3. fd_dev (alt_fd_list s ! i) \<noteq> 0)
     \<and> (\<forall>i. 3 \<le> i \<and> i < ALT_MAX_FD \<and> alt_max_fd s < int i \<longrightarrow> fd_dev (alt_fd_list s ! i) = 0)"

lemma fd_wf_initial:
  "d \<noteq> 0 \<Longrightarrow> alt_fd_list s = initial_fd_list d \<Longrightarrow> alt_max_fd s = - 1 \<Longrightarrow> fd_wf s"
  by (auto simp: fd_wf_def initial_fd_list_def ALT_MAX_FD_def nth_append)

definition lowest_free :: "'a fdtable_scheme \<Rightarrow> nat option" where
  "lowest_free s = find (\<lambda>i. fd_dev (alt_fd_list s ! i) = 0) [0..<ALT_MAX_FD]"

text \<open>The state after descriptor \<open>i\<close> was given to device \<open>dev\<close>.\<close>

definition taken :: "nat \<Rightarrow> addr \<Rightarrow> 'a fdtable_scheme \<Rightarrow> 'a fdtable_scheme" where
  "taken i dev s = (set_fd i (\<lambda>e. e\<lparr>fd_dev := dev\<rparr>) s)\<lparr>alt_max_fd := max (alt_max_fd s) (int i)\<rparr>"

lemma alt_get_fd_loop_eq:
  "alt_get_fd_loop dev i s =
     (case find (\<lambda>i. fd_dev (alt_fd_list s ! i) = 0) [i..<ALT_MAX_FD] of
        None \<Rightarrow> (- EMFILE, s) | Some j \<Rightarrow> (int j, taken j dev s))"
proof (induction dev i s rule: alt_get_fd_loop.induct)
  case (1 dev i s)
  show ?case
  proof (cases "i < ALT_MAX_FD \<and> fd_dev (alt_fd_list s ! i) \<noteq> 0")
    case True
    then show ?thesis
      using 1 by (subst alt_get_fd_loop.simps) (simp add: upt_conv_Cons)
  next
    case False
    then show ?thesis
      by (subst alt_get_fd_loop.simps)
         (auto simp: upt_conv_Cons taken_def Let_def max_def)
  qed
qed

lemma alt_get_fd_eq:
  "alt_get_fd dev s = (case lowest_free s of None \<Rightarrow> (- EMFILE, s) | Some j \<Rightarrow> (int j, taken j dev s))"
  by (simp add: alt_get_fd_def alt_get_fd_loop_eq lowest_free_def)

lemma lowest_free_SomeD:
  "lowest_free s = Some j \<Longrightarrow> j < ALT_MAX_FD \<and> fd_dev (alt_fd_list s ! j) = 0
     \<and> (\<forall>i<j. fd_dev (alt_fd_list s ! i) \<noteq> 0)"
  by (auto simp: lowest_free_def find_Some_iff)

lemma lowest_free_NoneD:
  "lowest_free s = None \<Longrightarrow> i < ALT_MAX_FD \<Longrightarrow> fd_dev (alt_fd_list s ! i) \<noteq> 0"
  by (auto simp: lowest_free_def find_None_iff)

lemma lowest_free_standard:
  assumes "fd_wf s" "lowest_free s = Some j"
  shows "2 < j"
proof (rule ccontr)
  assume "\<not> 2 < j"
  then have "fd_dev (alt_fd_list s ! j) \<noteq> 0" using assms(1) by (auto simp: fd_wf_def)
  then show False using lowest_free_SomeD [OF assms(2)] by simp
qed

lemma fd_wf_taken:
  assumes "fd_wf s" "j < ALT_MAX_FD" "2 < j"
  shows "fd_wf (taken j dev s)"
  using assms by (auto simp: fd_wf_def taken_def nth_list_update)

lemma fd_wf_set_fd:
  assumes "fd_wf s" "fd_dev (f (alt_fd_list s ! j)) = fd_dev (alt_fd_list s ! j) \<or> 2 < j \<and> fd_dev (f (alt_fd_list s ! j)) = 0"
  shows "fd_wf (set_fd j f s)"
  using assms by (cases "j < ALT_MAX_FD") (auto simp: fd_wf_def nth_list_update list_update_beyond)

lemma fd_wf_release: "fd_wf s \<Longrightarrow> fd_wf (alt_release_fd fd s)"
  by (auto simp: alt_release_fd_def intro: fd_wf_set_fd [where f = "\<lambda>e. e\<lparr>fd_flags := 0, fd_dev := 0\<rparr>"])

lemma fd_wf_flags: "fd_wf s \<Longrightarrow> fd_wf (set_fd i (\<lambda>e. e\<lparr>fd_flags := w e\<rparr>) s)"
  by (rule fd_wf_set_fd) auto

lemma fd_wf_lock: "fd_wf s \<Longrightarrow> fd_wf (snd (alt_fd_lock fd s))"
  by (simp add: alt_fd_lock_def fd_wf_flags [where w = "\<lambda>e. fd_flags e OR ALT_FD_EXCL"])

lemma fd_wf_unlock: "fd_wf s \<Longrightarrow> fd_wf (snd (alt_fd_unlock fd s))"
  by (simp add: alt_fd_unlock_def fd_wf_flags [where w = "\<lambda>e. fd_flags e AND NOT ALT_FD_EXCL"])

text \<open>The mount point without its trailing slash.\<close>

definition mount :: "string \<Rightarrow> string" where
  "mount fs = (if last fs = CHR ''/'' then butlast fs else fs)"

lemma char_at_nth: "i < length str \<Longrightarrow> char_at str (int i) = Inr (str ! i)"
  by (simp add: char_at_def)

lemma mount_take:
  assumes "fs \<noteq> []"
  shows "(if last fs = CHR ''/'' then int (length fs) - 1 else int (length fs)) = int (length (mount fs))"
    and "take (length (mount fs)) fs = mount fs" and "length (mount fs) \<le> length fs"
  using assms by (auto simp: mount_def butlast_conv_take of_nat_diff Suc_le_eq)

lemma rest_iff:
  assumes "m = take n name" "n = length m"
  shows "(\<exists>rest. name = m @ rest \<and> P rest) \<longleftrightarrow> P (drop n name)"
  using assms by (metis append_take_drop_id append_eq_conv_conj)

lemma alt_fs_matches_eq:
  assumes "fs \<noteq> []" "c_string name"
  shows "alt_fs_matches fs name =
    (if length name < length (mount fs) then Inl Out_Of_Bounds
     else Inr (\<exists>rest. name = mount fs @ rest \<and> (rest = [] \<or> hd rest = CHR ''/'')))"
proof -
  let ?n = "length (mount fs)"
  note m = mount_take [OF assms(1)]
  have "char_at fs (int (length fs) - 1) = Inr (last fs)"
    using assms(1) char_at_nth [of "length fs - 1" fs] by (simp add: last_conv_nth of_nat_diff Suc_le_eq)
  then have step: "alt_fs_matches fs name = (case char_at name (int ?n) of Inl f \<Rightarrow> Inl f
      | Inr d \<Rightarrow> Inr ((d = CHR ''/'' \<or> d = CHR 0x00) \<and> memcmp_eq fs name ?n))"
    unfolding alt_fs_matches_def Let_def by (simp only: sum.case m(1) nat_int)
  show ?thesis
  proof (cases "length name < ?n")
    case True
    then show ?thesis by (simp add: step char_at_def)
  next
    case False
    then have eq: "memcmp_eq fs name ?n \<longleftrightarrow> mount fs = take ?n name"
      using m(2,3) by (simp add: memcmp_eq_def)
    have c: "char_at name (int ?n) = Inr (if ?n = length name then CHR 0x00 else name ! ?n)"
      using False by (simp add: char_at_def)
    have nz: "?n < length name \<Longrightarrow> name ! ?n \<noteq> CHR 0x00"
      using assms(2) unfolding c_string_def by (metis nth_mem)
    show ?thesis
    proof (cases "mount fs = take ?n name")
      case True
      have "(\<exists>rest. name = mount fs @ rest \<and> (rest = [] \<or> hd rest = CHR ''/'')) \<longleftrightarrow>
          (drop ?n name = [] \<or> hd (drop ?n name) = CHR ''/'')"
        by (rule rest_iff [OF True]) simp
      then show ?thesis
        using False nz True unfolding step c sum.case eq
        by (cases "?n = length name") (simp_all add: hd_drop_conv_nth)
    next
      case no: False
      then have "\<not> (\<exists>rest. name = mount fs @ rest \<and> (rest = [] \<or> hd rest = CHR ''/''))"
        by (metis append_eq_conv_conj)
      then show ?thesis using False no by (simp add: step c eq)
    qed
  qed
qed

section \<open>Properties\<close>

text \<open>Looking a device up by name always returns; it returns the first device of the
  list whose name is exactly the one asked for, and the null pointer when there is none.\<close>

theorem alt_find_dev_first_match:
  assumes "dllist (llists s) lst xs" and "named_devices s xs" and "0 \<notin> set xs"
  shows "\<exists>d. alt_find_dev name lst s = Some d
    \<and> (d = 0 \<longleftrightarrow> (\<forall>x\<in>set xs. dev_name (dev_at s x) \<noteq> Some name))
    \<and> (d \<noteq> 0 \<longrightarrow> (\<exists>as bs. xs = as @ d # bs \<and> dev_name (dev_at s d) = Some name
          \<and> (\<forall>x\<in>set as. dev_name (dev_at s x) \<noteq> Some name)))"
proof (cases "find (\<lambda>x. dev_name (dev_at s x) = Some name) xs")
  case None
  then have "first_named s name xs = 0" by (simp add: first_named_def)
  moreover have "\<forall>x\<in>set xs. dev_name (dev_at s x) \<noteq> Some name"
    using None by (simp add: find_None_iff)
  ultimately show ?thesis by (simp add: alt_find_dev_eq [OF assms(1,2)])
next
  case (Some d)
  then have d: "first_named s name xs = d" by (simp add: first_named_def)
  obtain i where i: "i < length xs" "dev_name (dev_at s (xs ! i)) = Some name" "d = xs ! i"
    "\<forall>j<i. dev_name (dev_at s (xs ! j)) \<noteq> Some name"
    using Some by (auto simp: find_Some_iff)
  then have "d \<in> set xs" by simp
  then have "d \<noteq> 0" using assms(3) by auto
  moreover have "xs = take i xs @ d # drop (Suc i) xs" using i by (simp add: id_take_nth_drop)
  moreover have "\<forall>x\<in>set (take i xs). dev_name (dev_at s x) \<noteq> Some name"
    using i by (auto simp: in_set_conv_nth)
  ultimately show ?thesis
    using i \<open>d \<in> set xs\<close> unfolding alt_find_dev_eq [OF assms(1,2)] d by blast
qed

text \<open>The descriptor pool hands out the lowest free descriptor and changes no other, keeps
  its invariant, moves the highwater mark to cover it, and answers \<open>-EMFILE\<close> exactly when all 32
  descriptors are in use.\<close>

theorem alt_get_fd_allocates_lowest:
  assumes "fd_wf s" and "alt_get_fd dev s = (rc, s')"
  shows "fd_wf s'
    \<and> (rc < 0 \<longleftrightarrow> (\<forall>i<ALT_MAX_FD. fd_dev (alt_fd_list s ! i) \<noteq> 0))
    \<and> (rc < 0 \<longrightarrow> rc = - EMFILE \<and> s' = s)
    \<and> (0 \<le> rc \<longrightarrow> nat rc < ALT_MAX_FD \<and> rc \<le> alt_max_fd s'
         \<and> fd_dev (alt_fd_list s ! nat rc) = 0 \<and> (\<forall>i<nat rc. fd_dev (alt_fd_list s ! i) \<noteq> 0)
         \<and> fd_dev (alt_fd_list s' ! nat rc) = dev
         \<and> (\<forall>i. i \<noteq> nat rc \<longrightarrow> alt_fd_list s' ! i = alt_fd_list s ! i))"
proof (cases "lowest_free s")
  case None
  then show ?thesis using assms lowest_free_NoneD [OF None]
    by (auto simp: alt_get_fd_eq EMFILE_def)
next
  case (Some j)
  note j = lowest_free_SomeD [OF Some]
  have "rc = int j" "s' = taken j dev s" using assms(2) Some by (simp_all add: alt_get_fd_eq)
  then show ?thesis
    using j fd_wf_taken [OF assms(1)] assms(1) lowest_free_standard [OF assms(1) Some]
    by (auto simp: taken_def fd_wf_def)
qed

text \<open>A file system matches a path exactly when the path is its mount point or continues
  it with a slash; but a path shorter than the mount point is read beyond its end.\<close>

theorem alt_fs_matches_mount_point:
  assumes "fs \<noteq> []" and "c_string name"
  shows "alt_fs_matches fs name =
    (if length name < length (mount fs) then Inl Out_Of_Bounds
     else Inr (\<exists>rest. name = mount fs @ rest \<and> (rest = [] \<or> hd rest = CHR ''/'')))"
  by (rule alt_fs_matches_eq [OF assms])

theorem alt_fs_matches_mount_point_witness:
  "alt_fs_matches ''/mnt/'' ''/mnt/a'' = Inr True \<and> alt_fs_matches ''/mnt'' ''/x'' = Inl Out_Of_Bounds"
proof -
  have "alt_fs_matches ''/mnt/'' ''/mnt/a'' = Inr True"
    by (subst alt_fs_matches_mount_point) (simp_all add: c_string_def mount_def)
  moreover have "alt_fs_matches ''/mnt'' ''/x'' = Inl Out_Of_Bounds"
    by (subst alt_fs_matches_mount_point) (simp_all add: c_string_def mount_def)
  ultimately show ?thesis by simp
qed

text \<open>
  A table for the witnesses: the null device at address 64 and one character device at 80,
  registered; only the standard descriptors are open.
\<close>

definition demo_dev :: alt_dev where
  "demo_dev = \<lparr>dev_name = Some ''/dev/jtag_uart'', dev_open = 0, dev_close = 0, dev_read = 0,
     dev_write = 500, dev_lseek = 0, dev_fstat = 0, dev_ioctl = 0\<rparr>"

definition demo_table :: fdtable where
  "demo_table = \<lparr>alt_errno = 0, status = 1, ienable = 0, alt_irq_active = 0,
     alt_priority_mask = -1, alt_irq = replicate 32 (0, 0),
     llists = alt_llist_insert 48 80 (alt_llist_insert 48 64 (ALT_LLIST_HEAD 48 (ALT_LLIST_HEAD 52
       \<lparr>next_of = (\<lambda>_. 0), prev_of = (\<lambda>_. 0)\<rparr>))), alt_alarm_list = 16,
     alarm_at = (\<lambda>_. \<lparr>time = 0, callback = 0, rollover = 0, cb_context = 0\<rparr>),
     tick_rate = 1000, nticks = 0, alt_dev_list = 48, alt_fs_list = 52, alt_flash_dev_list = 56,
     alt_dma_rxchan_list = 60, alt_dma_txchan_list = 61,
     dev_at = (\<lambda>a. if a = 80 then demo_dev else alt_dev_null 400),
     alt_fd_list = initial_fd_list 64, alt_max_fd = - 1\<rparr>"

lemma demo_table_list: "dllist (llists demo_table) (alt_dev_list demo_table) [80, 64]"
proof -
  have "dllist (llists demo_table) 48 [80, 64]"
    unfolding demo_table_def by (simp, intro dllist_insert dllist_head) auto
  then show ?thesis by (simp add: demo_table_def)
qed

lemma demo_table_wf: "fd_wf demo_table"
  by (rule fd_wf_initial [of 64]) (simp_all add: demo_table_def)

lemma demo_table_named: "named_devices demo_table [80, 64]"
  by (simp add: named_devices_def demo_table_def demo_dev_def alt_dev_null_def c_string_def)

theorem alt_find_dev_first_match_witness:
  "alt_find_dev ''/dev/jtag_uart'' (alt_dev_list demo_table) demo_table = Some 80"
proof -
  have "0 \<notin> set [80, 64 :: addr]" by simp
  from alt_find_dev_first_match [OF demo_table_list demo_table_named this, of "''/dev/jtag_uart''"]
  obtain d where d: "alt_find_dev ''/dev/jtag_uart'' (alt_dev_list demo_table) demo_table = Some d"
    "d \<noteq> 0" "d \<in> {80, 64}" "dev_name (dev_at demo_table d) = Some ''/dev/jtag_uart''"
    by (auto simp: demo_table_def demo_dev_def Cons_eq_append_conv)
  then show ?thesis by (auto simp: demo_table_def alt_dev_null_def)
qed

theorem alt_get_fd_allocates_lowest_witness:
  "fst (alt_get_fd 80 demo_table) = 3 \<and> fd_wf (snd (alt_get_fd 80 demo_table))"
proof -
  obtain rc s' where r: "alt_get_fd 80 demo_table = (rc, s')" by fastforce
  have "alt_fd_list demo_table = initial_fd_list 64" by (simp add: demo_table_def)
  then have f: "fd_dev (alt_fd_list demo_table ! 3) = 0" "\<forall>i<3. fd_dev (alt_fd_list demo_table ! i) = 64"
    by (auto simp: initial_fd_list_def ALT_MAX_FD_def nth_append)
  note p = alt_get_fd_allocates_lowest [OF demo_table_wf r]
  have "0 \<le> rc" using p f(1) by (auto simp: ALT_MAX_FD_def not_less)
  then have "nat rc = 3"
  proof (cases "nat rc" "3 :: nat" rule: linorder_cases)
    case less
    then show ?thesis using p f(2) \<open>0 \<le> rc\<close> by auto
  next
    case greater
    then show ?thesis using p f(1) \<open>0 \<le> rc\<close> by auto
  qed
  then show ?thesis using r p \<open>0 \<le> rc\<close> by auto
qed

end
