(* ===== verification/Posix_Io.thy ===== *)
theory Posix_Io
  imports Fd_Table
begin

text \<open>
  The Unix-style calls on descriptors: \<^verbatim>\<open>HAL/src/alt_open.c\<close>, \<^verbatim>\<open>alt_close.c\<close>,
  \<^verbatim>\<open>alt_read.c\<close>, \<^verbatim>\<open>alt_write.c\<close>, \<^verbatim>\<open>alt_lseek.c\<close>, \<^verbatim>\<open>alt_ioctl.c\<close>,
  \<^verbatim>\<open>alt_fcntl.c\<close>, \<^verbatim>\<open>alt_fstat.c\<close>, \<^verbatim>\<open>alt_isatty.c\<close>, \<^verbatim>\<open>alt_stat.c\<close> and
  \<^verbatim>\<open>alt_io_redirect.c\<close>, in the configuration without direct drivers. What the driver
  functions do is a parameter; what the calls rely on is the locale \<open>quiet_driver\<close>.
\<close>

section \<open>Drivers\<close>

text \<open>
  \<open>d_read ops f\<close> is the function at address \<open>f\<close> called with a descriptor and a length: its
  result and the bytes it stored. Reading, writing and closing may block for ever, which is \<open>None\<close>.
\<close>

record 's driver_ops =
  d_open :: "addr \<Rightarrow> nat \<Rightarrow> string \<Rightarrow> alt_u32 \<Rightarrow> alt_u32 \<Rightarrow> 's \<Rightarrow> int \<times> 's"
  d_close :: "addr \<Rightarrow> nat \<Rightarrow> 's \<Rightarrow> (int \<times> 's) option"
  d_read :: "addr \<Rightarrow> nat \<Rightarrow> int \<Rightarrow> 's \<Rightarrow> ((int \<times> alt_u8 list) \<times> 's) option"
  d_write :: "addr \<Rightarrow> nat \<Rightarrow> alt_u8 list \<Rightarrow> int \<Rightarrow> 's \<Rightarrow> (int \<times> 's) option"
  d_lseek :: "addr \<Rightarrow> nat \<Rightarrow> int \<Rightarrow> int \<Rightarrow> 's \<Rightarrow> int \<times> 's"
  d_fstat :: "addr \<Rightarrow> nat \<Rightarrow> 's \<Rightarrow> (int \<times> alt_u32) \<times> 's"
  d_ioctl :: "addr \<Rightarrow> nat \<Rightarrow> int \<Rightarrow> addr \<Rightarrow> 's \<Rightarrow> int \<times> 's"

definition O_RDONLY :: alt_u32 where "O_RDONLY = 0"
definition O_WRONLY :: alt_u32 where "O_WRONLY = 1"
definition O_ACCMODE :: alt_u32 where "O_ACCMODE = 3"
definition O_APPEND :: alt_u32 where "O_APPEND = 8"
definition O_NONBLOCK :: alt_u32 where "O_NONBLOCK = 0x4000"
definition F_GETFL :: int where "F_GETFL = 3"
definition F_SETFL :: int where "F_SETFL = 4"
definition S_IFCHR :: alt_u32 where "S_IFCHR = 0x2000"
definition TIOCEXCL :: int where "TIOCEXCL = 0x740d"
definition TIOCNXCL :: int where "TIOCNXCL = 0x740e"

text \<open>
  \<^verbatim>\<open>fd = (file < 0) ? NULL : &alt_fd_list[file]\<close>: no upper bound is tested, so a
  descriptor from 32 on is outside the table.
\<close>

definition fd_of :: "int \<Rightarrow> 'a fdtable_scheme \<Rightarrow> nat option c_result" where
  "fd_of file s =
     (if file < 0 then Inr None
      else if nat file < length (alt_fd_list s) then Inr (Some (nat file)) else Inl Out_Of_Bounds)"

text \<open>\<^verbatim>\<open>fd->dev->\<close>: a closed descriptor has a null device.\<close>

definition dev_of :: "nat \<Rightarrow> 'a fdtable_scheme \<Rightarrow> alt_dev c_result" where
  "dev_of fd s =
     (let d = fd_dev (alt_fd_list s ! fd) in if d = 0 then Inl Null_Pointer else Inr (dev_at s d))"

section \<open>Open and close\<close>

definition alt_file_locked :: "nat \<Rightarrow> 'a fdtable_scheme \<Rightarrow> int \<times> 'a fdtable_scheme" where
  "alt_file_locked fd s =
     (let s1 = set_fd fd (\<lambda>e. e\<lparr>fd_flags := fd_flags e OR ALT_FD_DEV\<rparr>) s in
      if list_ex (\<lambda>i. fd_dev (alt_fd_list s1 ! i) = fd_dev (alt_fd_list s1 ! fd)
                    \<and> fd_flags (alt_fd_list s1 ! i) AND ALT_FD_EXCL \<noteq> 0 \<and> i \<noteq> fd)
           [0..<nat (alt_max_fd s1 + 1)]
      then (- EACCES, s1) else (0, s1))"

text \<open>The part of \<^verbatim>\<open>open()\<close> after the device was found: \<open>isafs\<close> for a file system.\<close>

definition alt_open_found ::
  "'a fdtable_scheme driver_ops \<Rightarrow> string \<Rightarrow> alt_u32 \<Rightarrow> alt_u32 \<Rightarrow> addr \<Rightarrow> bool \<Rightarrow> 'a fdtable_scheme
   \<Rightarrow> int \<times> 'a fdtable_scheme" where
  "alt_open_found ops file flags md dev isafs s =
     (let (index, stat, s3) =
        (if dev \<noteq> 0 then
           (let (index, s1) = alt_get_fd dev s in
            if index < 0 then (index, index, s1)
            else
              (let fd = nat index;
                   s2 = set_fd fd (\<lambda>e. e\<lparr>fd_flags := flags AND NOT ALT_FD_FLAGS_MASK\<rparr>) s1;
                   (stat, s3) = (if isafs then (0, s2) else alt_file_locked fd s2)
               in if isafs \<or> stat \<ge> 0 then
                    (if dev_open (dev_at s3 dev) \<noteq> 0
                     then (let (r, s4) = d_open ops (dev_open (dev_at s3 dev)) fd file flags md s3
                           in (index, r, s4))
                     else (index, 0, s3))
                  else (index, stat, s3)))
         else (- 1, - ENODEV, s))
      in if stat < 0 then (- 1, (alt_release_fd index s3)\<lparr>alt_errno := - stat\<rparr>) else (index, s3))"

definition ALT_OPEN ::
  "'a fdtable_scheme driver_ops \<Rightarrow> string \<Rightarrow> alt_u32 \<Rightarrow> alt_u32 \<Rightarrow> 'a fdtable_scheme
   \<Rightarrow> (int \<times> 'a fdtable_scheme) c_result option" where
  "ALT_OPEN ops file flags md s =
     do {
       d \<leftarrow> alt_find_dev file (alt_dev_list s) s;
       (if d \<noteq> 0 then Some (Inr (alt_open_found ops file flags md d False s))
        else do {
          r \<leftarrow> alt_find_file file s;
          Some (case r of Inl f \<Rightarrow> Inl f
                | Inr fs \<Rightarrow> Inr (alt_open_found ops file flags md fs True s))
        })
     }"

definition ALT_CLOSE ::
  "'a fdtable_scheme driver_ops \<Rightarrow> int \<Rightarrow> 'a fdtable_scheme \<Rightarrow> (int \<times> 'a fdtable_scheme) c_result option"
where
  "ALT_CLOSE ops fildes s =
     (case fd_of fildes s of
        Inl f \<Rightarrow> Some (Inl f)
      | Inr None \<Rightarrow> Some (Inr (- 1, s\<lparr>alt_errno := EBADFD\<rparr>))
      | Inr (Some fd) \<Rightarrow>
          (case dev_of fd s of
             Inl f \<Rightarrow> Some (Inl f)
           | Inr dev \<Rightarrow>
               do {
                 r \<leftarrow> (if dev_close dev \<noteq> 0 then d_close ops (dev_close dev) fd s else Some (0, s));
                 (let (rval, s1) = r; s2 = alt_release_fd fildes s1
                  in Some (Inr (if rval < 0 then (- 1, s2\<lparr>alt_errno := - rval\<rparr>) else (0, s2))))
               }))"

section \<open>Transfers\<close>

definition ALT_READ ::
  "'a fdtable_scheme driver_ops \<Rightarrow> int \<Rightarrow> int \<Rightarrow> 'a fdtable_scheme
   \<Rightarrow> ((int \<times> alt_u8 list) \<times> 'a fdtable_scheme) c_result option" where
  "ALT_READ ops file len s =
     (case fd_of file s of
        Inl f \<Rightarrow> Some (Inl f)
      | Inr None \<Rightarrow> Some (Inr ((- 1, []), s\<lparr>alt_errno := EBADFD\<rparr>))
      | Inr (Some fd) \<Rightarrow>
          if fd_flags (alt_fd_list s ! fd) AND O_ACCMODE \<noteq> O_WRONLY then
            (case dev_of fd s of
               Inl f \<Rightarrow> Some (Inl f)
             | Inr dev \<Rightarrow>
                 if dev_read dev \<noteq> 0 then
                   do {
                     r \<leftarrow> d_read ops (dev_read dev) fd len s;
                     (let ((rval, bs), s1) = r in
                      if rval < 0 then Some (Inr ((- 1, bs), s1\<lparr>alt_errno := - rval\<rparr>))
                      else Some (Inr ((rval, bs), s1)))
                   }
                 else Some (Inr ((- 1, []), s\<lparr>alt_errno := EACCES\<rparr>)))
          else Some (Inr ((- 1, []), s\<lparr>alt_errno := EACCES\<rparr>)))"

definition ALT_WRITE ::
  "'a fdtable_scheme driver_ops \<Rightarrow> int \<Rightarrow> alt_u8 list \<Rightarrow> int \<Rightarrow> 'a fdtable_scheme
   \<Rightarrow> (int \<times> 'a fdtable_scheme) c_result option" where
  "ALT_WRITE ops file ptr len s =
     (case fd_of file s of
        Inl f \<Rightarrow> Some (Inl f)
      | Inr None \<Rightarrow> Some (Inr (- 1, s\<lparr>alt_errno := EBADFD\<rparr>))
      | Inr (Some fd) \<Rightarrow>
          if fd_flags (alt_fd_list s ! fd) AND O_ACCMODE \<noteq> O_RDONLY then
            (case dev_of fd s of
               Inl f \<Rightarrow> Some (Inl f)
             | Inr dev \<Rightarrow>
                 if dev_write dev \<noteq> 0 then
                   do {
                     r \<leftarrow> d_write ops (dev_write dev) fd ptr len s;
                     (let (rval, s1) = r in
                      if rval < 0 then Some (Inr (- 1, s1\<lparr>alt_errno := - rval\<rparr>))
                      else Some (Inr (rval, s1)))
                   }
                 else Some (Inr (- 1, s\<lparr>alt_errno := EACCES\<rparr>)))
          else Some (Inr (- 1, s\<lparr>alt_errno := EACCES\<rparr>)))"

definition ALT_LSEEK ::
  "'a fdtable_scheme driver_ops \<Rightarrow> int \<Rightarrow> int \<Rightarrow> int \<Rightarrow> 'a fdtable_scheme
   \<Rightarrow> (int \<times> 'a fdtable_scheme) c_result" where
  "ALT_LSEEK ops file ptr dir s =
     (case fd_of file s of
        Inl f \<Rightarrow> Inl f
      | Inr None \<Rightarrow> Inr (- 1, s\<lparr>alt_errno := EBADFD\<rparr>)
      | Inr (Some fd) \<Rightarrow>
          (case dev_of fd s of
             Inl f \<Rightarrow> Inl f
           | Inr dev \<Rightarrow>
               (let (rc, s1) = (if dev_lseek dev \<noteq> 0 then d_lseek ops (dev_lseek dev) fd ptr dir s
                                else (- ENOTSUP, s))
                in Inr (if rc < 0 then (- 1, s1\<lparr>alt_errno := - rc\<rparr>) else (rc, s1)))))"

section \<open>Control and status\<close>

definition ALT_IOCTL ::
  "'a fdtable_scheme driver_ops \<Rightarrow> int \<Rightarrow> int \<Rightarrow> addr \<Rightarrow> 'a fdtable_scheme
   \<Rightarrow> (int \<times> 'a fdtable_scheme) c_result" where
  "ALT_IOCTL ops file req arg s =
     (let ioctl_done = (\<lambda>(rc, t). Inr (rc, if rc < 0 then t\<lparr>alt_errno := - rc\<rparr> else t)) in
      case fd_of file s of
        Inl f \<Rightarrow> Inl f
      | Inr None \<Rightarrow> ioctl_done (- EBADFD, s)
      | Inr (Some fd) \<Rightarrow>
          if fd_flags (alt_fd_list s ! fd) AND ALT_FD_DEV \<noteq> 0 \<and> req = TIOCEXCL then
            ioctl_done (alt_fd_lock fd s)
          else if fd_flags (alt_fd_list s ! fd) AND ALT_FD_DEV \<noteq> 0 \<and> req = TIOCNXCL then
            ioctl_done (alt_fd_unlock fd s)
          else
            (case dev_of fd s of
               Inl f \<Rightarrow> Inl f
             | Inr dev \<Rightarrow>
                 ioctl_done (if dev_ioctl dev \<noteq> 0 then d_ioctl ops (dev_ioctl dev) fd req arg s
                             else (- ENOTTY, s))))"

definition ALT_FCNTL_FLAGS_MASK :: alt_u32 where
  "ALT_FCNTL_FLAGS_MASK = O_APPEND OR O_NONBLOCK"

definition ALT_FCNTL ::
  "int \<Rightarrow> int \<Rightarrow> alt_u32 \<Rightarrow> 'a fdtable_scheme \<Rightarrow> (int \<times> 'a fdtable_scheme) c_result" where
  "ALT_FCNTL file cmd flags s =
     (case fd_of file s of
        Inl f \<Rightarrow> Inl f
      | Inr None \<Rightarrow> Inr (- 1, s\<lparr>alt_errno := EBADFD\<rparr>)
      | Inr (Some fd) \<Rightarrow>
          if cmd = F_GETFL then
            Inr (sint (fd_flags (alt_fd_list s ! fd) AND NOT ALT_FD_FLAGS_MASK), s)
          else if cmd = F_SETFL then
            (let s1 = set_fd fd (\<lambda>e. e\<lparr>fd_flags := fd_flags e AND NOT ALT_FCNTL_FLAGS_MASK\<rparr>) s;
                 s2 = set_fd fd (\<lambda>e. e\<lparr>fd_flags := fd_flags e OR (flags AND ALT_FCNTL_FLAGS_MASK)\<rparr>) s1
             in Inr (0, s2))
          else Inr (- 1, s\<lparr>alt_errno := EINVAL\<rparr>))"

text \<open>The result of \<^verbatim>\<open>fstat()\<close> comes with the mode it stored, if it stored one.\<close>

definition ALT_FSTAT ::
  "'a fdtable_scheme driver_ops \<Rightarrow> int \<Rightarrow> 'a fdtable_scheme
   \<Rightarrow> ((int \<times> alt_u32 option) \<times> 'a fdtable_scheme) c_result" where
  "ALT_FSTAT ops file s =
     (case fd_of file s of
        Inl f \<Rightarrow> Inl f
      | Inr None \<Rightarrow> Inr ((- 1, None), s\<lparr>alt_errno := EBADFD\<rparr>)
      | Inr (Some fd) \<Rightarrow>
          (case dev_of fd s of
             Inl f \<Rightarrow> Inl f
           | Inr dev \<Rightarrow>
               if dev_fstat dev \<noteq> 0 then
                 (let ((rc, md), s1) = d_fstat ops (dev_fstat dev) fd s in Inr ((rc, Some md), s1))
               else Inr ((0, Some S_IFCHR), s)))"

definition ALT_ISATTY ::
  "'a fdtable_scheme driver_ops \<Rightarrow> int \<Rightarrow> 'a fdtable_scheme \<Rightarrow> (int \<times> 'a fdtable_scheme) c_result" where
  "ALT_ISATTY ops file s =
     (case fd_of file s of
        Inl f \<Rightarrow> Inl f
      | Inr None \<Rightarrow> Inr (0, s\<lparr>alt_errno := EBADFD\<rparr>)
      | Inr (Some fd) \<Rightarrow>
          (case dev_of fd s of
             Inl f \<Rightarrow> Inl f
           | Inr dev \<Rightarrow>
               if dev_fstat dev = 0 then Inr (1, s)
               else (case ALT_FSTAT ops file s of
                       Inl f \<Rightarrow> Inl f
                     | Inr ((rc, md), s1) \<Rightarrow> Inr (if md = Some S_IFCHR then 1 else 0, s1))))"

definition ALT_STAT ::
  "'a fdtable_scheme driver_ops \<Rightarrow> string \<Rightarrow> 'a fdtable_scheme
   \<Rightarrow> ((int \<times> alt_u32 option) \<times> 'a fdtable_scheme) c_result option" where
  "ALT_STAT ops file s =
     do {
       o1 \<leftarrow> ALT_OPEN ops file 0 0 s;
       (case o1 of
         Inl f \<Rightarrow> Some (Inl f)
       | Inr (fd, s1) \<Rightarrow>
           (case ALT_FSTAT ops fd s1 of
              Inl f \<Rightarrow> Some (Inl f)
            | Inr (rc, s2) \<Rightarrow>
                do {
                  c \<leftarrow> ALT_CLOSE ops fd s2;
                  Some (case c of Inl f \<Rightarrow> Inl f | Inr (_, s3) \<Rightarrow> Inr (rc, s3))
                }))
     }"

section \<open>Redirecting the standard descriptors\<close>

definition alt_open_fd ::
  "'a fdtable_scheme driver_ops \<Rightarrow> nat \<Rightarrow> string \<Rightarrow> alt_u32 \<Rightarrow> alt_u32 \<Rightarrow> 'a fdtable_scheme
   \<Rightarrow> 'a fdtable_scheme c_result option" where
  "alt_open_fd ops fd name flags md s =
     do {
       o1 \<leftarrow> ALT_OPEN ops name flags md s;
       Some (case o1 of
         Inl f \<Rightarrow> Inl f
       | Inr (old, s1) \<Rightarrow>
           Inr (if old \<ge> 0 then
                  alt_release_fd old (set_fd fd (\<lambda>e. e\<lparr>
                      fd_dev := fd_dev (alt_fd_list s1 ! nat old),
                      fd_priv := fd_priv (alt_fd_list s1 ! nat old),
                      fd_flags := fd_flags (alt_fd_list s1 ! nat old)\<rparr>) s1)
                else s1))
     }"

definition alt_io_redirect ::
  "'a fdtable_scheme driver_ops \<Rightarrow> string \<Rightarrow> string \<Rightarrow> string \<Rightarrow> 'a fdtable_scheme
   \<Rightarrow> 'a fdtable_scheme c_result option" where
  "alt_io_redirect ops stdout_dev stdin_dev stderr_dev s =
     do {
       r1 \<leftarrow> alt_open_fd ops 1 stdout_dev O_WRONLY 0x1ff s;
       (case r1 of Inl f \<Rightarrow> Some (Inl f) | Inr s1 \<Rightarrow> do {
          r2 \<leftarrow> alt_open_fd ops 0 stdin_dev O_RDONLY 0x1ff s1;
          (case r2 of Inl f \<Rightarrow> Some (Inl f) | Inr s2 \<Rightarrow>
             alt_open_fd ops 2 stderr_dev O_WRONLY 0x1ff s2)
        })
     }"

section \<open>What the calls rely on\<close>

text \<open>The part of the state that belongs to the descriptor table and the device lists.\<close>

definition fd_view :: "'a fdtable_scheme
   \<Rightarrow> alt_fd list \<times> int \<times> (addr \<Rightarrow> alt_dev) \<times> llheap \<times> addr \<times> addr" where
  "fd_view s = (alt_fd_list s, alt_max_fd s, dev_at s, llists s, alt_dev_list s, alt_fs_list s)"

lemma fd_view_eqD:
  assumes "fd_view s = fd_view t"
  shows "alt_fd_list s = alt_fd_list t" "alt_max_fd s = alt_max_fd t" "dev_at s = dev_at t"
    "llists s = llists t" "alt_dev_list s = alt_dev_list t" "alt_fs_list s = alt_fs_list t"
  using assms by (simp_all add: fd_view_def)

lemma fd_wf_view: "fd_view s = fd_view t \<Longrightarrow> fd_wf s \<longleftrightarrow> fd_wf t"
  by (simp add: fd_wf_def fd_view_def)

lemma fd_wf_errno [simp]: "fd_wf (s\<lparr>alt_errno := e\<rparr>) \<longleftrightarrow> fd_wf s"
  by (simp add: fd_wf_def)

lemma file_locked_simps:
  "alt_fd_list (snd (alt_file_locked j s)) =
     (alt_fd_list s)[j := (alt_fd_list s ! j)\<lparr>fd_flags := fd_flags (alt_fd_list s ! j) OR ALT_FD_DEV\<rparr>]"
  "alt_max_fd (snd (alt_file_locked j s)) = alt_max_fd s"
  "dev_at (snd (alt_file_locked j s)) = dev_at s"
  "llists (snd (alt_file_locked j s)) = llists s"
  "alt_dev_list (snd (alt_file_locked j s)) = alt_dev_list s"
  by (simp_all add: alt_file_locked_def Let_def)

lemma fd_view_errno [simp]: "fd_view (s\<lparr>alt_errno := e\<rparr>) = fd_view s"
  by (simp add: fd_view_def)

lemma fd_view_release: "fd_view s = fd_view t \<Longrightarrow> fd_view (alt_release_fd fd s) = fd_view (alt_release_fd fd t)"
  by (simp add: fd_view_def alt_release_fd_def)

lemma open_found_unlocked:
  assumes wf: "fd_wf s" and dev: "dev \<noteq> 0" "dev_open (dev_at s dev) = 0"
    and free: "lowest_free s = Some j"
    and unlocked: "\<And>i. i < ALT_MAX_FD \<Longrightarrow> fd_flags (alt_fd_list s ! i) AND ALT_FD_EXCL = 0"
    and res: "alt_open_found ops file flags md dev False s = (rc, s')"
  shows "rc = int j \<and> fd_flags (alt_fd_list s' ! j) = flags AND NOT ALT_FD_FLAGS_MASK OR ALT_FD_DEV"
proof -
  note j = lowest_free_SomeD [OF free]
  have len: "length (alt_fd_list s) = ALT_MAX_FD" and mx: "alt_max_fd s < int ALT_MAX_FD"
    using wf by (simp_all add: fd_wf_def)
  let ?s2 = "set_fd j (\<lambda>e. e\<lparr>fd_flags := flags AND NOT ALT_FD_FLAGS_MASK\<rparr>) (taken j dev s)"
  have "\<not> list_ex (\<lambda>i. fd_dev ((alt_fd_list s)[j := w] ! i) = d
      \<and> fd_flags ((alt_fd_list s)[j := w] ! i) AND ALT_FD_EXCL \<noteq> 0 \<and> i \<noteq> j)
      [0..<nat (max (alt_max_fd s) (int j) + 1)]" for w d
    using unlocked mx j by (auto simp: list_ex_iff)
  then have "fst (alt_file_locked j ?s2) = 0"
    using len j by (simp add: alt_file_locked_def Let_def taken_def)
  moreover have "dev_at (snd (alt_file_locked j ?s2)) = dev_at s"
    by (simp add: file_locked_simps taken_def)
  ultimately have "rc = int j" "s' = snd (alt_file_locked j ?s2)"
    using res free dev by (auto simp: alt_open_found_def alt_get_fd_eq Let_def split: prod.splits)
  then show ?thesis using len j by (simp add: file_locked_simps taken_def)
qed

text \<open>The contract of a driver: its functions leave the table and the lists alone.\<close>

locale quiet_driver =
  fixes ops :: "'a fdtable_scheme driver_ops"
  assumes open_quiet: "fd_view (snd (d_open ops f i name flags md s)) = fd_view s"
    and close_quiet: "d_close ops f i s = Some (rc, s') \<Longrightarrow> fd_view s' = fd_view s"
    and read_quiet: "d_read ops f i len s = Some (r, s') \<Longrightarrow> fd_view s' = fd_view s"
    and write_quiet: "d_write ops f i bs len s = Some (rc, s') \<Longrightarrow> fd_view s' = fd_view s"
    and lseek_quiet: "fd_view (snd (d_lseek ops f i ptr dir s)) = fd_view s"
    and fstat_quiet: "fd_view (snd (d_fstat ops f i s)) = fd_view s"
    and ioctl_quiet: "fd_view (snd (d_ioctl ops f i req arg s)) = fd_view s"
begin

text \<open>
  What opening a device or file system that was found does to the table: nothing, or the
  lowest free descriptor is taken, and kept only on success.
\<close>

lemma open_found:
  assumes wf: "fd_wf s" and dev: "dev \<noteq> 0"
    and res: "alt_open_found ops file flags md dev isafs s = (rc, s')"
  shows "fd_wf s' \<and> alt_dev_list s' = alt_dev_list s \<and> llists s' = llists s \<and> dev_at s' = dev_at s
    \<and> (case lowest_free s of
         None \<Rightarrow> rc = - 1 \<and> s' = s\<lparr>alt_errno := EMFILE\<rparr>
       | Some j \<Rightarrow> 2 < j \<and> j < ALT_MAX_FD \<and> alt_max_fd s' = max (alt_max_fd s) (int j)
           \<and> (\<forall>i. i \<noteq> j \<longrightarrow> alt_fd_list s' ! i = alt_fd_list s ! i)
           \<and> (rc = int j \<and> fd_dev (alt_fd_list s' ! j) = dev
                \<and> fd_priv (alt_fd_list s' ! j) = fd_priv (alt_fd_list s ! j)
              \<or> rc = - 1 \<and> alt_fd_list s' ! j = (alt_fd_list s ! j)\<lparr>fd_flags := 0\<rparr>))"
proof (cases "lowest_free s")
  case None
  then show ?thesis
    using wf dev res by (auto simp: alt_open_found_def alt_get_fd_eq alt_release_fd_def EMFILE_def)
next
  case (Some j)
  note j = lowest_free_SomeD [OF Some] and j2 = lowest_free_standard [OF wf Some]
  let ?flags = "flags AND NOT ALT_FD_FLAGS_MASK"
  define s2 where "s2 = set_fd j (\<lambda>e. e\<lparr>fd_flags := ?flags\<rparr>) (taken j dev s)"
  define st3 where "st3 = (if isafs then (0, s2) else alt_file_locked j s2)"
  define s3 where "s3 = snd st3"
  have len: "length (alt_fd_list s) = ALT_MAX_FD" using wf by (simp add: fd_wf_def)
  have wf2: "fd_wf s2"
    unfolding s2_def by (rule fd_wf_flags [where w = "\<lambda>_. ?flags"]) (use wf j j2 in \<open>simp add: fd_wf_taken\<close>)
  have wf3: "fd_wf s3"
    using wf2 fd_wf_flags [OF wf2, of j "\<lambda>e. fd_flags e OR ALT_FD_DEV"]
    by (simp add: s3_def st3_def alt_file_locked_def Let_def)
  let ?w = "if isafs then ?flags else ?flags OR ALT_FD_DEV"
  have l3: "alt_fd_list s3 = (alt_fd_list s)[j := (alt_fd_list s ! j)\<lparr>fd_dev := dev, fd_flags := ?w\<rparr>]"
    and v3: "alt_max_fd s3 = max (alt_max_fd s) (int j)" "dev_at s3 = dev_at s" "llists s3 = llists s"
      "alt_dev_list s3 = alt_dev_list s"
    using j len by (simp_all add: s3_def st3_def s2_def file_locked_simps taken_def)
  have fold_up: "alt_open_found ops file flags md dev isafs s =
      (let (stat, s4) =
         (if isafs \<or> fst st3 \<ge> 0 then
            (if dev_open (dev_at s3 dev) \<noteq> 0
             then d_open ops (dev_open (dev_at s3 dev)) j file flags md s3 else (0, s3))
          else (fst st3, s3))
       in if stat < 0 then (- 1, (alt_release_fd (int j) s4)\<lparr>alt_errno := - stat\<rparr>) else (int j, s4))"
    using dev Some
    by (simp add: alt_open_found_def alt_get_fd_eq s3_def st3_def s2_def Let_def split: prod.splits)
  obtain stat s4 where s4: "(if isafs \<or> fst st3 \<ge> 0 then
            (if dev_open (dev_at s3 dev) \<noteq> 0
             then d_open ops (dev_open (dev_at s3 dev)) j file flags md s3 else (0, s3))
          else (fst st3, s3)) = (stat, s4)" by fastforce
  then have view: "fd_view s4 = fd_view s3"
    using open_quiet [of "dev_open (dev_at s3 dev)" j "file" flags md s3] by (auto split: if_splits)
  note v4 = fd_view_eqD [OF view]
  have wf4: "fd_wf s4" using wf3 fd_wf_view [OF view] by simp
  have out: "(rc, s') = (if stat < 0 then (- 1, (alt_release_fd (int j) s4)\<lparr>alt_errno := - stat\<rparr>)
      else (int j, s4))"
    using res fold_up s4 by simp
  show ?thesis
  proof (cases "stat < 0")
    case True
    then show ?thesis
      using out Some j j2 len v3 v4 l3 wf4 fd_wf_release [OF wf4, of "int j"]
      by (auto simp: alt_release_fd_def)
  next
    case False
    then show ?thesis
      using out Some j j2 len v3 v4 l3 wf4 by auto
  qed
qed

lemma open_found_null:
  "alt_open_found ops file flags md 0 isafs s = (- 1, s\<lparr>alt_errno := ENODEV\<rparr>)"
  by (simp add: alt_open_found_def alt_release_fd_def ENODEV_def)

lemma open_cases:
  assumes "ALT_OPEN ops file flags md s = Some (Inr (rc, s'))"
  obtains dev isafs where "alt_open_found ops file flags md dev isafs s = (rc, s')"
    "alt_find_dev file (alt_dev_list s) s = Some (if isafs then 0 else dev)"
  using assms
  by (auto simp: ALT_OPEN_def split: Option.bind_splits if_splits sum.splits)

lemma wf_open:
  assumes "fd_wf s" "ALT_OPEN ops file flags md s = Some (Inr (rc, s'))"
  shows "fd_wf s'"
proof -
  obtain dev isafs where f: "alt_open_found ops file flags md dev isafs s = (rc, s')"
    by (rule open_cases [OF assms(2)])
  show ?thesis
  proof (cases "dev = 0")
    case True
    then have "s' = s\<lparr>alt_errno := ENODEV\<rparr>" using f open_found_null by simp
    then show ?thesis using assms(1) by simp
  next
    case False
    from open_found [OF assms(1) False f] show ?thesis by blast
  qed
qed

text \<open>Closing an open descriptor.\<close>

lemma close_open:
  assumes "fd_of fd s = Inr (Some i)" "fd_dev (alt_fd_list s ! i) \<noteq> 0" "ALT_CLOSE ops fd s = Some r"
  shows "\<exists>rc s2. r = Inr (rc, s2) \<and> fd_view s2 = fd_view (alt_release_fd fd s)"
proof -
  let ?dev = "dev_at s (fd_dev (alt_fd_list s ! i))"
  obtain rval s1 where c: "(if dev_close ?dev \<noteq> 0 then d_close ops (dev_close ?dev) i s else Some (0, s))
      = Some (rval, s1)"
    and r: "r = Inr (if rval < 0 then (- 1, (alt_release_fd fd s1)\<lparr>alt_errno := - rval\<rparr>)
                     else (0, alt_release_fd fd s1))"
    using assms by (auto simp: ALT_CLOSE_def dev_of_def Let_def split: Option.bind_splits)
  have v: "fd_view s1 = fd_view s"
    using c close_quiet by (auto split: if_splits)
  then show ?thesis using r fd_view_release [OF v] by (cases "rval < 0") auto
qed

lemma close_returns:
  assumes "\<And>f i t. d_close ops f i t \<noteq> None"
  shows "ALT_CLOSE ops fd s \<noteq> None"
proof -
  have n: "(d_close ops f i t = None) = False" for f i t using assms by (simp only: simp_thms)
  show ?thesis
    by (auto simp: ALT_CLOSE_def Let_def n split: sum.splits option.splits Option.bind_splits prod.splits if_splits)
qed

lemma wf_close:
  assumes "fd_wf s" "ALT_CLOSE ops fd s = Some (Inr (rc, s'))"
  shows "fd_wf s'"
proof (cases "fd_of fd s")
  case (Inr o1)
  show ?thesis
  proof (cases o1)
    case None
    then show ?thesis using assms Inr by (auto simp: ALT_CLOSE_def)
  next
    case (Some i)
    then have "fd_dev (alt_fd_list s ! i) \<noteq> 0"
      using assms(2) Inr by (auto simp: ALT_CLOSE_def dev_of_def)
    moreover have "fd_of fd s = Inr (Some i)" using Inr Some by simp
    ultimately have v: "fd_view s' = fd_view (alt_release_fd fd s)"
      using close_open [of fd s i] assms(2) by auto
    then show ?thesis using fd_wf_view [OF v] fd_wf_release [OF assms(1)] by simp
  qed
qed (use assms in \<open>simp add: ALT_CLOSE_def\<close>)

lemma open_close:
  assumes cl: "\<And>f i t. d_close ops f i t \<noteq> None"
    and wf: "fd_wf s" and op: "ALT_OPEN ops file flags md s = Some (Inr (fd, s1))" and ok: "fd \<noteq> - 1"
  shows "\<exists>rc s2. ALT_CLOSE ops fd s1 = Some (Inr (rc, s2)) \<and> fd_wf s2
    \<and> alt_fd_list s2 = (alt_fd_list s)[nat fd := (alt_fd_list s ! nat fd)\<lparr>fd_flags := 0\<rparr>]"
proof -
  obtain dev isafs where f: "alt_open_found ops file flags md dev isafs s = (fd, s1)"
    by (rule open_cases [OF op])
  have dev: "dev \<noteq> 0" using f ok by (auto simp: open_found_null)
  note found = open_found [OF wf dev f]
  then obtain j where j: "lowest_free s = Some j" "2 < j" "j < ALT_MAX_FD" "fd = int j"
    "\<forall>i. i \<noteq> j \<longrightarrow> alt_fd_list s1 ! i = alt_fd_list s ! i"
    "fd_dev (alt_fd_list s1 ! j) = dev" "fd_priv (alt_fd_list s1 ! j) = fd_priv (alt_fd_list s ! j)"
    using ok by (cases "lowest_free s") auto
  have wf1: "fd_wf s1" and len: "length (alt_fd_list s1) = ALT_MAX_FD" "length (alt_fd_list s) = ALT_MAX_FD"
    using found wf by (simp_all add: fd_wf_def)
  have "fd_of fd s1 = Inr (Some j)" using j len by (simp add: fd_of_def)
  moreover obtain r where r: "ALT_CLOSE ops fd s1 = Some r" using close_returns [OF cl] by fastforce
  ultimately obtain rc s2 where
    c: "ALT_CLOSE ops fd s1 = Some (Inr (rc, s2))" "fd_view s2 = fd_view (alt_release_fd fd s1)"
    using close_open [of fd s1 j r] j(6) dev by auto
  have "alt_fd_list s2 = (alt_fd_list s1)[j := (alt_fd_list s1 ! j)\<lparr>fd_flags := 0, fd_dev := 0\<rparr>]"
    using c(2) j(2,4) by (simp add: fd_view_def alt_release_fd_def)
  also have "\<dots> = (alt_fd_list s)[j := (alt_fd_list s ! j)\<lparr>fd_flags := 0\<rparr>]"
  proof (rule nth_equalityI)
    fix i assume "i < length ((alt_fd_list s1)[j := (alt_fd_list s1 ! j)\<lparr>fd_flags := 0, fd_dev := 0\<rparr>])"
    then show "(alt_fd_list s1)[j := (alt_fd_list s1 ! j)\<lparr>fd_flags := 0, fd_dev := 0\<rparr>] ! i =
        (alt_fd_list s)[j := (alt_fd_list s ! j)\<lparr>fd_flags := 0\<rparr>] ! i"
      using j len lowest_free_SomeD [OF j(1)] by (cases "i = j") auto
  qed (simp add: len)
  finally show ?thesis using c(1) wf_close [OF wf1 c(1)] j(4) by simp
qed

text \<open>The other calls change the table only through the lock and the flags.\<close>

lemma view_keeps: "fd_wf s \<Longrightarrow> fd_view s' = fd_view s \<Longrightarrow> fd_wf s'"
  using fd_wf_view by blast

lemma wf_read:
  assumes "fd_wf s" "ALT_READ ops fd len s = Some (Inr (r, s'))"
  shows "fd_wf s'"
proof -
  have "fd_wf t" if "d_read ops f i n s = Some (q, t)" for f i n q t
    using read_quiet [OF that] assms(1) view_keeps by blast
  then show ?thesis
    using assms
    by (auto simp: ALT_READ_def Let_def split: sum.splits option.splits if_splits prod.splits Option.bind_splits)
qed

lemma wf_write:
  assumes "fd_wf s" "ALT_WRITE ops fd bs len s = Some (Inr (rc, s'))"
  shows "fd_wf s'"
proof -
  have "fd_wf t" if "d_write ops f i bs n s = Some (q, t)" for f i n q t
    using write_quiet [OF that] assms(1) view_keeps by blast
  then show ?thesis
    using assms
    by (auto simp: ALT_WRITE_def Let_def split: sum.splits option.splits if_splits prod.splits Option.bind_splits)
qed

lemma wf_lseek:
  assumes "fd_wf s" "ALT_LSEEK ops fd ptr dir s = Inr (rc, s')"
  shows "fd_wf s'"
proof -
  have "fd_wf t" if "d_lseek ops f i ptr dir s = (q, t)" for f i q t
    using lseek_quiet [of f i ptr dir s] assms(1) view_keeps that by (metis snd_conv)
  then show ?thesis
    using assms by (auto simp: ALT_LSEEK_def Let_def split: sum.splits option.splits if_splits prod.splits)
qed

lemma wf_fstat:
  assumes "fd_wf s" "ALT_FSTAT ops fd s = Inr (rc, s')"
  shows "fd_wf s'"
proof -
  have "fd_wf t" if "d_fstat ops f i s = (q, t)" for f i q t
    using fstat_quiet [of f i s] assms(1) view_keeps that by (metis snd_conv)
  then show ?thesis
    using assms by (auto simp: ALT_FSTAT_def Let_def split: sum.splits option.splits if_splits prod.splits)
qed

lemma wf_ioctl:
  assumes "fd_wf s" "ALT_IOCTL ops fd req arg s = Inr (rc, s')"
  shows "fd_wf s'"
proof -
  have d: "fd_wf (snd (d_ioctl ops f i req arg s))" for f i
    using ioctl_quiet [of f i req arg s] assms(1) view_keeps by blast
  define done1 where "done1 = (\<lambda>(rc :: int, t :: 'a fdtable_scheme). Inr (rc, if rc < 0 then t\<lparr>alt_errno := - rc\<rparr> else t) :: (int \<times> 'a fdtable_scheme) c_result)"
  have fin: "fd_wf s'" if "done1 r = Inr (rc, s')" "fd_wf (snd r)" for r
    using that by (cases r) (auto simp: done1_def split: if_splits)
  show ?thesis
    using assms(2)
    unfolding ALT_IOCTL_def Let_def done1_def [symmetric]
    by (auto split: sum.splits option.splits if_splits intro: fin simp: assms(1) d fd_wf_lock fd_wf_unlock)
qed

lemma wf_fcntl:
  assumes "fd_wf s" "ALT_FCNTL fd cmd flags s = Inr (rc, s')"
  shows "fd_wf s'"
proof -
  have "fd_wf (set_fd i (\<lambda>e. e\<lparr>fd_flags := fd_flags e OR (flags AND ALT_FCNTL_FLAGS_MASK)\<rparr>)
      (set_fd i (\<lambda>e. e\<lparr>fd_flags := fd_flags e AND NOT ALT_FCNTL_FLAGS_MASK\<rparr>) s))" for i
    by (rule fd_wf_flags [where w = "\<lambda>e. fd_flags e OR (flags AND ALT_FCNTL_FLAGS_MASK)"],
        rule fd_wf_flags [where w = "\<lambda>e. fd_flags e AND NOT ALT_FCNTL_FLAGS_MASK", OF assms(1)])
  note setfl = this
  show ?thesis
  proof (cases "fd_of fd s")
    case (Inr o1)
    show ?thesis
    proof (cases o1)
      case None
      then show ?thesis using assms Inr by (auto simp: ALT_FCNTL_def)
    next
      case (Some i)
      show ?thesis
      proof (cases "cmd = F_SETFL")
        case True
        then have "s' = set_fd i (\<lambda>e. e\<lparr>fd_flags := fd_flags e OR (flags AND ALT_FCNTL_FLAGS_MASK)\<rparr>)
            (set_fd i (\<lambda>e. e\<lparr>fd_flags := fd_flags e AND NOT ALT_FCNTL_FLAGS_MASK\<rparr>) s)"
          using assms(2) Inr Some
          by (simp add: ALT_FCNTL_def F_GETFL_def F_SETFL_def Let_def)
        then show ?thesis using setfl by blast
      next
        case False
        then show ?thesis
          using assms Inr Some by (auto simp: ALT_FCNTL_def split: if_splits)
      qed
    qed
  qed (use assms in \<open>simp add: ALT_FCNTL_def\<close>)
qed

text \<open>A device that is locked for exclusive use cannot be opened again.\<close>

lemma locked_device_open:
  assumes wf: "fd_wf s" and ls: "dllist (llists s) (alt_dev_list s) xs" "named_devices s xs"
    and d: "first_named s file xs = d" "d \<noteq> 0"
    and i: "i < ALT_MAX_FD" "int i \<le> alt_max_fd s" "fd_dev (alt_fd_list s ! i) = d"
      "fd_flags (alt_fd_list s ! i) AND ALT_FD_EXCL \<noteq> 0"
  shows "\<exists>s'. ALT_OPEN ops file flags md s = Some (Inr (- 1, s'))
    \<and> alt_errno s' = (if lowest_free s = None then EMFILE else EACCES)
    \<and> (\<forall>k. alt_fd_list s' ! k = alt_fd_list s ! k
            \<or> fd_dev (alt_fd_list s ! k) = 0 \<and> alt_fd_list s' ! k = (alt_fd_list s ! k)\<lparr>fd_flags := 0\<rparr>)"
proof -
  have op: "ALT_OPEN ops file flags md s = Some (Inr (alt_open_found ops file flags md d False s))"
    using d by (simp add: ALT_OPEN_def alt_find_dev_eq [OF ls])
  obtain rc s' where r: "alt_open_found ops file flags md d False s = (rc, s')" by fastforce
  note found = open_found [OF wf d(2) r]
  show ?thesis
  proof (cases "lowest_free s")
    case None
    then show ?thesis using found op r by auto
  next
    case (Some j)
    note j = lowest_free_SomeD [OF Some]
    have len: "length (alt_fd_list s) = ALT_MAX_FD" using wf by (simp add: fd_wf_def)
    have ij: "i \<noteq> j" using i(3) d(2) j by auto
    let ?s2 = "set_fd j (\<lambda>e. e\<lparr>fd_flags := flags AND NOT ALT_FD_FLAGS_MASK\<rparr>) (taken j d s)"
    have "i \<in> {0..<nat (max (alt_max_fd s) (int j) + 1)}" using i(2) by auto
    then have "fst (alt_file_locked j ?s2) = - EACCES"
      using i j len ij
      by (auto simp: alt_file_locked_def Let_def taken_def list_ex_iff dest!: bspec [where x = i])
    then have "rc = - 1" "alt_errno s' = EACCES"
      using r Some d(2) by (auto simp: alt_open_found_def alt_get_fd_eq Let_def EACCES_def split: prod.splits)
    then show ?thesis
      using found Some j op r by (auto simp: EMFILE_def)
  qed
qed

end

text \<open>
  The driver of the null device. It provides the write function only, at its address; the
  others are null pointers, which no call uses.
\<close>

definition null_ops :: "'a fdtable_scheme driver_ops" where
  "null_ops = \<lparr>d_open = (\<lambda>_ _ _ _ _ s. (0, s)), d_close = (\<lambda>_ _ s. Some (0, s)),
     d_read = (\<lambda>_ _ _ s. Some ((0, []), s)),
     d_write = (\<lambda>_ fd bs len s. Some (alt_dev_null_write fd bs len s)),
     d_lseek = (\<lambda>_ _ _ _ s. (0, s)), d_fstat = (\<lambda>_ _ s. ((0, 0), s)),
     d_ioctl = (\<lambda>_ _ _ _ s. (0, s))\<rparr>"

interpretation nulldev: quiet_driver null_ops
  by unfold_locales (auto simp: null_ops_def alt_dev_null_write_def)

lemma initial_fd_nth:
  "i < 32 \<Longrightarrow> initial_fd_list d ! i = \<lparr>fd_dev = (if i < 3 then d else 0), fd_priv = 0, fd_flags = 0\<rparr>"
  by (auto simp: initial_fd_list_def ALT_MAX_FD_def nth_append)

lemma initial_fd_length: "length (initial_fd_list d) = 32"
  by (simp add: initial_fd_list_def ALT_MAX_FD_def)

section \<open>Properties\<close>

text \<open>Property C9: with drivers that leave the table alone, every call on descriptors that returns
  keeps the table's invariant, whatever its arguments and its outcome.\<close>

theorem descriptor_calls_keep_table:
  assumes "quiet_driver ops" and "fd_wf s"
  shows "(\<forall>file flags md rc s'. ALT_OPEN ops file flags md s = Some (Inr (rc, s')) \<longrightarrow> fd_wf s')
    \<and> (\<forall>fd rc s'. ALT_CLOSE ops fd s = Some (Inr (rc, s')) \<longrightarrow> fd_wf s')
    \<and> (\<forall>fd len r s'. ALT_READ ops fd len s = Some (Inr (r, s')) \<longrightarrow> fd_wf s')
    \<and> (\<forall>fd bs len rc s'. ALT_WRITE ops fd bs len s = Some (Inr (rc, s')) \<longrightarrow> fd_wf s')
    \<and> (\<forall>fd ptr dir rc s'. ALT_LSEEK ops fd ptr dir s = Inr (rc, s') \<longrightarrow> fd_wf s')
    \<and> (\<forall>fd req arg rc s'. ALT_IOCTL ops fd req arg s = Inr (rc, s') \<longrightarrow> fd_wf s')
    \<and> (\<forall>fd cmd flags rc s'. ALT_FCNTL fd cmd flags s = Inr (rc, s') \<longrightarrow> fd_wf s')
    \<and> (\<forall>fd rc s'. ALT_FSTAT ops fd s = Inr (rc, s') \<longrightarrow> fd_wf s')"
  using quiet_driver.wf_open [OF assms] quiet_driver.wf_close [OF assms]
    quiet_driver.wf_read [OF assms] quiet_driver.wf_write [OF assms]
    quiet_driver.wf_lseek [OF assms] quiet_driver.wf_ioctl [OF assms]
    quiet_driver.wf_fcntl [OF assms] quiet_driver.wf_fstat [OF assms] by blast

theorem descriptor_calls_keep_table_witness:
  "\<exists>rc s'. ALT_CLOSE null_ops 1 demo_table = Some (Inr (rc, s')) \<and> fd_wf s'"
proof -
  have "alt_fd_list demo_table = initial_fd_list 64" by (simp add: demo_table_def)
  then have "fd_of 1 demo_table = Inr (Some 1)" "fd_dev (alt_fd_list demo_table ! 1) = 64"
    by (simp_all add: fd_of_def initial_fd_length initial_fd_nth)
  moreover have "dev_at demo_table 64 = alt_dev_null 400" by (simp add: demo_table_def)
  ultimately have "\<exists>rc s'. ALT_CLOSE null_ops 1 demo_table = Some (Inr (rc, s'))"
    by (simp add: ALT_CLOSE_def dev_of_def alt_dev_null_def)
  then show ?thesis
    using descriptor_calls_keep_table [OF nulldev.quiet_driver_axioms demo_table_wf] by metis
qed

text \<open>Property C13: with a driver whose close function returns, a descriptor that was opened can be
  closed, and closing it puts the table back as
  it was before the open: the descriptor is free again, with no flags, and no other changed.\<close>

theorem open_then_close:
  assumes "quiet_driver ops" and "\<And>f i t. d_close ops f i t \<noteq> None" and "fd_wf s"
    and "ALT_OPEN ops file flags md s = Some (Inr (fd, s1))" and "fd \<noteq> - 1"
  shows "\<exists>rc s2. ALT_CLOSE ops fd s1 = Some (Inr (rc, s2)) \<and> fd_wf s2
    \<and> alt_fd_list s2 = (alt_fd_list s)[nat fd := (alt_fd_list s ! nat fd)\<lparr>fd_flags := 0\<rparr>]"
  by (rule quiet_driver.open_close [OF assms])

lemma demo_open:
  "\<exists>s1. ALT_OPEN null_ops ''/dev/jtag_uart'' 2 0 demo_table = Some (Inr (3, s1))
     \<and> fd_wf s1 \<and> alt_max_fd s1 = 3 \<and> dev_at s1 = dev_at demo_table
     \<and> alt_dev_list s1 = alt_dev_list demo_table \<and> llists s1 = llists demo_table
     \<and> fd_dev (alt_fd_list s1 ! 3) = 80 \<and> fd_flags (alt_fd_list s1 ! 3) = ALT_FD_DEV OR 2
     \<and> (\<forall>i. i \<noteq> 3 \<longrightarrow> alt_fd_list s1 ! i = alt_fd_list demo_table ! i)"
proof -
  have l: "alt_fd_list demo_table = initial_fd_list 64" by (simp add: demo_table_def)
  have d: "first_named demo_table ''/dev/jtag_uart'' [80, 64] = 80"
    by (simp add: first_named_def demo_table_def demo_dev_def)
  have free: "lowest_free demo_table = Some 3"
    by (simp add: lowest_free_def l initial_fd_nth ALT_MAX_FD_def upt_conv_Cons)
  obtain rc s1 where r: "alt_open_found null_ops ''/dev/jtag_uart'' 2 0 80 False demo_table = (rc, s1)"
    by fastforce
  have op: "ALT_OPEN null_ops ''/dev/jtag_uart'' 2 0 demo_table = Some (Inr (rc, s1))"
    by (simp add: ALT_OPEN_def alt_find_dev_eq [OF demo_table_list demo_table_named] d r)
  have "rc = int 3 \<and> fd_flags (alt_fd_list s1 ! 3) = 2 AND NOT ALT_FD_FLAGS_MASK OR ALT_FD_DEV"
  proof (rule open_found_unlocked [OF demo_table_wf _ _ free _ r])
    show "fd_flags (alt_fd_list demo_table ! i) AND ALT_FD_EXCL = 0" if "i < ALT_MAX_FD" for i
      using that by (simp add: l initial_fd_nth ALT_MAX_FD_def)
  qed (simp_all add: demo_table_def demo_dev_def)
  moreover have "2 AND NOT ALT_FD_FLAGS_MASK OR ALT_FD_DEV = ALT_FD_DEV OR 2"
    by (simp add: ALT_FD_FLAGS_MASK_def ALT_FD_EXCL_def ALT_FD_DEV_def)
  moreover have "alt_max_fd demo_table = - 1" by (simp add: demo_table_def)
  ultimately show ?thesis
    using nulldev.open_found [OF demo_table_wf _ r] free op by auto
qed

theorem open_then_close_witness:
  "\<exists>s1 rc s2. ALT_OPEN null_ops ''/dev/jtag_uart'' 2 0 demo_table = Some (Inr (3, s1))
     \<and> ALT_CLOSE null_ops 3 s1 = Some (Inr (rc, s2)) \<and> fd_wf s2"
proof -
  obtain s1 where o1: "ALT_OPEN null_ops ''/dev/jtag_uart'' 2 0 demo_table = Some (Inr (3, s1))"
    using demo_open by blast
  show ?thesis
    using open_then_close [OF nulldev.quiet_driver_axioms _ demo_table_wf o1] o1
    by (auto simp: null_ops_def)
qed

text \<open>Property C15: while a descriptor holds a device for exclusive use, opening that device fails with
  \<open>EACCES\<close>, or with \<open>EMFILE\<close> when no descriptor is free, and changes no open descriptor.\<close>

theorem exclusive_device_not_reopened:
  assumes "quiet_driver ops" and "fd_wf s"
    and "dllist (llists s) (alt_dev_list s) xs" and "named_devices s xs"
    and "first_named s file xs = d" and "d \<noteq> 0"
    and "i < ALT_MAX_FD" and "int i \<le> alt_max_fd s" and "fd_dev (alt_fd_list s ! i) = d"
    and "fd_flags (alt_fd_list s ! i) AND ALT_FD_EXCL \<noteq> 0"
  shows "\<exists>s'. ALT_OPEN ops file flags md s = Some (Inr (- 1, s'))
    \<and> alt_errno s' = (if lowest_free s = None then EMFILE else EACCES)
    \<and> (\<forall>k. alt_fd_list s' ! k = alt_fd_list s ! k
            \<or> fd_dev (alt_fd_list s ! k) = 0 \<and> alt_fd_list s' ! k = (alt_fd_list s ! k)\<lparr>fd_flags := 0\<rparr>)"
  by (rule quiet_driver.locked_device_open [OF assms])

theorem exclusive_device_not_reopened_witness:
  "\<exists>s1 s2 s3. ALT_OPEN null_ops ''/dev/jtag_uart'' 2 0 demo_table = Some (Inr (3, s1))
     \<and> alt_fd_lock 3 s1 = (0, s2)
     \<and> ALT_OPEN null_ops ''/dev/jtag_uart'' 2 0 s2 = Some (Inr (- 1, s3)) \<and> alt_errno s3 \<in> {EACCES, EMFILE}"
proof -
  obtain s1 where s1: "ALT_OPEN null_ops ''/dev/jtag_uart'' 2 0 demo_table = Some (Inr (3, s1))"
    "fd_wf s1" "alt_max_fd s1 = 3" "dev_at s1 = dev_at demo_table"
    "alt_dev_list s1 = alt_dev_list demo_table" "llists s1 = llists demo_table"
    "fd_dev (alt_fd_list s1 ! 3) = 80"
    "\<forall>i. i \<noteq> 3 \<longrightarrow> alt_fd_list s1 ! i = alt_fd_list demo_table ! i"
    using demo_open by blast
  define s2 where "s2 = snd (alt_fd_lock 3 s1)"
  have dev: "fd_dev (alt_fd_list s1 ! i) = 64" if "i < 3" for i
    using s1(8) that by (simp add: demo_table_def initial_fd_nth)
  have "length (alt_fd_list s1) = 32" using s1(2) by (simp add: fd_wf_def ALT_MAX_FD_def)
  then have lk: "fst (alt_fd_lock 3 s1) = 0" "alt_max_fd s2 = 3" "dev_at s2 = dev_at demo_table"
    "alt_dev_list s2 = alt_dev_list demo_table" "llists s2 = llists demo_table"
    "fd_dev (alt_fd_list s2 ! 3) = 80" "fd_flags (alt_fd_list s2 ! 3) AND ALT_FD_EXCL \<noteq> 0"
    using s1 dev
    by (auto simp: s2_def alt_fd_lock_def list_ex_iff ALT_FD_EXCL_def bit.conj_disj_distrib2)
  have wf2: "fd_wf s2" unfolding s2_def by (rule fd_wf_lock [OF s1(2)])
  have ls: "dllist (llists s2) (alt_dev_list s2) [80, 64]" using demo_table_list lk by simp
  have nm: "named_devices s2 [80, 64]" using demo_table_named lk by (simp add: named_devices_def)
  have fn: "first_named s2 ''/dev/jtag_uart'' [80, 64] = 80"
    using lk by (simp add: first_named_def demo_table_def demo_dev_def)
  obtain s3 where "ALT_OPEN null_ops ''/dev/jtag_uart'' 2 0 s2 = Some (Inr (- 1, s3))"
    "alt_errno s3 \<in> {EACCES, EMFILE}"
    using exclusive_device_not_reopened [OF nulldev.quiet_driver_axioms wf2 ls nm fn, of 3 2 0] lk
    by (auto simp: ALT_MAX_FD_def split: if_splits)
  moreover have "alt_fd_lock 3 s1 = (0, s2)" using lk(1) by (simp add: s2_def prod_eq_iff)
  ultimately show ?thesis using s1(1) by blast
qed

text \<open>Property C33: asking for exclusive use is granted although the device is open on another
  descriptor, when that one is the highest ever allocated: the search stops one short.\<close>

theorem exclusive_lock_misses_highest:
  assumes "fd_of file s = Inr (Some fd)" and "fd_flags (alt_fd_list s ! fd) AND ALT_FD_DEV \<noteq> 0"
    and "alt_max_fd s = int m" and "m \<noteq> fd"
    and "fd_dev (alt_fd_list s ! m) = fd_dev (alt_fd_list s ! fd)"
    and "\<forall>i<m. i \<noteq> fd \<longrightarrow> fd_dev (alt_fd_list s ! i) \<noteq> fd_dev (alt_fd_list s ! fd)"
  shows "\<exists>s'. ALT_IOCTL ops file TIOCEXCL arg s = Inr (0, s')
    \<and> fd_flags (alt_fd_list s' ! fd) = fd_flags (alt_fd_list s ! fd) OR ALT_FD_EXCL
    \<and> alt_fd_list s' ! m = alt_fd_list s ! m"
proof -
  have "fd < length (alt_fd_list s)" using assms(1) by (auto simp: fd_of_def split: if_splits)
  then show ?thesis
    using assms by (auto simp: ALT_IOCTL_def alt_fd_lock_def list_ex_iff)
qed

theorem exclusive_lock_misses_highest_witness:
  "\<exists>s1 s2 s3. ALT_OPEN null_ops ''/dev/jtag_uart'' 2 0 demo_table = Some (Inr (3, s1))
     \<and> snd (alt_get_fd 80 s1) = s2 \<and> fst (alt_get_fd 80 s1) = 4
     \<and> ALT_IOCTL null_ops 3 TIOCEXCL 0 s2 = Inr (0, s3)"
proof -
  obtain s1 where s1: "ALT_OPEN null_ops ''/dev/jtag_uart'' 2 0 demo_table = Some (Inr (3, s1))"
    "fd_wf s1" "alt_max_fd s1 = 3" "fd_dev (alt_fd_list s1 ! 3) = 80"
    "fd_flags (alt_fd_list s1 ! 3) = ALT_FD_DEV OR 2"
    "\<forall>i. i \<noteq> 3 \<longrightarrow> alt_fd_list s1 ! i = alt_fd_list demo_table ! i"
    using demo_open by blast
  have dev: "fd_dev (alt_fd_list s1 ! i) = (if i < 3 then 64 else 0)" if "i < 32" "i \<noteq> 3" for i
    using s1(6) that by (simp add: demo_table_def initial_fd_nth)
  have len: "length (alt_fd_list s1) = 32" using s1(2) by (simp add: fd_wf_def ALT_MAX_FD_def)
  have "fd_dev (alt_fd_list s1 ! i) \<noteq> 0" if "i < 4" for i
    using dev [of i] s1(4) that by (cases "i = 3") auto
  then have "lowest_free s1 = Some 4"
    using dev [of 4] by (auto simp: lowest_free_def find_Some_iff ALT_MAX_FD_def intro!: exI [of _ 4])
  then have g: "alt_get_fd 80 s1 = (4, taken 4 80 s1)" by (simp add: alt_get_fd_eq)
  have "\<exists>s3. ALT_IOCTL null_ops 3 TIOCEXCL 0 (taken 4 80 s1) = Inr (0, s3)
      \<and> fd_flags (alt_fd_list s3 ! 3) = fd_flags (alt_fd_list (taken 4 80 s1) ! 3) OR ALT_FD_EXCL
      \<and> alt_fd_list s3 ! 4 = alt_fd_list (taken 4 80 s1) ! 4"
  proof (rule exclusive_lock_misses_highest)
    show "\<forall>i<4. i \<noteq> 3 \<longrightarrow> fd_dev (alt_fd_list (taken 4 80 s1) ! i) \<noteq> fd_dev (alt_fd_list (taken 4 80 s1) ! 3)"
      using dev s1(4) len by (auto simp: taken_def)
  qed (use s1 len in \<open>simp_all add: taken_def fd_of_def ALT_FD_DEV_def\<close>)
  then show ?thesis using s1(1) g by auto
qed

end
