(* ===== verification/Ring.thy ===== *)
theory Ring
  imports Hal_Prelude
begin

text \<open>
  The circular buffers of the JTAG UART driver, as pure data: the bytes a buffer holds between
  its two indices, and what the index updates of the driver do to them. One slot always stays
  empty, so that equal indices mean an empty buffer.
\<close>

definition BUF_LEN :: nat where "BUF_LEN = 2048"

text \<open>The bytes from index \<open>ro\<close> (where they are taken out) up to index \<open>ri\<close>, wrapping around.\<close>

definition ring :: "alt_u8 list \<Rightarrow> nat \<Rightarrow> nat \<Rightarrow> alt_u8 list" where
  "ring buf ri ro = (if ro \<le> ri then take (ri - ro) (drop ro buf) else drop ro buf @ take ri buf)"

definition ring_wf :: "alt_u8 list \<Rightarrow> nat \<Rightarrow> nat \<Rightarrow> bool" where
  "ring_wf buf ri ro \<longleftrightarrow> length buf = BUF_LEN \<and> ri < BUF_LEN \<and> ro < BUF_LEN"

text \<open>\<^verbatim>\<open>memcpy(buf + i, bs, length bs)\<close>.\<close>

definition copy_in :: "alt_u8 list \<Rightarrow> nat \<Rightarrow> alt_u8 list \<Rightarrow> alt_u8 list" where
  "copy_in buf i bs = take i buf @ bs @ drop (i + length bs) buf"

lemma ring_Nil_iff: "ring_wf buf ri ro \<Longrightarrow> ring buf ri ro = [] \<longleftrightarrow> ri = ro"
  by (auto simp: ring_def ring_wf_def)

lemma ring_length:
  "ring_wf buf ri ro \<Longrightarrow>
   length (ring buf ri ro) = (if ro \<le> ri then ri - ro else BUF_LEN - ro + ri)"
  by (auto simp: ring_def ring_wf_def)

lemma ring_length_less: "ring_wf buf ri ro \<Longrightarrow> length (ring buf ri ro) < BUF_LEN"
  by (auto simp: ring_length ring_wf_def)

text \<open>The largest block that can be taken out, or put in, without wrapping.\<close>

definition take_block :: "nat \<Rightarrow> nat \<Rightarrow> nat" where
  "take_block ri ro = (if ri \<ge> ro then ri - ro else BUF_LEN - ro)"

definition put_block :: "nat \<Rightarrow> nat \<Rightarrow> nat" where
  "put_block ri ro =
     (if ri < ro then ro - 1 - ri else if ro > 0 then BUF_LEN - ri else BUF_LEN - 1 - ri)"

lemma take_block_le: "ring_wf buf ri ro \<Longrightarrow> take_block ri ro \<le> length (ring buf ri ro)"
  by (auto simp: take_block_def ring_length)

lemma take_block_0_iff: "ring_wf buf ri ro \<Longrightarrow> take_block ri ro = 0 \<longleftrightarrow> ring buf ri ro = []"
  by (auto simp: take_block_def ring_Nil_iff ring_wf_def)

lemma put_block_0_iff:
  "ring_wf buf ri ro \<Longrightarrow> put_block ri ro = 0 \<longleftrightarrow> length (ring buf ri ro) = BUF_LEN - 1"
  by (auto simp: put_block_def ring_length ring_wf_def)

lemma put_block_space:
  "ring_wf buf ri ro \<Longrightarrow> n \<le> put_block ri ro \<Longrightarrow> n + length (ring buf ri ro) < BUF_LEN \<and> ri + n \<le> BUF_LEN"
  by (auto simp: put_block_def ring_length ring_wf_def split: if_splits)

lemma ring_out:
  assumes "ring_wf buf ri ro" "n \<le> take_block ri ro"
  shows "take n (drop ro buf) = take n (ring buf ri ro)"
    and "ring buf ri ((ro + n) mod BUF_LEN) = drop n (ring buf ri ro)"
    and "ring_wf buf ri ((ro + n) mod BUF_LEN)"
proof -
  show "take n (drop ro buf) = take n (ring buf ri ro)"
    using assms by (auto simp: ring_def ring_wf_def take_block_def min_def split: if_splits)
  show "ring_wf buf ri ((ro + n) mod BUF_LEN)"
    using assms by (simp add: ring_wf_def BUF_LEN_def)
  show "ring buf ri ((ro + n) mod BUF_LEN) = drop n (ring buf ri ro)"
  proof (cases "ro + n < BUF_LEN")
    case True
    then show ?thesis
      using assms
      by (auto simp: ring_def ring_wf_def take_block_def drop_take add.commute split: if_splits)
  next
    case False
    then have "ro + n = BUF_LEN" "ri < ro"
      using assms by (auto simp: ring_wf_def take_block_def split: if_splits)
    then show ?thesis using assms by (auto simp: ring_def ring_wf_def)
  qed
qed

lemma ring_in:
  assumes "ring_wf buf ri ro" "length bs \<le> put_block ri ro"
  shows "ring (copy_in buf ri bs) ((ri + length bs) mod BUF_LEN) ro = ring buf ri ro @ bs"
    and "ring_wf (copy_in buf ri bs) ((ri + length bs) mod BUF_LEN) ro"
proof -
  note sp = put_block_space [OF assms]
  show "ring_wf (copy_in buf ri bs) ((ri + length bs) mod BUF_LEN) ro"
    using assms sp by (simp add: ring_wf_def copy_in_def BUF_LEN_def)
  show "ring (copy_in buf ri bs) ((ri + length bs) mod BUF_LEN) ro = ring buf ri ro @ bs"
  proof (cases "ri + length bs < BUF_LEN")
    case True
    show ?thesis
    proof (cases "ro \<le> ri")
      case le: True
      then have "take (ri + length bs - ro) (drop ro (copy_in buf ri bs)) = take (ri - ro) (drop ro buf) @ bs"
      proof -
        have l: "length (take (ri - ro) (drop ro buf)) = ri - ro"
          using assms(1) by (auto simp: ring_wf_def min_def)
        have "drop ro (copy_in buf ri bs) = take (ri - ro) (drop ro buf) @ bs @ drop (ri + length bs) buf"
          using le assms(1) by (simp add: copy_in_def ring_wf_def drop_take)
        moreover have "ri + length bs - ro = (ri - ro) + length bs" using le by simp
        ultimately show ?thesis using l by simp
      qed
      then show ?thesis using le True by (simp add: ring_def)
    next
      case False
      then have "ri + length bs < ro"
        using assms by (auto simp: put_block_def split: if_splits)
      then show ?thesis
        using False True assms(1) by (auto simp: ring_def copy_in_def ring_wf_def)
    qed
  next
    case False
    then have e: "ri + length bs = BUF_LEN" using sp by simp
    moreover have "ro \<le> ri" "0 < ro \<or> bs = []"
      using e assms by (auto simp: put_block_def ring_wf_def split: if_splits)
    ultimately show ?thesis
      using assms(1) by (auto simp: ring_def copy_in_def ring_wf_def drop_take)
  qed
qed

text \<open>One byte in, as the interrupt routine does it; one byte out.\<close>

lemma ring_in_one:
  assumes "ring_wf buf ri ro" "(ri + 1) mod BUF_LEN \<noteq> ro"
  shows "ring (buf[ri := b]) ((ri + 1) mod BUF_LEN) ro = ring buf ri ro @ [b]"
    and "ring_wf (buf[ri := b]) ((ri + 1) mod BUF_LEN) ro"
proof -
  have "1 \<le> put_block ri ro"
    using assms by (cases "ri + 1 = BUF_LEN") (auto simp: put_block_def ring_wf_def)
  moreover have "buf[ri := b] = copy_in buf ri [b]"
    using assms(1) by (simp add: copy_in_def ring_wf_def upd_conv_take_nth_drop)
  ultimately show "ring (buf[ri := b]) ((ri + 1) mod BUF_LEN) ro = ring buf ri ro @ [b]"
    "ring_wf (buf[ri := b]) ((ri + 1) mod BUF_LEN) ro"
    using ring_in [OF assms(1), of "[b]"] by simp_all
qed

lemma ring_full_iff:
  "ring_wf buf ri ro \<Longrightarrow> (ri + 1) mod BUF_LEN = ro \<longleftrightarrow> length (ring buf ri ro) = BUF_LEN - 1"
  by (cases "ri + 1 = BUF_LEN") (auto simp: ring_length ring_wf_def)

lemma ring_out_one:
  assumes "ring_wf buf ri ro" "ri \<noteq> ro"
  shows "ring buf ri ro = buf ! ro # ring buf ri ((ro + 1) mod BUF_LEN)"
    and "ring_wf buf ri ((ro + 1) mod BUF_LEN)"
proof -
  have n: "1 \<le> take_block ri ro" using assms by (auto simp: take_block_def ring_wf_def)
  have "take 1 (drop ro buf) = [buf ! ro]"
    using assms(1) by (simp add: ring_wf_def take_Suc_conv_app_nth)
  then have "take 1 (ring buf ri ro) = [buf ! ro]" using ring_out(1) [OF assms(1) n] by simp
  then show "ring buf ri ro = buf ! ro # ring buf ri ((ro + 1) mod BUF_LEN)"
    using ring_out(2) [OF assms(1) n] append_take_drop_id [of 1 "ring buf ri ro"] by simp
  show "ring_wf buf ri ((ro + 1) mod BUF_LEN)" by (rule ring_out(3) [OF assms(1) n])
qed

text \<open>A buffer that grew still has the block that could be taken before.\<close>

lemma take_block_mono:
  assumes "ring_wf buf ri ro" "ring_wf buf' ri' ro"
    and "length (ring buf ri ro) \<le> length (ring buf' ri' ro)"
  shows "take_block ri ro \<le> take_block ri' ro"
  using assms by (auto simp: take_block_def ring_length ring_wf_def split: if_splits)

text \<open>A buffer that shrank still has the room that could be filled before.\<close>

lemma put_block_mono:
  assumes "ring_wf buf ri ro" "ring_wf buf' ri ro'"
    and "length (ring buf' ri ro') \<le> length (ring buf ri ro)"
  shows "put_block ri ro \<le> put_block ri ro'"
  using assms by (auto simp: put_block_def ring_length ring_wf_def split: if_splits)

text \<open>Bytes copied behind the end are not yet part of the queue.\<close>

lemma ring_copy_free:
  assumes "ring_wf buf ri ro" "length bs \<le> put_block ri ro"
  shows "ring (copy_in buf ri bs) ri ro = ring buf ri ro" "ring_wf (copy_in buf ri bs) ri ro"
proof -
  note sp = put_block_space [OF assms]
  show "ring_wf (copy_in buf ri bs) ri ro" using assms sp by (simp add: ring_wf_def copy_in_def)
  show "ring (copy_in buf ri bs) ri ro = ring buf ri ro"
  proof (cases "ro \<le> ri")
    case True
    then show ?thesis using assms(1) by (simp add: ring_def copy_in_def ring_wf_def drop_take min_def)
  next
    case False
    then have "ri + length bs < ro" using assms by (auto simp: put_block_def split: if_splits)
    then show ?thesis using False assms(1) by (simp add: ring_def copy_in_def ring_wf_def)
  qed
qed

end
