(* ===== verification/Jtag_Uart.thy ===== *)
theory Jtag_Uart
  imports Posix_Io Ring
begin

text \<open>
  The interrupt-driven (``fast'') driver of the JTAG UART:
  \<^verbatim>\<open>drivers/src/altera_avalon_jtag_uart_init.c\<close>, \<^verbatim>\<open>_read.c\<close>,
  \<^verbatim>\<open>_write.c\<close>, \<^verbatim>\<open>_ioctl.c\<close>, \<^verbatim>\<open>_fd.c\<close> and
  \<^verbatim>\<open>drivers/inc/altera_avalon_jtag_uart.h\<close>, without an operating system.

  The driver's two circular buffers are shared between the program and the interrupt routine,
  without critical sections. The program side is therefore modelled with a parameter \<open>intr\<close>:
  the effect of whatever interrupts are taken at a point, applied before each test, copy and
  assignment that uses variables which the interrupt routine shares. What the program side relies on is the locale
  \<open>uart_interrupts\<close>; the interrupt routine itself is proved to satisfy it.
\<close>

section \<open>State\<close>

text \<open>
  \<^verbatim>\<open>altera_avalon_jtag_uart_state\<close> of the one UART of the system, the integers that the
  arguments of \<^verbatim>\<open>ioctl()\<close> point to, and the state of the hardware. \<open>ju_alarm\<close> is the
  address of the alarm structure.
\<close>

record 'h uart = fdtable +
  ju_base :: addr
  ju_timeout :: alt_u32
  ju_alarm :: addr
  ju_irq_enable :: alt_u32
  ju_host_inactive :: alt_u32
  rx_in :: nat
  rx_out :: nat
  tx_in :: nat
  tx_out :: nat
  rx_buf :: "alt_u8 list"
  tx_buf :: "alt_u8 list"
  int_at :: "addr \<Rightarrow> int"
  hw :: 'h

text \<open>Registers and masks of \<^verbatim>\<open>altera_avalon_jtag_uart_regs.h\<close>.\<close>

abbreviation (input) UART_DATA :: nat where "UART_DATA \<equiv> 0"
abbreviation (input) UART_CONTROL :: nat where "UART_CONTROL \<equiv> 1"
definition DATA_MSK :: alt_u32 where "DATA_MSK = 0xFF"
definition RVALID_MSK :: alt_u32 where "RVALID_MSK = 0x8000"
definition RAVAIL_MSK :: alt_u32 where "RAVAIL_MSK = 0xFFFF0000"
definition RE_MSK :: alt_u32 where "RE_MSK = 1"
definition WE_MSK :: alt_u32 where "WE_MSK = 2"
definition RI_MSK :: alt_u32 where "RI_MSK = 0x100"
definition WI_MSK :: alt_u32 where "WI_MSK = 0x200"
definition AC_MSK :: alt_u32 where "AC_MSK = 0x400"
definition WSPACE_MSK :: alt_u32 where "WSPACE_MSK = 0xFFFF0000"

definition uart_iord :: "'h bus \<Rightarrow> nat \<Rightarrow> ('h, 'a) uart_scheme \<Rightarrow> alt_u32 \<times> ('h, 'a) uart_scheme" where
  "uart_iord bus reg s = (let (v, h) = iord bus (ju_base s) reg (hw s) in (v, s\<lparr>hw := h\<rparr>))"

definition uart_iowr :: "'h bus \<Rightarrow> nat \<Rightarrow> alt_u32 \<Rightarrow> ('h, 'a) uart_scheme \<Rightarrow> ('h, 'a) uart_scheme" where
  "uart_iowr bus reg v s = s\<lparr>hw := iowr bus (ju_base s) reg v (hw s)\<rparr>"

section \<open>The interrupt routine\<close>

text \<open>The loop that empties the hardware's receive FIFO into the buffer; it returns \<open>data\<close>.\<close>

definition rx_store :: "alt_u32 \<Rightarrow> ('h, 'a) uart_scheme \<Rightarrow> ('h, 'a) uart_scheme" where
  "rx_store d s = s\<lparr>rx_buf := (rx_buf s)[rx_in s := ucast (d AND DATA_MSK)],
                    rx_in := (rx_in s + 1) mod BUF_LEN\<rparr>"

partial_function (option) uart_irq_rx_loop ::
  "'h bus \<Rightarrow> alt_u32 \<Rightarrow> ('h, 'a) uart_scheme \<Rightarrow> (alt_u32 \<times> ('h, 'a) uart_scheme) option" where
  "uart_irq_rx_loop bus data s =
     (if (rx_in s + 1) mod BUF_LEN = rx_out s then Some (data, s)
      else
        let d = fst (uart_iord bus UART_DATA s); s1 = snd (uart_iord bus UART_DATA s) in
        if d AND RVALID_MSK = 0 then Some (d, s1)
        else uart_irq_rx_loop bus d (rx_store d s1))"

definition uart_irq_rx :: "'h bus \<Rightarrow> ('h, 'a) uart_scheme \<Rightarrow> ('h, 'a) uart_scheme option" where
  "uart_irq_rx bus s =
     do {
       r \<leftarrow> uart_irq_rx_loop bus (push_bit 16 1) s;
       let (data, s1) = r;
       Some (if data AND RAVAIL_MSK \<noteq> 0 then
               (let s2 = s1\<lparr>ju_irq_enable := ju_irq_enable s1 AND NOT RE_MSK\<rparr>;
                    s3 = uart_iowr bus UART_CONTROL (ju_irq_enable s2) s2
                in snd (uart_iord bus UART_CONTROL s3))
             else s1)
     }"

text \<open>
  The loop that fills the hardware's transmit FIFO; it returns the space left. A \<^verbatim>\<open>char\<close> is
  signed, so it is widened to the register with its sign.
\<close>

fun uart_irq_tx_loop :: "'h bus \<Rightarrow> nat \<Rightarrow> ('h, 'a) uart_scheme \<Rightarrow> nat \<times> ('h, 'a) uart_scheme" where
  "uart_irq_tx_loop bus 0 s = (0, s)"
| "uart_irq_tx_loop bus (Suc space) s =
     (if tx_out s \<noteq> tx_in s then
        (let s1 = uart_iowr bus UART_DATA (scast (tx_buf s ! tx_out s)) s
         in uart_irq_tx_loop bus space (s1\<lparr>tx_out := (tx_out s1 + 1) mod BUF_LEN\<rparr>))
      else (Suc space, s))"

definition uart_irq_tx :: "'h bus \<Rightarrow> alt_u32 \<Rightarrow> ('h, 'a) uart_scheme \<Rightarrow> ('h, 'a) uart_scheme" where
  "uart_irq_tx bus control s =
     (let (space, s1) = uart_irq_tx_loop bus (unat (drop_bit 16 (control AND WSPACE_MSK))) s
      in if space > 0 then
           (let s2 = s1\<lparr>ju_irq_enable := ju_irq_enable s1 AND NOT WE_MSK\<rparr>;
                s3 = uart_iowr bus UART_CONTROL (ju_irq_enable s2) s2
            in snd (uart_iord bus UART_CONTROL s3))
         else s1)"

partial_function (option) altera_avalon_jtag_uart_irq ::
  "'h bus \<Rightarrow> ('h, 'a) uart_scheme \<Rightarrow> ('h, 'a) uart_scheme option" where
  "altera_avalon_jtag_uart_irq bus s =
     (let control = fst (uart_iord bus UART_CONTROL s); s0 = snd (uart_iord bus UART_CONTROL s) in
      if control AND (RI_MSK OR WI_MSK) = 0 then Some s0
      else
        Option.bind (if control AND RI_MSK \<noteq> 0 then uart_irq_rx bus s0 else Some s0)
          (\<lambda>s1. altera_avalon_jtag_uart_irq bus
                  (if control AND WI_MSK \<noteq> 0 then uart_irq_tx bus control s1 else s1)))"

text \<open>The alarm callback: once a second, is the host there?\<close>

definition altera_avalon_jtag_uart_timeout ::
  "'h bus \<Rightarrow> ('h, 'a) uart_scheme \<Rightarrow> alt_u32 \<times> ('h, 'a) uart_scheme" where
  "altera_avalon_jtag_uart_timeout bus s =
     (let (control, s0) = uart_iord bus UART_CONTROL s;
          s1 = (if control AND AC_MSK \<noteq> 0 then
                  (uart_iowr bus UART_CONTROL (ju_irq_enable s0 OR AC_MSK) s0)\<lparr>ju_host_inactive := 0\<rparr>
                else if ju_host_inactive s0 < 2147483647 - 2 then
                  s0\<lparr>ju_host_inactive := ju_host_inactive s0 + 1\<rparr>
                else s0)
      in (alt_ticks_per_second s1, s1))"

text \<open>
  Initialisation. \<open>isr\<close> and \<open>tmo\<close> are the addresses of the two routines above, \<open>sp\<close> that of
  the driver's state.
\<close>

definition altera_avalon_jtag_uart_init ::
  "'h bus \<Rightarrow> addr \<Rightarrow> addr \<Rightarrow> addr \<Rightarrow> alt_u32 \<Rightarrow> alt_u32 \<Rightarrow> ('h, 'a) uart_scheme
   \<Rightarrow> ('h, 'a) uart_scheme c_result" where
  "altera_avalon_jtag_uart_init bus isr tmo sp irq_controller_id irq s =
     (let s1 = s\<lparr>ju_irq_enable := RE_MSK\<rparr>;
          s2 = uart_iowr bus UART_CONTROL (ju_irq_enable s1) s1
      in case alt_ic_isr_register irq_controller_id irq isr sp 0 s2 of
           Inl f \<Rightarrow> Inl f
         | Inr (_, s3) \<Rightarrow>
             (let s4 = s3\<lparr>ju_host_inactive := 0\<rparr>;
                  (rc, s5) = alt_alarm_start (ju_alarm s4) (alt_ticks_per_second s4) tmo sp s4
              in Inr (if rc < 0 then s5\<lparr>ju_timeout := 2147483647\<rparr> else s5)))"

section \<open>The program side\<close>

text \<open>
  Reading. The inner loop copies what the buffer holds, in at most two blocks: it returns the
  last value read from \<^verbatim>\<open>rx_in\<close>, the bytes copied, and the space left.
\<close>

function uart_read_copy ::
  "(('h, 'a) uart_scheme \<Rightarrow> ('h, 'a) uart_scheme) \<Rightarrow> nat \<Rightarrow> alt_u8 list \<Rightarrow> ('h, 'a) uart_scheme
   \<Rightarrow> nat \<times> alt_u8 list \<times> nat \<times> ('h, 'a) uart_scheme" where
  "uart_read_copy intr space got s =
     (let s1 = intr s; inn = rx_in s1; out = rx_out s1; n = take_block inn out in
      if n = 0 then (inn, got, space, s1)
      else
        let n' = min n space; s2 = intr s1; bs = take n' (drop out (rx_buf s2));
            s3 = (intr s2)\<lparr>rx_out := (out + n') mod BUF_LEN\<rparr>
        in if space - n' > 0 then uart_read_copy intr (space - n') (got @ bs) s3
           else (inn, got @ bs, space - n', s3))"
  by auto
termination by (relation "measure (\<lambda>(intr, space, got, s). space)") auto

declare uart_read_copy.simps [simp del]

text \<open>The spin loop: until more arrives or the host is gone.\<close>

partial_function (option) uart_read_spin ::
  "(('h, 'a) uart_scheme \<Rightarrow> ('h, 'a) uart_scheme) \<Rightarrow> nat \<Rightarrow> ('h, 'a) uart_scheme
   \<Rightarrow> ('h, 'a) uart_scheme option" where
  "uart_read_spin intr inn s =
     (let s1 = intr s in
      if inn = rx_in s1 \<and> ju_host_inactive s1 < ju_timeout s1 then uart_read_spin intr inn s1
      else Some s1)"

partial_function (option) uart_read_loop ::
  "(('h, 'a) uart_scheme \<Rightarrow> ('h, 'a) uart_scheme) \<Rightarrow> alt_u32 \<Rightarrow> nat \<Rightarrow> ('h, 'a) uart_scheme
   \<Rightarrow> (alt_u8 list \<times> ('h, 'a) uart_scheme) option" where
  "uart_read_loop intr flags space s =
     (if space > 0 then
        let r = uart_read_copy intr space [] s; inn = fst r; got = fst (snd r);
            left = fst (snd (snd r)); s1 = snd (snd (snd r)) in
        if got \<noteq> [] then Some (got, s1)
        else if flags AND O_NONBLOCK \<noteq> 0 then Some ([], s1)
        else Option.bind (uart_read_spin intr inn s1) (\<lambda>s2.
          let s3 = intr s2 in
          if inn = rx_in s3 then Some ([], s3) else uart_read_loop intr flags left s3)
      else Some ([], s))"

text \<open>\<^verbatim>\<open>sp->irq_enable |= msk\<close>, written to the device, with interrupts disabled.\<close>

definition uart_enable_irq :: "'h bus \<Rightarrow> alt_u32 \<Rightarrow> ('h, 'a) uart_scheme \<Rightarrow> ('h, 'a) uart_scheme" where
  "uart_enable_irq bus msk s =
     (let (ctx, s1) = alt_irq_disable_all s;
          s2 = s1\<lparr>ju_irq_enable := ju_irq_enable s1 OR msk\<rparr>;
          s3 = uart_iowr bus UART_CONTROL (ju_irq_enable s2) s2
      in alt_irq_enable_all ctx s3)"

definition altera_avalon_jtag_uart_read ::
  "'h bus \<Rightarrow> (('h, 'a) uart_scheme \<Rightarrow> ('h, 'a) uart_scheme) \<Rightarrow> int \<Rightarrow> alt_u32 \<Rightarrow> ('h, 'a) uart_scheme
   \<Rightarrow> ((int \<times> alt_u8 list) \<times> ('h, 'a) uart_scheme) option" where
  "altera_avalon_jtag_uart_read bus intr space flags s =
     do {
       r \<leftarrow> uart_read_loop intr flags (nat space) s;
       let (got, s1) = r;
       Some (if got \<noteq> [] then ((int (length got), got), uart_enable_irq bus RE_MSK (intr s1))
             else if flags AND O_NONBLOCK \<noteq> 0 then ((- EWOULDBLOCK, []), s1)
             else ((- EIO, []), s1))
     }"

text \<open>
  Writing. The inner loop copies as much as fits: it returns the bytes that did not, and the
  last value read from \<^verbatim>\<open>tx_out\<close>.
\<close>

function uart_write_fill ::
  "(('h, 'a) uart_scheme \<Rightarrow> ('h, 'a) uart_scheme) \<Rightarrow> alt_u8 list \<Rightarrow> nat \<Rightarrow> ('h, 'a) uart_scheme
   \<Rightarrow> alt_u8 list \<times> nat \<times> ('h, 'a) uart_scheme" where
  "uart_write_fill intr rest out0 s =
     (if rest \<noteq> [] then
        let s1 = intr s; inn = tx_in s1; out = tx_out s1; n = put_block inn out in
        if n = 0 then (rest, out, s1)
        else
          let n' = min n (length rest); s2 = intr s1;
              s3 = intr (s2\<lparr>tx_buf := copy_in (tx_buf s2) inn (take n' rest)\<rparr>)
          in uart_write_fill intr (drop n' rest) out (s3\<lparr>tx_in := (inn + n') mod BUF_LEN\<rparr>)
      else (rest, out0, s))"
  by auto
termination by (relation "measure (\<lambda>(intr, rest, out0, s). length rest)") auto

declare uart_write_fill.simps [simp del]

partial_function (option) uart_write_spin ::
  "(('h, 'a) uart_scheme \<Rightarrow> ('h, 'a) uart_scheme) \<Rightarrow> nat \<Rightarrow> ('h, 'a) uart_scheme
   \<Rightarrow> ('h, 'a) uart_scheme option" where
  "uart_write_spin intr out s =
     (let s1 = intr s in
      if out = tx_out s1 \<and> ju_host_inactive s1 < ju_timeout s1 then uart_write_spin intr out s1
      else Some s1)"

partial_function (option) uart_write_loop ::
  "'h bus \<Rightarrow> (('h, 'a) uart_scheme \<Rightarrow> ('h, 'a) uart_scheme) \<Rightarrow> alt_u32 \<Rightarrow> alt_u8 list \<Rightarrow> nat
   \<Rightarrow> ('h, 'a) uart_scheme \<Rightarrow> (alt_u8 list \<times> ('h, 'a) uart_scheme) option" where
  "uart_write_loop bus intr flags rest out0 s =
     (let r = uart_write_fill intr rest out0 s; left = fst r; out = fst (snd r);
          s1 = uart_enable_irq bus WE_MSK (intr (snd (snd r))) in
      if left = [] then Some ([], s1)
      else if flags AND O_NONBLOCK \<noteq> 0 then Some (left, s1)
      else Option.bind (uart_write_spin intr out s1) (\<lambda>s2.
        let s3 = intr s2 in
        if ju_host_inactive s3 \<noteq> 0 then Some (left, s3)
        else uart_write_loop bus intr flags left out s3))"

definition altera_avalon_jtag_uart_write ::
  "'h bus \<Rightarrow> (('h, 'a) uart_scheme \<Rightarrow> ('h, 'a) uart_scheme) \<Rightarrow> alt_u8 list \<Rightarrow> int \<Rightarrow> alt_u32
   \<Rightarrow> ('h, 'a) uart_scheme \<Rightarrow> (int \<times> ('h, 'a) uart_scheme) option" where
  "altera_avalon_jtag_uart_write bus intr ptr count flags s =
     do {
       r \<leftarrow> uart_write_loop bus intr flags (take (nat count) ptr) 0 s;
       let (left, s1) = r;
       let sent = length (take (nat count) ptr) - length left;
       Some (if sent \<noteq> 0 then (int sent, s1)
             else if flags AND O_NONBLOCK \<noteq> 0 then (- EWOULDBLOCK, s1)
             else (- EIO, s1))
     }"

partial_function (option) altera_avalon_jtag_uart_close ::
  "(('h, 'a) uart_scheme \<Rightarrow> ('h, 'a) uart_scheme) \<Rightarrow> alt_u32 \<Rightarrow> ('h, 'a) uart_scheme
   \<Rightarrow> (int \<times> ('h, 'a) uart_scheme) option" where
  "altera_avalon_jtag_uart_close intr flags s =
     (let s1 = intr s in
      if tx_out s1 \<noteq> tx_in s1 \<and> ju_host_inactive s1 < ju_timeout s1 then
        if flags AND O_NONBLOCK \<noteq> 0 then Some (- EWOULDBLOCK, s1)
        else altera_avalon_jtag_uart_close intr flags s1
      else Some (0, s1))"

definition TIOCSTIMEOUT :: int where "TIOCSTIMEOUT = 0x6a01"
definition TIOCGCONNECTED :: int where "TIOCGCONNECTED = 0x6a02"

definition altera_avalon_jtag_uart_ioctl ::
  "int \<Rightarrow> addr \<Rightarrow> ('h, 'a) uart_scheme \<Rightarrow> int \<times> ('h, 'a) uart_scheme" where
  "altera_avalon_jtag_uart_ioctl req arg s =
     (if req = TIOCSTIMEOUT then
        if ju_timeout s \<noteq> 2147483647 then
          (let timeout = int_at s arg
           in (0, s\<lparr>ju_timeout := (if timeout \<ge> 2 \<and> timeout < INT_MAX then word_of_int timeout
                                  else 2147483646)\<rparr>))
        else (- ENOTTY, s)
      else if req = TIOCGCONNECTED then
        if ju_timeout s \<noteq> 2147483647 then
          (0, s\<lparr>int_at := (int_at s)(arg := (if ju_host_inactive s < ju_timeout s then 1 else 0))\<rparr>)
        else (- ENOTTY, s)
      else (- ENOTTY, s))"

text \<open>The wrappers for the descriptor interface: the flags are those of the descriptor.\<close>

definition altera_avalon_jtag_uart_read_fd ::
  "'h bus \<Rightarrow> (('h, 'a) uart_scheme \<Rightarrow> ('h, 'a) uart_scheme) \<Rightarrow> nat \<Rightarrow> int \<Rightarrow> ('h, 'a) uart_scheme
   \<Rightarrow> ((int \<times> alt_u8 list) \<times> ('h, 'a) uart_scheme) option" where
  "altera_avalon_jtag_uart_read_fd bus intr fd space s =
     altera_avalon_jtag_uart_read bus intr space (fd_flags (alt_fd_list s ! fd)) s"

definition altera_avalon_jtag_uart_write_fd ::
  "'h bus \<Rightarrow> (('h, 'a) uart_scheme \<Rightarrow> ('h, 'a) uart_scheme) \<Rightarrow> nat \<Rightarrow> alt_u8 list \<Rightarrow> int
   \<Rightarrow> ('h, 'a) uart_scheme \<Rightarrow> (int \<times> ('h, 'a) uart_scheme) option" where
  "altera_avalon_jtag_uart_write_fd bus intr fd buffer space s =
     altera_avalon_jtag_uart_write bus intr buffer space (fd_flags (alt_fd_list s ! fd)) s"

definition altera_avalon_jtag_uart_close_fd ::
  "(('h, 'a) uart_scheme \<Rightarrow> ('h, 'a) uart_scheme) \<Rightarrow> nat \<Rightarrow> ('h, 'a) uart_scheme
   \<Rightarrow> (int \<times> ('h, 'a) uart_scheme) option" where
  "altera_avalon_jtag_uart_close_fd intr fd s =
     altera_avalon_jtag_uart_close intr (fd_flags (alt_fd_list s ! fd)) s"

definition altera_avalon_jtag_uart_ioctl_fd ::
  "nat \<Rightarrow> int \<Rightarrow> addr \<Rightarrow> ('h, 'a) uart_scheme \<Rightarrow> int \<times> ('h, 'a) uart_scheme" where
  "altera_avalon_jtag_uart_ioctl_fd fd req arg s = altera_avalon_jtag_uart_ioctl req arg s"

text \<open>
  The driver as the descriptor calls see it. Its device structure has null pointers for the
  functions it does not provide, which no call uses.
\<close>

definition uart_ops ::
  "'h bus \<Rightarrow> (('h, 'a) uart_scheme \<Rightarrow> ('h, 'a) uart_scheme) \<Rightarrow> ('h, 'a) uart_scheme driver_ops" where
  "uart_ops bus intr = \<lparr>d_open = (\<lambda>_ _ _ _ _ s. (0, s)),
     d_close = (\<lambda>_ fd s. altera_avalon_jtag_uart_close_fd intr fd s),
     d_read = (\<lambda>_ fd len s. altera_avalon_jtag_uart_read_fd bus intr fd len s),
     d_write = (\<lambda>_ fd bs len s. altera_avalon_jtag_uart_write_fd bus intr fd bs len s),
     d_lseek = (\<lambda>_ _ _ _ s. (0, s)), d_fstat = (\<lambda>_ _ s. ((0, 0), s)),
     d_ioctl = (\<lambda>_ fd req arg s. altera_avalon_jtag_uart_ioctl_fd fd req arg s)\<rparr>"

section \<open>The buffers as queues\<close>

definition rx_queue :: "('h, 'a) uart_scheme \<Rightarrow> alt_u8 list" where
  "rx_queue s = ring (rx_buf s) (rx_in s) (rx_out s)"

definition tx_queue :: "('h, 'a) uart_scheme \<Rightarrow> alt_u8 list" where
  "tx_queue s = ring (tx_buf s) (tx_in s) (tx_out s)"

definition uart_wf :: "('h, 'a) uart_scheme \<Rightarrow> bool" where
  "uart_wf s \<longleftrightarrow> ring_wf (rx_buf s) (rx_in s) (rx_out s) \<and> ring_wf (tx_buf s) (tx_in s) (tx_out s)"

text \<open>
  What an interrupt may do behind the program's back: add bytes at the end of the receive queue
  and take bytes from the front of the transmit queue. It does not touch what belongs to the
  program side, nor the descriptor table.
\<close>

definition isr_step :: "('h, 'a) uart_scheme \<Rightarrow> ('h, 'a) uart_scheme \<Rightarrow> bool" where
  "isr_step s s' \<longleftrightarrow> uart_wf s' \<and> (\<exists>xs. rx_queue s' = rx_queue s @ xs)
     \<and> (\<exists>n. tx_queue s' = drop n (tx_queue s))
     \<and> rx_out s' = rx_out s \<and> tx_in s' = tx_in s \<and> tx_buf s' = tx_buf s
     \<and> fd_view s' = fd_view s \<and> status s' = status s"

lemma isr_step_refl: "uart_wf s \<Longrightarrow> isr_step s s"
  by (auto simp: isr_step_def intro: exI [of _ "[]"] exI [of _ 0])

lemma isr_step_trans: "isr_step s t \<Longrightarrow> isr_step t u \<Longrightarrow> isr_step s u"
  unfolding isr_step_def by (auto simp: drop_drop)

lemma isr_step_wf: "isr_step s s' \<Longrightarrow> uart_wf s'"
  by (simp add: isr_step_def)

lemma uart_iord_simps [simp]:
  "rx_in (snd (uart_iord bus r s)) = rx_in s" "rx_out (snd (uart_iord bus r s)) = rx_out s"
  "tx_in (snd (uart_iord bus r s)) = tx_in s" "tx_out (snd (uart_iord bus r s)) = tx_out s"
  "rx_buf (snd (uart_iord bus r s)) = rx_buf s" "tx_buf (snd (uart_iord bus r s)) = tx_buf s"
  "rx_queue (snd (uart_iord bus r s)) = rx_queue s" "tx_queue (snd (uart_iord bus r s)) = tx_queue s"
  "uart_wf (snd (uart_iord bus r s)) = uart_wf s" "fd_view (snd (uart_iord bus r s)) = fd_view s"
  "status (snd (uart_iord bus r s)) = status s" "ju_base (snd (uart_iord bus r s)) = ju_base s"
  "hw (snd (uart_iord bus r s)) = snd (iord bus (ju_base s) r (hw s))"
  "fst (uart_iord bus r s) = fst (iord bus (ju_base s) r (hw s))"
  by (simp_all add: uart_iord_def rx_queue_def tx_queue_def uart_wf_def fd_view_def split: prod.splits)

lemma uart_iowr_simps [simp]:
  "rx_in (uart_iowr bus r v s) = rx_in s" "rx_out (uart_iowr bus r v s) = rx_out s"
  "tx_in (uart_iowr bus r v s) = tx_in s" "tx_out (uart_iowr bus r v s) = tx_out s"
  "rx_buf (uart_iowr bus r v s) = rx_buf s" "tx_buf (uart_iowr bus r v s) = tx_buf s"
  "rx_queue (uart_iowr bus r v s) = rx_queue s" "tx_queue (uart_iowr bus r v s) = tx_queue s"
  "uart_wf (uart_iowr bus r v s) = uart_wf s" "fd_view (uart_iowr bus r v s) = fd_view s"
  "status (uart_iowr bus r v s) = status s" "ju_base (uart_iowr bus r v s) = ju_base s"
  "hw (uart_iowr bus r v s) = iowr bus (ju_base s) r v (hw s)"
  by (simp_all add: uart_iowr_def rx_queue_def tx_queue_def uart_wf_def fd_view_def)

lemma irq_enable_field_simps [simp]:
  "rx_queue (s\<lparr>ju_irq_enable := e\<rparr>) = rx_queue s" "tx_queue (s\<lparr>ju_irq_enable := e\<rparr>) = tx_queue s"
  "uart_wf (s\<lparr>ju_irq_enable := e\<rparr>) = uart_wf s" "fd_view (s\<lparr>ju_irq_enable := e\<rparr>) = fd_view s"
  by (simp_all add: rx_queue_def tx_queue_def uart_wf_def fd_view_def)

lemma rx_store_simps [simp]:
  "rx_out (rx_store d s) = rx_out s" "tx_in (rx_store d s) = tx_in s" "tx_out (rx_store d s) = tx_out s"
  "tx_buf (rx_store d s) = tx_buf s" "tx_queue (rx_store d s) = tx_queue s"
  "fd_view (rx_store d s) = fd_view s" "status (rx_store d s) = status s"
  "ju_base (rx_store d s) = ju_base s" "hw (rx_store d s) = hw s"
  by (simp_all add: rx_store_def tx_queue_def fd_view_def)

section \<open>The interrupt routine conserves the data\<close>

text \<open>
  The documented behaviour of the device: a receive FIFO read through the data register, a
  transmitter with room for some more bytes, both visible through the control register. The
  transmitter may drain at any time, so what is known of its room is a lower bound.
\<close>

locale uart_device =
  fixes bus :: "'h bus" and base :: addr
    and fifo :: "'h \<Rightarrow> alt_u8 list" and sent :: "'h \<Rightarrow> alt_u8 list" and room :: "'h \<Rightarrow> nat"
  assumes read_empty: "fifo h = [] \<Longrightarrow> iord bus base 0 h = (v, h') \<Longrightarrow>
      v AND RVALID_MSK = 0 \<and> fifo h' = [] \<and> sent h' = sent h \<and> room h \<le> room h'"
    and read_byte: "fifo h = b # bs \<Longrightarrow> iord bus base 0 h = (v, h') \<Longrightarrow>
      v AND RVALID_MSK \<noteq> 0 \<and> ucast (v AND DATA_MSK) = b \<and> fifo h' = bs \<and> sent h' = sent h
      \<and> room h \<le> room h'"
    and write_byte: "0 < room h \<Longrightarrow> fifo (iowr bus base 0 v h) = fifo h
      \<and> sent (iowr bus base 0 v h) = sent h @ [ucast v] \<and> room h \<le> Suc (room (iowr bus base 0 v h))"
    and read_control: "iord bus base 1 h = (v, h') \<Longrightarrow> fifo h' = fifo h \<and> sent h' = sent h
      \<and> unat (drop_bit 16 (v AND WSPACE_MSK)) \<le> room h' \<and> room h \<le> room h'"
    and write_control: "fifo (iowr bus base 1 v h) = fifo h \<and> sent (iowr bus base 1 v h) = sent h
      \<and> room h \<le> room (iowr bus base 1 v h)"
begin

text \<open>No byte is lost, duplicated or reordered on its way in or out.\<close>

definition conserves :: "('h, 'a) uart_scheme \<Rightarrow> ('h, 'a) uart_scheme \<Rightarrow> bool" where
  "conserves s s' \<longleftrightarrow> isr_step s s' \<and> ju_base s' = ju_base s
     \<and> rx_queue s' @ fifo (hw s') = rx_queue s @ fifo (hw s)
     \<and> sent (hw s') @ tx_queue s' = sent (hw s) @ tx_queue s"

lemma conserves_refl: "uart_wf s \<Longrightarrow> conserves s s"
  by (simp add: conserves_def isr_step_refl)

lemma conserves_trans: "conserves s t \<Longrightarrow> conserves t u \<Longrightarrow> conserves s u"
  using isr_step_trans by (auto simp: conserves_def)

lemma conserves_wf: "conserves s t \<Longrightarrow> uart_wf t"
  by (simp add: conserves_def isr_step_def)

lemma conserves_control_read:
  assumes "uart_wf s" "ju_base s = base"
  shows "conserves s (snd (uart_iord bus UART_CONTROL s))"
    and "room (hw s) \<le> room (hw (snd (uart_iord bus UART_CONTROL s)))"
    and "unat (drop_bit 16 (fst (uart_iord bus UART_CONTROL s) AND WSPACE_MSK))
      \<le> room (hw (snd (uart_iord bus UART_CONTROL s)))"
proof -
  obtain v h' where "iord bus base 1 (hw s) = (v, h')" by fastforce
  then show "conserves s (snd (uart_iord bus UART_CONTROL s))"
    "room (hw s) \<le> room (hw (snd (uart_iord bus UART_CONTROL s)))"
    "unat (drop_bit 16 (fst (uart_iord bus UART_CONTROL s) AND WSPACE_MSK))
      \<le> room (hw (snd (uart_iord bus UART_CONTROL s)))"
    using read_control [of "hw s" v h'] isr_step_refl [OF assms(1)] assms
    by (auto simp: conserves_def isr_step_def)
qed

text \<open>Turning an interrupt off at the device, with the read that confirms it.\<close>

lemma conserves_mask:
  assumes "uart_wf s" "ju_base s = base"
  shows "conserves s (snd (uart_iord bus UART_CONTROL
           (uart_iowr bus UART_CONTROL e (s\<lparr>ju_irq_enable := e\<rparr>))))"
    and "room (hw s) \<le> room (hw (snd (uart_iord bus UART_CONTROL
           (uart_iowr bus UART_CONTROL e (s\<lparr>ju_irq_enable := e\<rparr>)))))"
proof -
  let ?t = "uart_iowr bus UART_CONTROL e (s\<lparr>ju_irq_enable := e\<rparr>)"
  have t: "conserves s ?t" "room (hw s) \<le> room (hw ?t)" "uart_wf ?t" "ju_base ?t = base"
    using write_control [of e "hw s"] isr_step_refl [OF assms(1)] assms
    by (auto simp: conserves_def isr_step_def)
  then show "conserves s (snd (uart_iord bus UART_CONTROL ?t))"
    "room (hw s) \<le> room (hw (snd (uart_iord bus UART_CONTROL ?t)))"
    using conserves_control_read [OF t(3,4)] conserves_trans by (blast, linarith)
qed

lemma rx_loop:
  assumes "uart_wf s" "ju_base s = base"
  shows "\<exists>d s'. uart_irq_rx_loop bus data s = Some (d, s') \<and> conserves s s' \<and> room (hw s) \<le> room (hw s')"
  using assms
proof (induction "BUF_LEN - length (rx_queue s)" arbitrary: data s rule: less_induct)
  case less
  note wf = less.prems(1) and b = less.prems(2)
  have rwf: "ring_wf (rx_buf s) (rx_in s) (rx_out s)" using wf by (simp add: uart_wf_def)
  show ?case
  proof (cases "(rx_in s + 1) mod BUF_LEN = rx_out s")
    case True
    then show ?thesis
      using conserves_refl [OF wf] by (simp add: uart_irq_rx_loop.simps)
  next
    case False
    obtain v h' where rd: "iord bus base 0 (hw s) = (v, h')" by fastforce
    let ?s1 = "snd (uart_iord bus UART_DATA s)"
    show ?thesis
    proof (cases "fifo (hw s)")
      case Nil
      then have "conserves s ?s1" "room (hw s) \<le> room (hw ?s1)" "v AND RVALID_MSK = 0"
        using read_empty [OF Nil rd] isr_step_refl [OF wf] b rd by (auto simp: conserves_def isr_step_def)
      then show ?thesis using False b rd by (simp add: uart_irq_rx_loop.simps)
    next
      case (Cons x xs)
      let ?s2 = "rx_store v ?s1"
      have r: "v AND RVALID_MSK \<noteq> 0" "ucast (v AND DATA_MSK) = x" "fifo h' = xs" "sent h' = sent (hw s)"
        "room (hw s) \<le> room h'"
        using read_byte [OF Cons rd] by auto
      have q: "rx_queue ?s2 = rx_queue s @ [x]" "ring_wf (rx_buf ?s2) (rx_in ?s2) (rx_out ?s2)"
        using ring_in_one [OF rwf False, of x] r(2) by (simp_all add: rx_store_def rx_queue_def)
      have c: "conserves s ?s2"
        using q r Cons b rd wf
        by (auto simp: conserves_def isr_step_def uart_wf_def intro: exI [of _ 0])
      have "length (rx_queue s) < BUF_LEN" "length (rx_queue ?s2) < BUF_LEN"
        using ring_length_less [OF rwf] ring_length_less [OF q(2)] by (simp_all add: rx_queue_def)
      then have "BUF_LEN - length (rx_queue ?s2) < BUF_LEN - length (rx_queue s)" using q by simp
      from less.hyps [OF this, of v] obtain d s' where s':
        "uart_irq_rx_loop bus v ?s2 = Some (d, s')" "conserves ?s2 s'" "room (hw ?s2) \<le> room (hw s')"
        using conserves_wf [OF c] b by auto
      have "uart_irq_rx_loop bus data s = uart_irq_rx_loop bus v ?s2"
        using False r(1) b rd by (simp add: uart_irq_rx_loop.simps [of bus data s])
      moreover have "room (hw s) \<le> room (hw ?s2)" using r(5) b rd by simp
      ultimately show ?thesis using s' conserves_trans [OF c s'(2)] by auto
    qed
  qed
qed

lemma irq_rx:
  assumes "uart_wf s" "ju_base s = base"
  shows "\<exists>s'. uart_irq_rx bus s = Some s' \<and> conserves s s' \<and> room (hw s) \<le> room (hw s')"
proof -
  obtain d s1 where s1: "uart_irq_rx_loop bus (push_bit 16 1) s = Some (d, s1)" "conserves s s1"
    "room (hw s) \<le> room (hw s1)" using rx_loop [OF assms] by blast
  then have wf: "uart_wf s1" "ju_base s1 = base" using assms by (auto simp: conserves_def isr_step_def)
  show ?thesis
    using s1 conserves_mask [OF wf] conserves_trans [OF s1(2)] order_trans [OF s1(3)]
    by (auto simp: uart_irq_rx_def Let_def)
qed

lemma tx_step:
  assumes "uart_wf s" "ju_base s = base" "tx_out s \<noteq> tx_in s" "0 < room (hw s)"
  shows "conserves s ((uart_iowr bus UART_DATA (scast (tx_buf s ! tx_out s)) s)
           \<lparr>tx_out := (tx_out s + 1) mod BUF_LEN\<rparr>)"
proof -
  let ?t = "(uart_iowr bus UART_DATA (scast (tx_buf s ! tx_out s)) s)\<lparr>tx_out := (tx_out s + 1) mod BUF_LEN\<rparr>"
  have twf: "ring_wf (tx_buf s) (tx_in s) (tx_out s)" using assms(1) by (simp add: uart_wf_def)
  note o = ring_out_one [OF twf assms(3) [symmetric]]
  have q: "tx_queue s = tx_buf s ! tx_out s # tx_queue ?t"
    using o(1) by (simp add: tx_queue_def)
  have same: "rx_queue ?t = rx_queue s" "fd_view ?t = fd_view s" "status ?t = status s"
    by (simp_all add: rx_queue_def fd_view_def) (simp_all add: uart_iowr_def)
  have "isr_step s ?t"
    using q same o(2) assms(1)
    by (auto simp: isr_step_def uart_wf_def intro: exI [of _ "[]"] exI [of _ 1])
  moreover have "hw ?t = iowr bus base 0 (scast (tx_buf s ! tx_out s)) (hw s)" using assms(2) by simp
  ultimately show ?thesis
    using write_byte [OF assms(4), of "scast (tx_buf s ! tx_out s)"] q same assms(2)
    by (simp add: conserves_def)
qed

lemma tx_loop:
  assumes "uart_wf s" "ju_base s = base" "n \<le> room (hw s)"
  shows "conserves s (snd (uart_irq_tx_loop bus n s))"
    and "0 < fst (uart_irq_tx_loop bus n s) \<Longrightarrow> tx_queue (snd (uart_irq_tx_loop bus n s)) = []"
proof -
  have "conserves s (snd (uart_irq_tx_loop bus n s))
    \<and> (0 < fst (uart_irq_tx_loop bus n s) \<longrightarrow> tx_queue (snd (uart_irq_tx_loop bus n s)) = [])"
    using assms
  proof (induction n arbitrary: s)
    case 0
    then show ?case by (simp add: conserves_refl)
  next
    case (Suc n)
    have twf: "ring_wf (tx_buf s) (tx_in s) (tx_out s)" using Suc.prems by (simp add: uart_wf_def)
    show ?case
    proof (cases "tx_out s = tx_in s")
      case True
      then show ?thesis
        using Suc.prems ring_Nil_iff [OF twf] by (simp add: conserves_refl tx_queue_def)
    next
      case False
      let ?t = "(uart_iowr bus UART_DATA (scast (tx_buf s ! tx_out s)) s)\<lparr>tx_out := (tx_out s + 1) mod BUF_LEN\<rparr>"
      have c: "conserves s ?t" by (rule tx_step) (use Suc.prems False in auto)
      have "n \<le> room (hw ?t)"
        using Suc.prems write_byte [of "hw s" "scast (tx_buf s ! tx_out s)"] by simp
      then show ?thesis
        using False Suc.IH [of ?t] conserves_wf [OF c] conserves_trans [OF c] Suc.prems(2) by simp
    qed
  qed
  then show "conserves s (snd (uart_irq_tx_loop bus n s))"
    "0 < fst (uart_irq_tx_loop bus n s) \<Longrightarrow> tx_queue (snd (uart_irq_tx_loop bus n s)) = []" by auto
qed

lemma irq_tx:
  assumes "uart_wf s" "ju_base s = base" "unat (drop_bit 16 (control AND WSPACE_MSK)) \<le> room (hw s)"
  shows "conserves s (uart_irq_tx bus control s)"
proof -
  obtain n s1 where r: "uart_irq_tx_loop bus (unat (drop_bit 16 (control AND WSPACE_MSK))) s = (n, s1)"
    by fastforce
  then have c: "conserves s s1" using tx_loop(1) [OF assms] by simp
  then have "uart_wf s1" "ju_base s1 = base"
    using assms by (auto simp: conserves_def isr_step_def)
  then have "conserves s (snd (uart_iord bus UART_CONTROL (uart_iowr bus UART_CONTROL e
      (s1\<lparr>ju_irq_enable := e\<rparr>))))" for e
    using conserves_mask conserves_trans [OF c] by blast
  then show ?thesis using c unfolding uart_irq_tx_def r Let_def by simp
qed

text \<open>One pass of the interrupt routine always completes.\<close>

lemma isr_pass:
  assumes "uart_wf s" "ju_base s = base" "fst (uart_iord bus UART_CONTROL s) = control"
    and "s0 = snd (uart_iord bus UART_CONTROL s)"
  obtains s1 where "(if control AND RI_MSK \<noteq> 0 then uart_irq_rx bus s0 else Some s0) = Some s1"
    "conserves s (if control AND WI_MSK \<noteq> 0 then uart_irq_tx bus control s1 else s1)"
proof -
  note r = conserves_control_read [OF assms(1,2), folded assms(4)] 
  have wf0: "uart_wf s0" "ju_base s0 = base" using r(1) assms(2) by (auto simp: conserves_def isr_step_def)
  obtain s1 where s1: "(if control AND RI_MSK \<noteq> 0 then uart_irq_rx bus s0 else Some s0) = Some s1"
    "conserves s0 s1" "room (hw s0) \<le> room (hw s1)"
    using irq_rx [OF wf0] conserves_refl [OF wf0(1)] by (cases "control AND RI_MSK \<noteq> 0") auto
  have wf1: "uart_wf s1" "ju_base s1 = base" using s1(2) wf0 by (auto simp: conserves_def isr_step_def)
  have "unat (drop_bit 16 (control AND WSPACE_MSK)) \<le> room (hw s1)"
    using r(3) s1(3) assms(3) by simp
  then have "conserves s1 (if control AND WI_MSK \<noteq> 0 then uart_irq_tx bus control s1 else s1)"
    using irq_tx [OF wf1] conserves_refl [OF wf1(1)] by simp
  then show thesis
    using that [OF s1(1)] conserves_trans [OF conserves_trans [OF r(1) s1(2)]] by blast
qed

lemma isr_conserves:
  assumes "altera_avalon_jtag_uart_irq bus s = Some s'" "uart_wf s" "ju_base s = base"
  shows "conserves s s'"
proof -
  have "bus = bus \<longrightarrow> uart_wf s \<longrightarrow> ju_base s = base \<longrightarrow> conserves s s'"
  proof (rule altera_avalon_jtag_uart_irq.raw_induct [where P = "\<lambda>b s s'. b = bus \<longrightarrow>
      uart_wf s \<longrightarrow> ju_base s = base \<longrightarrow> conserves s s'", OF _ assms(1)], goal_cases)
    case (1 irq b s s')
    show ?case
    proof (intro impI)
      assume a: "b = bus" "uart_wf s" "ju_base s = base"
      let ?c = "fst (uart_iord bus UART_CONTROL s)" and ?s0 = "snd (uart_iord bus UART_CONTROL s)"
      show "conserves s s'"
      proof (cases "?c AND (RI_MSK OR WI_MSK) = 0")
        case True
        then have "s' = ?s0" using 1(2) a(1) by (simp add: Let_def)
        then show ?thesis using conserves_control_read(1) [OF a(2,3)] by simp
      next
        case False
        obtain s1 where s1: "(if ?c AND RI_MSK \<noteq> 0 then uart_irq_rx bus ?s0 else Some ?s0) = Some s1"
          "conserves s (if ?c AND WI_MSK \<noteq> 0 then uart_irq_tx bus ?c s1 else s1)"
          using isr_pass [OF a(2,3) refl refl] by metis
        let ?t = "if ?c AND WI_MSK \<noteq> 0 then uart_irq_tx bus ?c s1 else s1"
        have "irq bus ?t = Some s'"
          using 1(2) False s1(1) unfolding Let_def a(1) by (simp only: if_False Option.bind.simps)
        moreover have "uart_wf ?t" "ju_base ?t = base"
          using s1(2) a(3) by (auto simp: conserves_def isr_step_def)
        ultimately have "conserves ?t s'" using 1(1) by blast
        then show ?thesis using conserves_trans [OF s1(2)] by blast
      qed
    qed
  qed
  then show ?thesis using assms(2,3) by blast
qed

end

section \<open>Reading and writing under interrupts\<close>

text \<open>
  What a program-side operation did, seen from outside: it took \<open>bs\<close> from the receive queue and
  put \<open>cs\<close> into the transmit queue, while interrupts did their part.
\<close>

definition prog_step ::
  "('h, 'a) uart_scheme \<Rightarrow> alt_u8 list \<Rightarrow> alt_u8 list \<Rightarrow> ('h, 'a) uart_scheme \<Rightarrow> bool" where
  "prog_step s bs cs s' \<longleftrightarrow> uart_wf s' \<and> (\<exists>xs. rx_queue s @ xs = bs @ rx_queue s')
     \<and> (\<exists>n. drop n (tx_queue s @ cs) = tx_queue s')
     \<and> fd_view s' = fd_view s \<and> status s' = status s"

lemma isr_prog_step: "isr_step s s' \<Longrightarrow> prog_step s [] [] s'"
  by (auto simp: prog_step_def isr_step_def)

lemma prog_step_trans:
  assumes "prog_step s as cs t" "prog_step t bs ds u"
  shows "prog_step s (as @ bs) (cs @ ds) u"
proof -
  obtain xs ys where x: "rx_queue s @ xs = as @ rx_queue t" "rx_queue t @ ys = bs @ rx_queue u"
    using assms by (auto simp: prog_step_def)
  then have "rx_queue s @ (xs @ ys) = (as @ bs) @ rx_queue u"
    by (metis append.assoc)
  moreover obtain n m where "drop n (tx_queue s @ cs) = tx_queue t" "drop m (tx_queue t @ ds) = tx_queue u"
    using assms by (auto simp: prog_step_def)
  then have "tx_queue u = drop m (drop n (tx_queue s @ cs) @ ds)" by simp
  then have "\<exists>k. tx_queue u = drop k (tx_queue s @ cs @ ds)"
  proof (cases "n \<le> length (tx_queue s @ cs)")
    case True
    then have "drop n (tx_queue s @ cs) @ ds = drop n (tx_queue s @ cs @ ds)" by simp
    then show ?thesis using \<open>tx_queue u = _\<close> by (metis drop_drop)
  next
    case False
    then have "drop n (tx_queue s @ cs) @ ds = drop (length (tx_queue s @ cs)) (tx_queue s @ cs @ ds)"
      by simp
    then show ?thesis using \<open>tx_queue u = _\<close> by (metis drop_drop)
  qed
  ultimately show ?thesis using assms by (auto simp: prog_step_def)
qed

lemma enable_irq_step: "uart_wf s \<Longrightarrow> prog_step s [] [] (uart_enable_irq bus msk s)"
  by (auto simp: prog_step_def uart_enable_irq_def irq_defs uart_iowr_def uart_wf_def rx_queue_def
      tx_queue_def fd_view_def intro: exI [of _ "[]"] exI [of _ 0])

locale uart_interrupts =
  fixes intr :: "('h, 'a) uart_scheme \<Rightarrow> ('h, 'a) uart_scheme"
  assumes intr_step: "uart_wf s \<Longrightarrow> isr_step s (intr s)"
begin

lemma intr_wf: "uart_wf s \<Longrightarrow> uart_wf (intr s)"
  using intr_step isr_step_wf by blast

lemma intr_prog: "uart_wf s \<Longrightarrow> prog_step s [] [] (intr s)"
  using intr_step isr_prog_step by blast

text \<open>Copying one block out, with interrupts before the copy and before the index moves.\<close>

lemma block_out:
  assumes wf: "uart_wf s" and n: "n \<le> take_block (rx_in s) (rx_out s)"
    and bs: "bs = take n (drop (rx_out s) (rx_buf (intr s)))"
  shows "prog_step s bs [] ((intr (intr s))\<lparr>rx_out := (rx_out s + n) mod BUF_LEN\<rparr>)"
    and "bs = take n (rx_queue s)"
proof -
  let ?t = "intr s" and ?u = "intr (intr s)"
  have st: "isr_step s ?t" "isr_step ?t ?u" using intr_step wf intr_wf by auto
  obtain xs ys where q: "rx_queue ?t = rx_queue s @ xs" "rx_queue ?u = rx_queue ?t @ ys"
    using st by (auto simp: isr_step_def)
  have o: "rx_out ?t = rx_out s" "rx_out ?u = rx_out s" using st by (auto simp: isr_step_def)
  have w: "ring_wf (rx_buf s) (rx_in s) (rx_out s)" "ring_wf (rx_buf ?t) (rx_in ?t) (rx_out s)"
    "ring_wf (rx_buf ?u) (rx_in ?u) (rx_out s)"
    using wf st o by (auto simp: isr_step_def uart_wf_def)
  have r: "rx_queue s = ring (rx_buf s) (rx_in s) (rx_out s)"
    "rx_queue ?t = ring (rx_buf ?t) (rx_in ?t) (rx_out s)"
    "rx_queue ?u = ring (rx_buf ?u) (rx_in ?u) (rx_out s)"
    by (simp_all add: rx_queue_def o)
  have nt: "n \<le> take_block (rx_in ?t) (rx_out s)"
    using n take_block_mono [OF w(1,2)] q(1) r by simp
  have nu: "n \<le> take_block (rx_in ?u) (rx_out s)"
    using n take_block_mono [OF w(1,3)] q r by simp
  have nl: "n \<le> length (rx_queue s)" using n take_block_le [OF w(1)] r(1) by simp
  show b: "bs = take n (rx_queue s)"
    using ring_out(1) [OF w(2) nt] bs q(1) r(2) nl by simp
  have "rx_queue (?u\<lparr>rx_out := (rx_out s + n) mod BUF_LEN\<rparr>) = drop n (rx_queue ?u)"
    using ring_out(2) [OF w(3) nu] r(3) by (simp add: rx_queue_def)
  then have "rx_queue s @ (xs @ ys) = bs @ rx_queue (?u\<lparr>rx_out := (rx_out s + n) mod BUF_LEN\<rparr>)"
    using q b nl by simp
  moreover have "uart_wf (?u\<lparr>rx_out := (rx_out s + n) mod BUF_LEN\<rparr>)"
    using ring_out(3) [OF w(3) nu] isr_step_wf [OF st(2)] by (simp add: uart_wf_def)
  moreover obtain m k where "tx_queue ?t = drop m (tx_queue s)" "tx_queue ?u = drop k (tx_queue ?t)"
    using st by (auto simp: isr_step_def)
  then have "drop (k + m) (tx_queue s @ []) = tx_queue (?u\<lparr>rx_out := (rx_out s + n) mod BUF_LEN\<rparr>)"
    by (simp add: tx_queue_def)
  moreover have "fd_view (?u\<lparr>rx_out := (rx_out s + n) mod BUF_LEN\<rparr>) = fd_view s"
    "status (?u\<lparr>rx_out := (rx_out s + n) mod BUF_LEN\<rparr>) = status s"
    using st by (auto simp: isr_step_def fd_view_def)
  ultimately show "prog_step s bs [] (?u\<lparr>rx_out := (rx_out s + n) mod BUF_LEN\<rparr>)"
    unfolding prog_step_def by blast
qed

lemma read_copy:
  assumes "uart_wf s" "uart_read_copy intr space got s = (inn, got', left, s')"
  shows "\<exists>bs. got' = got @ bs \<and> length bs + left = space \<and> prog_step s bs [] s'
    \<and> (rx_queue s \<noteq> [] \<longrightarrow> 0 < space \<longrightarrow> bs \<noteq> [])"
  using assms
proof (induction space arbitrary: got s rule: less_induct)
  case (less space)
  let ?s1 = "intr s"
  let ?n = "take_block (rx_in ?s1) (rx_out ?s1)" and ?n' = "min (take_block (rx_in ?s1) (rx_out ?s1)) space"
  have i1: "prog_step s [] [] ?s1" by (rule intr_prog [OF less.prems(1)])
  have w1: "uart_wf ?s1" by (rule intr_wf [OF less.prems(1)])
  have rw: "ring_wf (rx_buf ?s1) (rx_in ?s1) (rx_out ?s1)" using w1 by (simp add: uart_wf_def)
  have some: "rx_queue s \<noteq> [] \<Longrightarrow> ?n \<noteq> 0"
    using take_block_0_iff [OF rw] intr_step [OF less.prems(1)] by (auto simp: isr_step_def rx_queue_def)
  show ?case
  proof (cases "?n = 0")
    case True
    then have "rx_queue s = []" using some by blast
    then show ?thesis
      using True less.prems(2) i1 by (subst (asm) uart_read_copy.simps) (simp add: Let_def)
  next
    case False
    let ?bs = "take ?n' (drop (rx_out ?s1) (rx_buf (intr ?s1)))"
    let ?s3 = "(intr (intr ?s1))\<lparr>rx_out := (rx_out ?s1 + ?n') mod BUF_LEN\<rparr>"
    have le: "?n' \<le> ?n" by simp
    have st: "prog_step ?s1 ?bs [] ?s3" by (rule block_out(1) [OF w1 le refl])
    have len: "length ?bs = ?n'"
      using block_out(2) [OF w1 le refl] take_block_le [OF rw] by (simp add: rx_queue_def min_def)
    have st': "prog_step s ?bs [] ?s3" using prog_step_trans [OF i1 st] by simp
    have eq: "(if space - ?n' > 0 then uart_read_copy intr (space - ?n') (got @ ?bs) ?s3
        else (rx_in ?s1, got @ ?bs, space - ?n', ?s3)) = (inn, got', left, s')"
      using less.prems(2) False by (subst (asm) uart_read_copy.simps) (simp only: Let_def if_False)
    show ?thesis
    proof (cases "space - ?n' > 0")
      case True
      then have "space - ?n' < space" using False by simp
      moreover have "uart_wf ?s3" using st by (simp add: prog_step_def)
      moreover have "uart_read_copy intr (space - ?n') (got @ ?bs) ?s3 = (inn, got', left, s')"
        using eq True by (simp only: if_True)
      ultimately obtain cs where "got' = (got @ ?bs) @ cs" "length cs + left = space - ?n'"
        "prog_step ?s3 cs [] s'" using less.IH by blast
      moreover have "?bs \<noteq> []" using len False True by auto
      ultimately show ?thesis
        using prog_step_trans [OF st'] len True by (intro exI [of _ "?bs @ cs"]) auto
    next
      case False
      then have "inn = rx_in ?s1 \<and> got' = got @ ?bs \<and> left = space - ?n' \<and> s' = ?s3"
        using eq by (simp only: if_False prod.inject simp_thms) metis
      then show ?thesis
        using st' len \<open>?n \<noteq> 0\<close> by (intro exI [of _ ?bs]) auto
    qed
  qed
qed

lemma read_spin:
  assumes "uart_read_spin intr inn s = Some s'" "uart_wf s"
  shows "prog_step s [] [] s'"
proof -
  have "intr = intr \<longrightarrow> uart_wf s \<longrightarrow> prog_step s [] [] s'"
  proof (rule uart_read_spin.raw_induct [where P = "\<lambda>i inn s s'. i = intr \<longrightarrow> uart_wf s \<longrightarrow>
      prog_step s [] [] s'", OF _ assms(1)], intro impI, goal_cases)
    case (1 spin i inn s s')
    then have st: "prog_step s [] [] (intr s)" "uart_wf (intr s)" using intr_prog intr_wf by auto
    show ?case
    proof (cases "inn = rx_in (intr s) \<and> ju_host_inactive (intr s) < ju_timeout (intr s)")
      case True
      then have "prog_step (intr s) [] [] s'" using 1 st(2) by (auto simp: Let_def)
      then show ?thesis using prog_step_trans [OF st(1)] by fastforce
    next
      case False
      then show ?thesis using 1 st by (auto simp: Let_def split: if_splits)
    qed
  qed
  then show ?thesis using assms(2) by simp
qed

lemma read_loop:
  assumes "uart_read_loop intr flags space s = Some (got, s')" "uart_wf s"
  shows "prog_step s got [] s' \<and> length got \<le> space"
proof -
  have "intr = intr \<longrightarrow> uart_wf s \<longrightarrow> prog_step s (fst (got, s')) [] (snd (got, s')) \<and> length (fst (got, s')) \<le> space"
  proof (rule uart_read_loop.raw_induct [where P = "\<lambda>i flags space s r. i = intr \<longrightarrow> uart_wf s \<longrightarrow>
      prog_step s (fst r) [] (snd r) \<and> length (fst r) \<le> space", OF _ assms(1)], intro impI, goal_cases)
    case (1 loop i flags space s r)
    obtain inn g left s1 where c: "uart_read_copy intr space [] s = (inn, g, left, s1)"
      by (metis prod_cases4)
    from read_copy [OF 1(4) c] have st: "prog_step s g [] s1" and len: "length g + left = space" by auto
    have w1: "uart_wf s1" using st by (simp add: prog_step_def)
    consider "space = 0" | "0 < space" "g \<noteq> [] \<or> flags AND O_NONBLOCK \<noteq> 0"
      | "0 < space" "g = []" "flags AND O_NONBLOCK = 0" by auto
    then show ?case
    proof cases
      case 1
      then show ?thesis using \<open>(if _ then _ else _) = Some r\<close> \<open>uart_wf s\<close>
        by (auto simp: prog_step_def intro: exI [of _ 0])
    next
      case 2
      then have "r = (g, s1)"
        using 1(2) c 1(3) by (auto simp: Let_def split: if_splits)
      then show ?thesis using st len by simp
    next
      case 3
      then obtain s2 where s2: "uart_read_spin intr inn s1 = Some s2"
        "(if inn = rx_in (intr s2) then Some ([], intr s2) else loop intr flags left (intr s2)) = Some r"
        using 1(2) 3 unfolding Let_def 1(3) c fst_conv snd_conv by (auto split: Option.bind_splits)
      have "prog_step s1 [] [] s2" by (rule read_spin [OF s2(1) w1])
      then have st2: "prog_step s [] [] (intr s2)" "uart_wf (intr s2)"
        using prog_step_trans [OF prog_step_trans [OF st] intr_prog, of "[]" "[]" s2] 3 intr_wf
        by (auto simp: prog_step_def)
      show ?thesis
      proof (cases "inn = rx_in (intr s2)")
        case True
        then show ?thesis using s2(2) st2 by auto
      next
        case False
        then have "prog_step (intr s2) (fst r) [] (snd r) \<and> length (fst r) \<le> left"
          using 1(1) [of intr flags left "intr s2" r] s2(2) st2(2) by simp
        then show ?thesis using prog_step_trans [OF st2(1)] len by fastforce
      qed
    qed
  qed
  then show ?thesis using assms(2) by simp
qed

text \<open>A read that finds data, or does not wish to wait, returns.\<close>

lemma read_loop_returns:
  assumes "uart_wf s" "rx_queue s \<noteq> [] \<or> flags AND O_NONBLOCK \<noteq> 0"
  shows "\<exists>got s'. uart_read_loop intr flags space s = Some (got, s')
    \<and> (rx_queue s \<noteq> [] \<longrightarrow> 0 < space \<longrightarrow> got \<noteq> [])"
proof -
  obtain inn g left s1 where c: "uart_read_copy intr space [] s = (inn, g, left, s1)"
    by (metis prod_cases4)
  from read_copy [OF assms(1) c] have "rx_queue s \<noteq> [] \<longrightarrow> 0 < space \<longrightarrow> g \<noteq> []" by auto
  then show ?thesis
    using assms(2) c by (subst uart_read_loop.simps) (auto simp: Let_def)
qed

text \<open>Copying one block in, with interrupts before the copy and before the index moves.\<close>

lemma block_in:
  assumes wf: "uart_wf s" and n: "length bs \<le> put_block (tx_in s) (tx_out s)"
    and t: "t = (intr s)\<lparr>tx_buf := copy_in (tx_buf (intr s)) (tx_in s) bs\<rparr>"
  shows "prog_step s [] bs ((intr t)\<lparr>tx_in := (tx_in s + length bs) mod BUF_LEN\<rparr>)"
proof -
  let ?i = "intr s" and ?u = "intr t"
  let ?f = "?u\<lparr>tx_in := (tx_in s + length bs) mod BUF_LEN\<rparr>"
  have si: "isr_step s ?i" by (rule intr_step [OF wf])
  then have own: "tx_in ?i = tx_in s" "tx_buf ?i = tx_buf s" by (auto simp: isr_step_def)
  have w: "ring_wf (tx_buf s) (tx_in s) (tx_out s)" "ring_wf (tx_buf s) (tx_in s) (tx_out ?i)"
    using wf isr_step_wf [OF si] own by (auto simp: uart_wf_def)
  have shrink: "length (tx_queue ?i) \<le> length (tx_queue s)" using si by (auto simp: isr_step_def)
  then have ni: "length bs \<le> put_block (tx_in s) (tx_out ?i)"
    using n put_block_mono [OF w] own by (simp add: tx_queue_def)
  have tq: "tx_queue t = tx_queue ?i" and tw: "ring_wf (tx_buf t) (tx_in t) (tx_out t)"
    using ring_copy_free [OF w(2) ni] own by (simp_all add: t tx_queue_def)
  have wt: "uart_wf t" using tw isr_step_wf [OF si] by (simp add: t uart_wf_def)
  have pt: "prog_step ?i [] [] t"
    using wt tq by (auto simp: prog_step_def t rx_queue_def fd_view_def intro: exI [of _ "[]"] exI [of _ 0])
  have su: "isr_step t ?u" by (rule intr_step [OF wt])
  have ut: "tx_buf ?u = copy_in (tx_buf s) (tx_in s) bs" "tx_in ?u = tx_in s"
    using su own by (auto simp: isr_step_def t)
  have wu: "ring_wf (copy_in (tx_buf s) (tx_in s) bs) (tx_in s) (tx_out ?u)"
    using isr_step_wf [OF su] ut by (simp add: uart_wf_def)
  then have wu': "ring_wf (tx_buf s) (tx_in s) (tx_out ?u)" using w(1) by (simp add: ring_wf_def)
  have "length (tx_queue ?u) \<le> length (tx_queue t)" using su by (auto simp: isr_step_def)
  then have "length (ring (tx_buf s) (tx_in s) (tx_out ?u)) \<le> length (ring (tx_buf s) (tx_in s) (tx_out ?i))"
    using ut ring_length [OF wu] ring_length [OF wu'] tq own by (simp add: tx_queue_def)
  then have nu: "length bs \<le> put_block (tx_in s) (tx_out ?u)"
    using ni put_block_mono [OF w(2) wu'] by simp
  have "tx_queue ?f = tx_queue ?u @ bs"
    using ring_in(1) [OF wu' nu] ring_copy_free(1) [OF wu' nu] ut by (simp add: tx_queue_def)
  moreover have "uart_wf ?f"
    using ring_in(2) [OF wu' nu] ut isr_step_wf [OF su] by (simp add: uart_wf_def)
  ultimately have "prog_step ?u [] bs ?f"
    by (auto simp: prog_step_def rx_queue_def fd_view_def intro: exI [of _ "[]"] exI [of _ 0])
  then show ?thesis
    using prog_step_trans [OF prog_step_trans [OF prog_step_trans [OF isr_prog_step [OF si] pt]
        isr_prog_step [OF su]]] by fastforce
qed

lemma write_fill:
  assumes "uart_wf s" "uart_write_fill intr rest out0 s = (left, out, s')"
  shows "\<exists>cs. rest = cs @ left \<and> prog_step s [] cs s'
    \<and> (rest \<noteq> [] \<longrightarrow> length (tx_queue s) < BUF_LEN - 1 \<longrightarrow> cs \<noteq> [])"
  using assms
proof (induction "length rest" arbitrary: rest out0 s rule: less_induct)
  case less
  show ?case
  proof (cases "rest = []")
    case True
    then have "left = [] \<and> s' = s" using less.prems(2) by (subst (asm) uart_write_fill.simps) simp
    then show ?thesis
      using True less.prems(1) by (auto simp: prog_step_def intro: exI [of _ "[]"] exI [of _ 0])
  next
    case ne: False
    let ?s1 = "intr s"
    let ?n = "put_block (tx_in ?s1) (tx_out ?s1)"
      and ?n' = "min (put_block (tx_in ?s1) (tx_out ?s1)) (length rest)"
    have i1: "prog_step s [] [] ?s1" by (rule intr_prog [OF less.prems(1)])
    have w1: "uart_wf ?s1" by (rule intr_wf [OF less.prems(1)])
    have rw: "ring_wf (tx_buf ?s1) (tx_in ?s1) (tx_out ?s1)" using w1 by (simp add: uart_wf_def)
    have room: "length (tx_queue s) < BUF_LEN - 1 \<Longrightarrow> ?n \<noteq> 0"
      using put_block_0_iff [OF rw] intr_step [OF less.prems(1)]
      by (auto simp: isr_step_def tx_queue_def)
    let ?t = "(intr ?s1)\<lparr>tx_buf := copy_in (tx_buf (intr ?s1)) (tx_in ?s1) (take ?n' rest)\<rparr>"
    let ?s3 = "(intr ?t)\<lparr>tx_in := (tx_in ?s1 + ?n') mod BUF_LEN\<rparr>"
    have eq: "(if ?n = 0 then (rest, tx_out ?s1, ?s1)
        else uart_write_fill intr (drop ?n' rest) (tx_out ?s1) ?s3) = (left, out, s')"
      using less.prems(2) ne by (subst (asm) uart_write_fill.simps) (simp only: Let_def if_True simp_thms)
    show ?thesis
    proof (cases "?n = 0")
      case True
      then have "left = rest \<and> s' = ?s1" using eq by (subst (asm) if_P [OF True]) auto
      then show ?thesis using i1 room True by auto
    next
      case False
      have "prog_step ?s1 [] (take ?n' rest) ?s3"
        using block_in [OF w1, of "take ?n' rest" ?t] by simp
      then have st: "prog_step s [] (take ?n' rest) ?s3" using prog_step_trans [OF i1] by fastforce
      have "uart_write_fill intr (drop ?n' rest) (tx_out ?s1) ?s3 = (left, out, s')"
        using eq False by (simp only: if_False)
      moreover have "length (drop ?n' rest) < length rest" using ne False by simp
      moreover have "uart_wf ?s3" using st by (simp add: prog_step_def)
      ultimately obtain cs where "drop ?n' rest = cs @ left" "prog_step ?s3 [] cs s'"
        using less.hyps by blast
      then have "rest = (take ?n' rest @ cs) @ left" "prog_step s [] (take ?n' rest @ cs) s'"
        using prog_step_trans [OF st] append_take_drop_id [of ?n' rest] by fastforce+
      moreover have "take ?n' rest \<noteq> []" using ne False by simp
      ultimately show ?thesis by blast
    qed
  qed
qed

lemma enable_wf: "uart_wf s \<Longrightarrow> uart_wf (uart_enable_irq bus msk s)"
  using enable_irq_step by (auto simp: prog_step_def)

text \<open>Filling the buffer and kicking the interrupt routine.\<close>

lemma write_pass:
  assumes "uart_wf s" "uart_write_fill intr rest out0 s = (left, out, t)"
    and "s1 = uart_enable_irq bus WE_MSK (intr t)"
  shows "\<exists>cs. rest = cs @ left \<and> prog_step s [] cs s1
    \<and> (rest \<noteq> [] \<longrightarrow> length (tx_queue s) < BUF_LEN - 1 \<longrightarrow> cs \<noteq> [])"
proof -
  obtain cs where cs: "rest = cs @ left" "prog_step s [] cs t"
    "rest \<noteq> [] \<longrightarrow> length (tx_queue s) < BUF_LEN - 1 \<longrightarrow> cs \<noteq> []"
    using write_fill [OF assms(1,2)] by blast
  then have wt: "uart_wf t" by (simp add: prog_step_def)
  have "prog_step t [] [] s1"
    using prog_step_trans [OF intr_prog [OF wt] enable_irq_step [OF intr_wf [OF wt], of bus WE_MSK]] assms(3)
    by simp
  then show ?thesis using cs prog_step_trans [OF cs(2)] by fastforce
qed

lemma write_spin:
  assumes "uart_write_spin intr out s = Some s'" "uart_wf s"
  shows "prog_step s [] [] s'"
proof -
  have "intr = intr \<longrightarrow> uart_wf s \<longrightarrow> prog_step s [] [] s'"
  proof (rule uart_write_spin.raw_induct [where P = "\<lambda>i out s s'. i = intr \<longrightarrow> uart_wf s \<longrightarrow>
      prog_step s [] [] s'", OF _ assms(1)], intro impI, goal_cases)
    case (1 spin i out s s')
    then have st: "prog_step s [] [] (intr s)" "uart_wf (intr s)" using intr_prog intr_wf by auto
    show ?case
    proof (cases "out = tx_out (intr s) \<and> ju_host_inactive (intr s) < ju_timeout (intr s)")
      case True
      then have "prog_step (intr s) [] [] s'" using 1 st(2) by (auto simp: Let_def)
      then show ?thesis using prog_step_trans [OF st(1)] by fastforce
    next
      case False
      then show ?thesis using 1 st by (auto simp: Let_def split: if_splits)
    qed
  qed
  then show ?thesis using assms(2) by simp
qed

lemma write_loop:
  assumes "uart_write_loop bus intr flags rest out0 s = Some (left, s')" "uart_wf s"
  shows "\<exists>cs. rest = cs @ left \<and> prog_step s [] cs s'"
proof -
  have "intr = intr \<longrightarrow> uart_wf s \<longrightarrow> (\<exists>cs. rest = cs @ fst (left, s') \<and> prog_step s [] cs (snd (left, s')))"
  proof (rule uart_write_loop.raw_induct [where P = "\<lambda>b i flags rest out0 s r. i = intr \<longrightarrow> uart_wf s \<longrightarrow>
      (\<exists>cs. rest = cs @ fst r \<and> prog_step s [] cs (snd r))", OF _ assms(1)], intro impI, goal_cases)
    case (1 loop b i flags rest out0 s r)
    obtain l out t where f: "uart_write_fill intr rest out0 s = (l, out, t)" by (metis prod_cases3)
    let ?s1 = "uart_enable_irq b WE_MSK (intr t)"
    obtain cs where cs: "rest = cs @ l" "prog_step s [] cs ?s1"
      using write_pass [OF 1(4) f refl] by blast
    have w1: "uart_wf ?s1" using cs(2) by (simp add: prog_step_def)
    have step: "(if l = [] then Some ([], ?s1)
        else if flags AND O_NONBLOCK \<noteq> 0 then Some (l, ?s1)
        else Option.bind (uart_write_spin intr out ?s1) (\<lambda>s2.
          if ju_host_inactive (intr s2) \<noteq> 0 then Some (l, intr s2)
          else loop b intr flags l out (intr s2))) = Some r"
      using 1(2) unfolding Let_def 1(3) f fst_conv snd_conv .
    show ?case
    proof (cases "l = [] \<or> flags AND O_NONBLOCK \<noteq> 0")
      case True
      then have "r = (l, ?s1)" using step by (auto split: if_splits)
      then show ?thesis using cs by auto
    next
      case False
      then obtain s2 where s2: "uart_write_spin intr out ?s1 = Some s2"
        "(if ju_host_inactive (intr s2) \<noteq> 0 then Some (l, intr s2)
          else loop b intr flags l out (intr s2)) = Some r"
        using step by (auto split: Option.bind_splits)
      have sp: "prog_step ?s1 [] [] s2" by (rule write_spin [OF s2(1) w1])
      then have w2: "uart_wf s2" by (simp add: prog_step_def)
      have st2: "prog_step s [] cs (intr s2)"
        using prog_step_trans [OF prog_step_trans [OF cs(2) sp] intr_prog [OF w2]] by simp
      show ?thesis
      proof (cases "ju_host_inactive (intr s2) \<noteq> 0")
        case True
        then show ?thesis using s2(2) st2 cs(1) by auto
      next
        case False
        then have "\<exists>ds. l = ds @ fst r \<and> prog_step (intr s2) [] ds (snd r)"
          using 1(1) [of b intr flags l out "intr s2" r] s2(2) intr_wf [OF w2] by simp
        then obtain ds where "l = ds @ fst r" "prog_step (intr s2) [] ds (snd r)" by blast
        then show ?thesis using prog_step_trans [OF st2] cs(1) by fastforce
      qed
    qed
  qed
  then show ?thesis using assms(2) by simp
qed

text \<open>A write that fits, or does not wish to wait, returns.\<close>

lemma write_loop_returns:
  assumes "uart_wf s" "flags AND O_NONBLOCK \<noteq> 0"
  shows "\<exists>left s'. uart_write_loop bus intr flags rest out0 s = Some (left, s')
    \<and> (rest \<noteq> [] \<longrightarrow> length (tx_queue s) < BUF_LEN - 1 \<longrightarrow> length left < length rest)"
proof -
  obtain l out t where f: "uart_write_fill intr rest out0 s = (l, out, t)" by (metis prod_cases3)
  let ?s1 = "uart_enable_irq bus WE_MSK (intr t)"
  obtain cs where cs: "rest = cs @ l"
    "rest \<noteq> [] \<longrightarrow> length (tx_queue s) < BUF_LEN - 1 \<longrightarrow> cs \<noteq> []"
    using write_pass [OF assms(1) f refl] by blast
  have "uart_write_loop bus intr flags rest out0 s = Some (l, ?s1)"
    using assms(2) by (subst uart_write_loop.simps) (simp add: Let_def f)
  then show ?thesis using cs by auto
qed

lemma close_conserves:
  assumes "altera_avalon_jtag_uart_close intr flags s = Some (rc, s')" "uart_wf s"
  shows "prog_step s [] [] s' \<and> (rc = 0 \<longrightarrow> tx_queue s' = [] \<or> ju_timeout s' \<le> ju_host_inactive s')"
proof -
  have "intr = intr \<longrightarrow> uart_wf s \<longrightarrow> prog_step s [] [] (snd (rc, s'))
    \<and> (fst (rc, s') = 0 \<longrightarrow> tx_queue (snd (rc, s')) = [] \<or> ju_timeout (snd (rc, s')) \<le> ju_host_inactive (snd (rc, s')))"
  proof (rule altera_avalon_jtag_uart_close.raw_induct [where P = "\<lambda>i flags s r. i = intr \<longrightarrow> uart_wf s \<longrightarrow>
      prog_step s [] [] (snd r) \<and> (fst r = 0 \<longrightarrow> tx_queue (snd r) = [] \<or> ju_timeout (snd r) \<le> ju_host_inactive (snd r))",
      OF _ assms(1)], intro impI, goal_cases)
    case (1 close i flags s r)
    then have st: "prog_step s [] [] (intr s)" "uart_wf (intr s)" using intr_prog intr_wf by auto
    then have tw: "ring_wf (tx_buf (intr s)) (tx_in (intr s)) (tx_out (intr s))" by (simp add: uart_wf_def)
    let ?wait = "tx_out (intr s) \<noteq> tx_in (intr s) \<and> ju_host_inactive (intr s) < ju_timeout (intr s)"
    show ?case
    proof (cases "?wait \<and> flags AND O_NONBLOCK = 0")
      case True
      then have "close intr flags (intr s) = Some r" using 1(2,3) by (simp add: Let_def)
      from 1(1) [OF this] st(2) show ?thesis using prog_step_trans [OF st(1)] by fastforce
    next
      case False
      then have "r = (if ?wait then (- EWOULDBLOCK, intr s) else (0, intr s))"
        using 1(2,3) by (auto simp: Let_def split: if_splits)
      then show ?thesis
        using st ring_Nil_iff [OF tw] by (auto simp: tx_queue_def EWOULDBLOCK_def not_less)
    qed
  qed
  then show ?thesis using assms(2) by simp
qed

end

end
