(* ===== verification/Uart_System.thy ===== *)
theory Uart_System
  imports Jtag_Uart
begin

text \<open>
  The JTAG UART driver put together: the interrupt routine satisfies what the program side
  relies on, the driver's functions satisfy what the descriptor calls rely on, and the
  properties of reading and writing that follow.
\<close>

section \<open>The driver leaves the descriptor table alone\<close>

lemma fd_view_uart_fields [simp]:
  "fd_view (s\<lparr>rx_out := a\<rparr>) = fd_view s" "fd_view (s\<lparr>rx_in := a\<rparr>) = fd_view s"
  "fd_view (s\<lparr>tx_out := a\<rparr>) = fd_view s" "fd_view (s\<lparr>tx_in := a\<rparr>) = fd_view s"
  "fd_view (s\<lparr>rx_buf := b\<rparr>) = fd_view s" "fd_view (s\<lparr>tx_buf := b\<rparr>) = fd_view s"
  "fd_view (s\<lparr>ju_timeout := c\<rparr>) = fd_view s" "fd_view (s\<lparr>int_at := f\<rparr>) = fd_view s"
  "fd_view (s\<lparr>ju_host_inactive := c\<rparr>) = fd_view s"
  for s :: "('h, 'a) uart_scheme"
  by (simp_all add: fd_view_def)

lemma fd_view_enable [simp]: "fd_view (uart_enable_irq bus msk s) = fd_view s"
  by (simp add: uart_enable_irq_def irq_defs fd_view_def uart_iowr_def)

text \<open>The interrupts a program may see: their effect on the table, whatever the state.\<close>

locale quiet_interrupts =
  fixes intr :: "('h, 'a) uart_scheme \<Rightarrow> ('h, 'a) uart_scheme"
  assumes intr_view [simp]: "fd_view (intr s) = fd_view s"
begin

lemma view_read_copy: "fd_view (snd (snd (snd (uart_read_copy intr space got s)))) = fd_view s"
proof (induction space arbitrary: got s rule: less_induct)
  case (less space)
  show ?case
    using less.IH by (subst uart_read_copy.simps) (auto simp: Let_def)
qed

lemma view_read_spin:
  assumes "uart_read_spin intr inn s = Some s'"
  shows "fd_view s' = fd_view s"
proof -
  have "intr = intr \<longrightarrow> fd_view s' = fd_view s"
    by (rule uart_read_spin.raw_induct [where P = "\<lambda>i inn s s'. i = intr \<longrightarrow> fd_view s' = fd_view s", OF _ assms])
       (fastforce simp: Let_def split: if_splits)
  then show ?thesis by simp
qed

lemma view_read_loop:
  assumes "uart_read_loop intr flags space s = Some r"
  shows "fd_view (snd r) = fd_view s"
proof -
  have "intr = intr \<longrightarrow> fd_view (snd r) = fd_view s"
  proof (rule uart_read_loop.raw_induct [where P = "\<lambda>i flags space s r. i = intr \<longrightarrow>
      fd_view (snd r) = fd_view s", OF _ assms], intro impI, goal_cases)
    case (1 loop i flags space s r)
    obtain inn g left s1 where c: "uart_read_copy intr space [] s = (inn, g, left, s1)"
      by (metis prod_cases4)
    have v: "fd_view s1 = fd_view s" using view_read_copy [of space "[]" s] c by simp
    consider "r = ([], s)" | "snd r = s1"
      | s2 where "uart_read_spin intr inn s1 = Some s2" "r = ([], intr s2) \<or> loop intr flags left (intr s2) = Some r"
      using 1(2) unfolding Let_def 1(3) c fst_conv snd_conv
      by (auto split: if_splits Option.bind_splits)
    then show ?case
      using v view_read_spin 1(1) by cases fastforce+
  qed
  then show ?thesis by simp
qed

lemma view_write_fill: "fd_view (snd (snd (uart_write_fill intr rest out0 s))) = fd_view s"
proof (induction "length rest" arbitrary: rest out0 s rule: less_induct)
  case less
  show ?case
    using less.hyps by (subst uart_write_fill.simps) (auto simp: Let_def)
qed

lemma view_write_spin:
  assumes "uart_write_spin intr inn s = Some s'"
  shows "fd_view s' = fd_view s"
proof -
  have "intr = intr \<longrightarrow> fd_view s' = fd_view s"
    by (rule uart_write_spin.raw_induct [where P = "\<lambda>i inn s s'. i = intr \<longrightarrow> fd_view s' = fd_view s", OF _ assms])
       (fastforce simp: Let_def split: if_splits)
  then show ?thesis by simp
qed

lemma view_write_loop:
  assumes "uart_write_loop bus intr flags rest out0 s = Some r"
  shows "fd_view (snd r) = fd_view s"
proof -
  have "intr = intr \<longrightarrow> fd_view (snd r) = fd_view s"
  proof (rule uart_write_loop.raw_induct [where P = "\<lambda>b i flags rest out0 s r. i = intr \<longrightarrow>
      fd_view (snd r) = fd_view s", OF _ assms], intro impI, goal_cases)
    case (1 loop b i flags rest out0 s r)
    obtain l out t where f: "uart_write_fill intr rest out0 s = (l, out, t)" by (metis prod_cases3)
    let ?s1 = "uart_enable_irq b WE_MSK (intr t)"
    have v: "fd_view ?s1 = fd_view s" using view_write_fill [of rest out0 s] f by simp
    consider "snd r = ?s1"
      | s2 where "uart_write_spin intr out ?s1 = Some s2" "r = (l, intr s2) \<or> loop b intr flags l out (intr s2) = Some r"
      using 1(2) unfolding Let_def 1(3) f fst_conv snd_conv
      by (auto split: if_splits Option.bind_splits)
    then show ?case
      using v view_write_spin 1(1) by cases fastforce+
  qed
  then show ?thesis by simp
qed

lemma view_close:
  assumes "altera_avalon_jtag_uart_close intr flags s = Some r"
  shows "fd_view (snd r) = fd_view s"
proof -
  have "intr = intr \<longrightarrow> fd_view (snd r) = fd_view s"
    by (rule altera_avalon_jtag_uart_close.raw_induct [where P = "\<lambda>i flags s r. i = intr \<longrightarrow>
          fd_view (snd r) = fd_view s", OF _ assms])
       (fastforce simp: Let_def split: if_splits)
  then show ?thesis by simp
qed

lemma view_read: "altera_avalon_jtag_uart_read bus intr space flags s = Some (r, s') \<Longrightarrow> fd_view s' = fd_view s"
  using view_read_loop
  by (fastforce simp: altera_avalon_jtag_uart_read_def Let_def split: Option.bind_splits prod.splits if_splits)

lemma view_write: "altera_avalon_jtag_uart_write bus intr ptr n flags s = Some (r, s') \<Longrightarrow> fd_view s' = fd_view s"
  using view_write_loop
  by (fastforce simp: altera_avalon_jtag_uart_write_def Let_def split: Option.bind_splits prod.splits if_splits)

lemma view_ioctl: "fd_view (snd (altera_avalon_jtag_uart_ioctl req arg s)) = fd_view s"
  by (simp add: altera_avalon_jtag_uart_ioctl_def Let_def)

end

text \<open>So the driver satisfies the contract of the descriptor calls.\<close>

sublocale quiet_interrupts \<subseteq> uart: quiet_driver "uart_ops bus intr" for bus
  by unfold_locales
    (auto simp: uart_ops_def altera_avalon_jtag_uart_close_fd_def altera_avalon_jtag_uart_read_fd_def
      altera_avalon_jtag_uart_write_fd_def altera_avalon_jtag_uart_ioctl_fd_def view_ioctl
      dest: view_read view_write view_close)

section \<open>The interrupt routine as the interrupts of the program side\<close>

text \<open>
  What the interrupt routine leaves alone: the table, the clock and its alarms, the variables
  of the alarm callback, and whatever else a state may have.
\<close>

definition irq_view where
  "irq_view s = (fd_view s, (ju_base s, ju_host_inactive s, ju_timeout s),
     (tick_rate s, nticks s, alarm_at s, alt_alarm_list s, uart.more s))"

lemma irq_view_simps [simp]:
  "irq_view (snd (uart_iord bus r s)) = irq_view s" "irq_view (uart_iowr bus r v s) = irq_view s"
  "irq_view (rx_store d s) = irq_view s" "irq_view (s\<lparr>tx_out := n\<rparr>) = irq_view s"
  "irq_view (s\<lparr>ju_irq_enable := e\<rparr>) = irq_view s"
  by (simp_all add: irq_view_def uart_iord_def uart_iowr_def rx_store_def fd_view_def split: prod.splits)

lemma uart_iord_view: "uart_iord bus r s = (a, b) \<Longrightarrow> irq_view b = irq_view s"
  using irq_view_simps(1) [of bus r s] by simp

lemma view_irq_rx_loop:
  assumes "uart_irq_rx_loop bus data s = Some r"
  shows "irq_view (snd r) = irq_view s"
  by (rule uart_irq_rx_loop.raw_induct [where P = "\<lambda>bus data s r. irq_view (snd r) = irq_view s", OF _ assms])
     (auto simp: Let_def simp del: uart_iord_simps(13,14) split: if_splits dest: uart_iord_view)

lemma view_irq_rx: "uart_irq_rx bus s = Some s' \<Longrightarrow> irq_view s' = irq_view s"
  using view_irq_rx_loop
  by (fastforce simp: uart_irq_rx_def Let_def split: Option.bind_splits prod.splits if_splits)

lemma view_irq_tx_loop: "irq_view (snd (uart_irq_tx_loop bus n s)) = irq_view s"
  by (induction n arbitrary: s) (simp_all add: Let_def)

lemma view_irq_tx: "irq_view (uart_irq_tx bus control s) = irq_view s"
proof -
  obtain n s1 where r: "uart_irq_tx_loop bus (unat (drop_bit 16 (control AND WSPACE_MSK))) s = (n, s1)"
    by fastforce
  then have "irq_view s1 = irq_view s" using view_irq_tx_loop [of bus _ s] by (metis snd_conv)
  then show ?thesis unfolding uart_irq_tx_def r Let_def by simp
qed

lemma view_irq:
  assumes "altera_avalon_jtag_uart_irq bus s = Some s'"
  shows "irq_view s' = irq_view s"
proof (rule altera_avalon_jtag_uart_irq.raw_induct [where P = "\<lambda>bus s s'. irq_view s' = irq_view s", OF _ assms],
    goal_cases)
  case (1 irq bus s s')
  let ?c = "fst (uart_iord bus UART_CONTROL s)" and ?s0 = "snd (uart_iord bus UART_CONTROL s)"
  consider "s' = ?s0"
    | s1 where "(if ?c AND RI_MSK \<noteq> 0 then uart_irq_rx bus ?s0 else Some ?s0) = Some s1"
        "irq bus (if ?c AND WI_MSK \<noteq> 0 then uart_irq_tx bus ?c s1 else s1) = Some s'"
    using 1(2) unfolding Let_def by (auto split: if_splits Option.bind_splits simp del: uart_iord_simps)
  then show ?case
  proof cases
    case 2
    have "irq_view s1 = irq_view s" using 2(1) view_irq_rx by (fastforce split: if_splits)
    then show ?thesis using 1(1) [OF 2(2)] by (simp add: view_irq_tx split: if_splits)
  qed simp
qed

text \<open>
  An interrupt of the UART at base address \<open>base\<close>, as seen by the interrupted program. When the
  routine does not return there is nothing to see.
\<close>

definition uart_intr :: "'h bus \<Rightarrow> addr \<Rightarrow> ('h, 'a) uart_scheme \<Rightarrow> ('h, 'a) uart_scheme" where
  "uart_intr bus base s =
     (if ju_base s = base then
        (case altera_avalon_jtag_uart_irq bus s of Some s' \<Rightarrow> s' | None \<Rightarrow> s)
      else s)"

lemma uart_intr_view: "irq_view (uart_intr bus base s) = irq_view s"
  using view_irq by (fastforce simp: uart_intr_def split: option.splits)

sublocale uart_device \<subseteq> isr: uart_interrupts "uart_intr bus base"
  by unfold_locales
    (auto simp: uart_intr_def isr_step_refl conserves_def split: option.splits dest: isr_conserves)

interpretation irqs: quiet_interrupts "uart_intr bus base" for bus base
  by unfold_locales (simp add: uart_intr_view [unfolded irq_view_def prod.inject])

text \<open>The alarm callback is harmless in the same sense.\<close>

lemma timeout_step:
  assumes "uart_wf s"
  shows "isr_step s (snd (altera_avalon_jtag_uart_timeout bus s))"
proof -
  obtain v t where r: "uart_iord bus UART_CONTROL s = (v, t)" by fastforce
  have q: "isr_step s u" if "rx_queue u = rx_queue t" "tx_queue u = tx_queue t" "uart_wf u = uart_wf t"
    "rx_out u = rx_out t" "tx_in u = tx_in t" "tx_buf u = tx_buf t" "fd_view u = fd_view t"
    "status u = status t" for u
    using that assms uart_iord_simps [of bus UART_CONTROL s, unfolded r snd_conv]
    by (auto simp: isr_step_def intro: exI [of _ 0])
  have "rx_queue (u\<lparr>ju_host_inactive := w\<rparr>) = rx_queue u"
    "tx_queue (u\<lparr>ju_host_inactive := w\<rparr>) = tx_queue u"
    "uart_wf (u\<lparr>ju_host_inactive := w\<rparr>) = uart_wf u" for u :: "('a, 'b) uart_scheme" and w
    by (simp_all add: rx_queue_def tx_queue_def uart_wf_def)
  then show ?thesis
    unfolding altera_avalon_jtag_uart_timeout_def r prod.case Let_def by (simp add: q)
qed

section \<open>A simulated device\<close>

text \<open>
  A device with a receive FIFO, a transmitter that never fills up, and interrupt enables, on
  which the properties are tried: an instance of what \<open>uart_device\<close> asks of the hardware.
\<close>

record sim_uart =
  sim_fifo :: "alt_u8 list"
  sim_sent :: "alt_u8 list"
  sim_enable :: alt_u32

definition sim_bus :: "sim_uart bus" where
  "sim_bus = \<lparr>
     iord = (\<lambda>_ reg h.
       if reg = 0 then
         (case sim_fifo h of [] \<Rightarrow> (0, h)
          | b # bs \<Rightarrow> (push_bit 16 (of_nat (length bs)) OR 0x8000 OR ucast b, h\<lparr>sim_fifo := bs\<rparr>))
       else ((if sim_enable h AND RE_MSK \<noteq> 0 \<and> sim_fifo h \<noteq> [] then RI_MSK else 0)
               OR (if sim_enable h AND WE_MSK \<noteq> 0 then WI_MSK else 0) OR push_bit 16 64, h)),
     iowr = (\<lambda>_ reg v h.
       if reg = 0 then h\<lparr>sim_sent := sim_sent h @ [ucast v]\<rparr> else h\<lparr>sim_enable := v\<rparr>)\<rparr>"

lemma sim_byte:
  "ucast ((push_bit 16 n OR 0x8000 OR ucast b :: alt_u32) AND 0xFF) = (b :: alt_u8)"
  "(push_bit 16 n OR 0x8000 OR ucast b :: alt_u32) AND 0x8000 \<noteq> 0"
proof -
  show "ucast ((push_bit 16 n OR 0x8000 OR ucast b :: alt_u32) AND 0xFF) = b"
    unfolding and_low_mask_32 by (rule bit_word_eqI) (auto simp: bit_simps bit_numeral_rec)
  have "bit ((push_bit 16 n OR 0x8000 OR ucast b :: alt_u32) AND 0x8000) 15"
    by (simp add: bit_simps bit_numeral_rec)
  then show "(push_bit 16 n OR 0x8000 OR ucast b :: alt_u32) AND 0x8000 \<noteq> 0" by auto
qed

lemma room_bound: "unat (drop_bit 16 x :: alt_u32) \<le> 65536"
  using unat_32_bound [of x] by (simp add: drop_bit_eq_div unat_div)

interpretation sim: uart_device sim_bus base sim_fifo sim_sent "\<lambda>_. 65536" for base
  by unfold_locales
    (auto simp: sim_bus_def sim_byte RVALID_MSK_def DATA_MSK_def room_bound simp del: drop_bit_and
      split: list.splits)

text \<open>
  A transfer of no bytes, which POSIX lets succeed, is reported as an input/output error.
\<close>

lemma empty_write_fails:
  "\<exists>s'. altera_avalon_jtag_uart_write bus intr ptr 0 0 s = Some (- EIO, s')"
  by (simp add: altera_avalon_jtag_uart_write_def uart_write_loop.simps uart_write_fill.simps Let_def)

lemma empty_read_fails:
  "altera_avalon_jtag_uart_read bus intr 0 0 s = Some ((- EIO, []), s)"
  by (simp add: altera_avalon_jtag_uart_read_def uart_read_loop.simps)

section \<open>Properties\<close>

text \<open>Property C1: the interrupt routine of the UART loses, duplicates and reorders nothing, in
  either direction: the bytes buffered followed by those still in the device's receive FIFO, and the
  bytes sent followed by those still buffered, are the same before and after, and the transmitter is
  never overrun. Its receive pass always completes, also when the buffer is full.\<close>

theorem uart_irq_conserves_data:
  assumes "uart_device bus base fifo sent room" and "uart_wf s" and "ju_base s = base"
  shows "(\<exists>t. uart_irq_rx bus s = Some t)
    \<and> (\<forall>s'. altera_avalon_jtag_uart_irq bus s = Some s' \<longrightarrow>
          uart_wf s' \<and> rx_queue s' @ fifo (hw s') = rx_queue s @ fifo (hw s)
          \<and> sent (hw s') @ tx_queue s' = sent (hw s) @ tx_queue s)"
  using uart_device.irq_rx [OF assms] uart_device.isr_conserves [OF assms(1) _ assms(2,3)]
  by (auto simp: uart_device.conserves_def [OF assms(1)] isr_step_def)

definition sim_state :: "alt_u8 list \<Rightarrow> alt_u8 list \<Rightarrow> sim_uart uart" where
  "sim_state rx inp = fdtable.extend demo_table
     \<lparr>ju_base = 4096, ju_timeout = 10, ju_alarm = 900, ju_irq_enable = 1, ju_host_inactive = 0,
      rx_in = length rx, rx_out = 0, tx_in = 0, tx_out = 0,
      rx_buf = rx @ replicate (2048 - length rx) 0, tx_buf = replicate 2048 0, int_at = (\<lambda>_. 0),
      hw = \<lparr>sim_fifo = inp, sim_sent = [], sim_enable = 1\<rparr>\<rparr>"

lemma sim_state_wf: "length rx < 2048 \<Longrightarrow> uart_wf (sim_state rx inp)"
  by (simp add: uart_wf_def ring_wf_def sim_state_def fdtable.extend_def BUF_LEN_def)

lemma sim_state_rx: "length rx < 2048 \<Longrightarrow> rx_queue (sim_state rx inp) = rx"
  by (simp add: rx_queue_def ring_def sim_state_def fdtable.extend_def)

lemma sim_state_tx: "tx_queue (sim_state rx inp) = []"
  by (simp add: tx_queue_def ring_def sim_state_def fdtable.extend_def)

lemma sim_state_base: "ju_base (sim_state rx inp) = 4096"
  by (simp add: sim_state_def fdtable.extend_def)

theorem uart_irq_conserves_data_witness:
  "\<exists>s'. altera_avalon_jtag_uart_irq sim_bus (sim_state [7] [8, 9]) = Some s'
     \<and> rx_queue s' @ sim_fifo (hw s') = [7, 8, 9]"
proof -
  have p: "uart_wf (sim_state [7] [8, 9])" "ju_base (sim_state [7] [8, 9]) = 4096"
    by (simp_all add: sim_state_wf sim_state_base)
  have "\<exists>s'. altera_avalon_jtag_uart_irq sim_bus (sim_state [7] [8, 9]) = Some s'"
    by (simp add: altera_avalon_jtag_uart_irq.simps uart_irq_rx_def uart_irq_rx_loop.simps uart_iord_def
        uart_iowr_def sim_bus_def sim_state_def fdtable.extend_def rx_store_def BUF_LEN_def RE_MSK_def
        RI_MSK_def WI_MSK_def WE_MSK_def RVALID_MSK_def RAVAIL_MSK_def DATA_MSK_def)
  moreover have "rx_queue (sim_state [7] [8, 9]) @ sim_fifo (hw (sim_state [7] [8, 9])) = [7, 8, 9]"
    by (simp add: sim_state_rx) (simp add: sim_state_def fdtable.extend_def)
  ultimately show ?thesis
    using uart_irq_conserves_data [OF sim.uart_device_axioms p] by auto
qed

text \<open>Property C2: whatever interrupts come in between, a read from the UART returns the oldest
  received bytes, in order, at most as many as asked for, and leaves exactly the others; an error is
  only reported when nothing was taken.\<close>

theorem uart_read_is_fifo:
  assumes "uart_interrupts intr" and "uart_wf s"
    and "altera_avalon_jtag_uart_read bus intr space flags s = Some ((rc, bs), s')"
  shows "uart_wf s' \<and> (\<exists>arrived. rx_queue s @ arrived = bs @ rx_queue s')
    \<and> (\<exists>n. drop n (tx_queue s) = tx_queue s') \<and> status s' = status s
    \<and> (rc = int (length bs) \<and> bs \<noteq> [] \<and> rc \<le> space
        \<or> bs = [] \<and> rc = (if flags AND O_NONBLOCK \<noteq> 0 then - EWOULDBLOCK else - EIO))"
proof -
  obtain got s1 where r: "uart_read_loop intr flags (nat space) s = Some (got, s1)"
    using assms(3) by (auto simp: altera_avalon_jtag_uart_read_def Let_def split: Option.bind_splits)
  note st = uart_interrupts.read_loop [OF assms(1) r assms(2)]
  have w1: "uart_wf s1" using st by (simp add: prog_step_def)
  have en: "prog_step s1 [] [] (uart_enable_irq bus RE_MSK (intr s1))"
    using prog_step_trans [OF uart_interrupts.intr_prog [OF assms(1) w1]
        enable_irq_step [OF uart_interrupts.intr_wf [OF assms(1) w1], of bus RE_MSK]] by simp
  have "prog_step s bs [] s' \<and> (rc = int (length bs) \<and> bs \<noteq> [] \<and> rc \<le> space
        \<or> bs = [] \<and> rc = (if flags AND O_NONBLOCK \<noteq> 0 then - EWOULDBLOCK else - EIO))"
  proof (cases "got = []")
    case True
    then show ?thesis
      using assms(3) r st by (auto simp: altera_avalon_jtag_uart_read_def split: if_splits)
  next
    case False
    then have "rc = int (length got)" "bs = got" "s' = uart_enable_irq bus RE_MSK (intr s1)"
      using assms(3) r by (auto simp: altera_avalon_jtag_uart_read_def)
    moreover have "int (length got) \<le> space" using st False by (cases "space \<le> 0") auto
    ultimately show ?thesis using False st prog_step_trans [OF _ en, of s got "[]"] by auto
  qed
  then show ?thesis by (auto simp: prog_step_def)
qed

text \<open>The interrupts of the witnesses: the interrupt routine itself, on the simulated device.\<close>

abbreviation sim_intr :: "sim_uart uart \<Rightarrow> sim_uart uart" where
  "sim_intr \<equiv> uart_intr sim_bus 4096"

lemma sim_read:
  assumes "rx \<noteq> []" "length rx < 2048" "0 < space"
  shows "\<exists>bs s'. altera_avalon_jtag_uart_read sim_bus sim_intr space flags (sim_state rx inp)
      = Some ((int (length bs), bs), s') \<and> bs \<noteq> []"
proof -
  have "rx_queue (sim_state rx inp) \<noteq> []" using assms by (simp add: sim_state_rx)
  then obtain got s1 where "uart_read_loop sim_intr flags (nat space) (sim_state rx inp) = Some (got, s1)" "got \<noteq> []"
    using sim.isr.read_loop_returns [OF sim_state_wf [OF assms(2), of inp],
        where base = 4096 and flags = flags and space = "nat space"] assms(3) by auto
  then show ?thesis by (simp add: altera_avalon_jtag_uart_read_def)
qed

theorem uart_read_is_fifo_witness:
  "\<exists>bs s' arrived. altera_avalon_jtag_uart_read sim_bus sim_intr 2 0 (sim_state [7, 8, 9] [10])
       = Some ((int (length bs), bs), s') \<and> [7, 8, 9] @ arrived = bs @ rx_queue s'"
proof -
  obtain bs s' where r: "altera_avalon_jtag_uart_read sim_bus sim_intr 2 0 (sim_state [7, 8, 9] [10])
      = Some ((int (length bs), bs), s')"
    using sim_read [of "[7, 8, 9]" 2 0 "[10]"] by auto
  have "uart_wf (sim_state [7, 8, 9] [10])" by (simp add: sim_state_wf)
  from uart_read_is_fifo [OF sim.isr.uart_interrupts_axioms this r] show ?thesis
    using r by (auto simp: sim_state_rx)
qed

text \<open>A read for at least one byte returns with data whenever some is buffered, and
  returns in any case in non-blocking mode: it only waits when it has nothing to give.\<close>

theorem uart_read_returns:
  assumes "uart_interrupts intr" and "uart_wf s" and "0 < space"
    and "rx_queue s \<noteq> [] \<or> flags AND O_NONBLOCK \<noteq> 0"
  shows "\<exists>rc bs s'. altera_avalon_jtag_uart_read bus intr space flags s = Some ((rc, bs), s')
    \<and> (rx_queue s \<noteq> [] \<longrightarrow> 0 < rc \<and> bs \<noteq> [])"
proof -
  obtain got s1 where "uart_read_loop intr flags (nat space) s = Some (got, s1)"
    "rx_queue s \<noteq> [] \<longrightarrow> got \<noteq> []"
    using uart_interrupts.read_loop_returns [OF assms(1,2,4), of "nat space"] assms(3) by auto
  then show ?thesis by (auto simp: altera_avalon_jtag_uart_read_def)
qed

theorem uart_read_returns_witness:
  "\<exists>rc bs s'. altera_avalon_jtag_uart_read sim_bus sim_intr 5 0 (sim_state [1, 2] [])
     = Some ((rc, bs), s') \<and> 0 < rc"
proof -
  have "uart_wf (sim_state [1, 2] [])" "rx_queue (sim_state [1, 2] []) \<noteq> [] \<or> (0 :: alt_u32) AND O_NONBLOCK \<noteq> 0"
    by (simp_all add: sim_state_wf sim_state_rx)
  from uart_read_returns [OF sim.isr.uart_interrupts_axioms [where base = 4096] this(1) _ this(2), of 5 sim_bus]
  show ?thesis by (auto simp: sim_state_rx)
qed

text \<open>Property C6: whatever interrupts come in between, a write that returns has put exactly the
  bytes it reports into the transmit queue, in order and after those already there, and they left it
  only from its front; an error is only reported when none was accepted.\<close>

theorem uart_write_is_fifo:
  assumes "uart_interrupts intr" and "uart_wf s" and "0 \<le> count" and "nat count \<le> length ptr"
    and "altera_avalon_jtag_uart_write bus intr ptr count flags s = Some (rc, s')"
  shows "uart_wf s' \<and> (\<exists>n. drop n (tx_queue s @ take (nat rc) ptr) = tx_queue s')
    \<and> (\<exists>arrived. rx_queue s @ arrived = rx_queue s') \<and> status s' = status s
    \<and> (0 < rc \<and> rc \<le> count \<or> rc = (if flags AND O_NONBLOCK \<noteq> 0 then - EWOULDBLOCK else - EIO))"
proof -
  obtain left where r: "uart_write_loop bus intr flags (take (nat count) ptr) 0 s = Some (left, s')"
    and rc: "rc = (let sent = length (take (nat count) ptr) - length left in
        if sent \<noteq> 0 then int sent else if flags AND O_NONBLOCK \<noteq> 0 then - EWOULDBLOCK else - EIO)"
    using assms(5) by (auto simp: altera_avalon_jtag_uart_write_def Let_def split: Option.bind_splits if_splits)
  obtain cs where cs: "take (nat count) ptr = cs @ left" "prog_step s [] cs s'"
    using uart_interrupts.write_loop [OF assms(1) r assms(2)] by blast
  have sent: "length (take (nat count) ptr) - length left = length cs" using cs(1) by simp
  have le: "length cs \<le> nat count" using cs(1) assms(4) by (metis length_append length_take le_add1 min.absorb2)
  have "cs = take (length cs) ptr" using cs(1) le by (metis append_eq_conv_conj min.absorb1 take_take)
  moreover have "nat rc = length cs"
    using rc sent by (auto simp: Let_def EWOULDBLOCK_def EIO_def)
  moreover have "0 < rc \<and> rc \<le> count \<or> rc = (if flags AND O_NONBLOCK \<noteq> 0 then - EWOULDBLOCK else - EIO)"
    using rc sent le assms(3) by (auto simp: Let_def)
  ultimately show ?thesis using cs(2) by (auto simp: prog_step_def)
qed

theorem uart_write_is_fifo_witness:
  "\<exists>rc s'. altera_avalon_jtag_uart_write sim_bus sim_intr [1, 2, 3] 3 O_NONBLOCK (sim_state [] [])
       = Some (rc, s') \<and> (\<exists>n. drop n (take (nat rc) [1, 2, 3]) = tx_queue s') \<and> rc \<le> 3"
proof -
  have w: "uart_wf (sim_state [] [])" by (simp add: sim_state_wf)
  have nb: "O_NONBLOCK AND O_NONBLOCK \<noteq> 0" "O_NONBLOCK \<noteq> 0" by (simp_all add: O_NONBLOCK_def)
  obtain left s' where "uart_write_loop sim_bus sim_intr O_NONBLOCK [1, 2, 3] 0 (sim_state [] []) = Some (left, s')"
    using sim.isr.write_loop_returns [OF w nb(1), where base = 4096 and bus = sim_bus and rest = "[1, 2, 3]"
        and ?out0.0 = 0] by blast
  then obtain rc where r: "altera_avalon_jtag_uart_write sim_bus sim_intr [1, 2, 3] 3 O_NONBLOCK (sim_state [] [])
      = Some (rc, s')"
    by (cases "length left < 3") (auto simp: altera_avalon_jtag_uart_write_def Let_def nb)
  have "(0 :: int) \<le> 3" "nat 3 \<le> length [1, 2, 3 :: alt_u8]" by simp_all
  from uart_write_is_fifo [OF sim.isr.uart_interrupts_axioms w this r] show ?thesis
    using r by (auto simp: sim_state_tx EWOULDBLOCK_def O_NONBLOCK_def)
qed

end
