(* ===== verification/Uart_Wait.thy ===== *)
theory Uart_Wait
  imports Uart_System
begin

text \<open>
  Waiting for the JTAG UART: a read with nothing buffered, and a close with bytes still to send,
  spin on variables that only interrupts change. Whether they return depends on what the
  interrupts bring: the locale \<open>uart_waits\<close> says that no waiting goes on without an end, and the
  alarm callback \<^verbatim>\<open>altera_avalon_jtag_uart_timeout\<close>, which counts the seconds without a host,
  is what makes it true.
\<close>

section \<open>What a wait relies on\<close>

text \<open>
  While the host is not yet given up, every round of interrupts brings a byte, takes one away, or
  uses up patience; \<open>live\<close> are the states of which this is known.
\<close>

locale uart_waits = uart_interrupts intr
  for intr :: "('h, 'a) uart_scheme \<Rightarrow> ('h, 'a) uart_scheme" +
  fixes live :: "('h, 'a) uart_scheme \<Rightarrow> bool" and patience :: "('h, 'a) uart_scheme \<Rightarrow> nat"
  assumes live_intr: "live s \<Longrightarrow> live (intr s)"
    and progress: "uart_wf s \<Longrightarrow> live s \<Longrightarrow> ju_host_inactive s < ju_timeout s \<Longrightarrow>
      ju_timeout (intr s) \<le> ju_host_inactive (intr s)
      \<or> length (rx_queue s) < length (rx_queue (intr s))
      \<or> length (tx_queue (intr s)) < length (tx_queue s)
      \<or> patience (intr s) < patience s"
begin

definition effort :: "('h, 'a) uart_scheme \<Rightarrow> nat \<times> nat" where
  "effort s = (BUF_LEN - length (rx_queue s) + length (tx_queue s), patience s)"

lemma rx_bound: "uart_wf s \<Longrightarrow> length (rx_queue s) < BUF_LEN"
  using ring_length_less by (auto simp: uart_wf_def rx_queue_def)

text \<open>So as long as a wait goes on, the effort goes down.\<close>

lemma effort_less:
  assumes "uart_wf s" "live s" "ju_host_inactive s < ju_timeout s"
    and "ju_host_inactive (intr s) < ju_timeout (intr s)"
  shows "(effort (intr s), effort s) \<in> less_than <*lex*> less_than"
proof -
  have st: "isr_step s (intr s)" by (rule intr_step [OF assms(1)])
  have le: "length (rx_queue s) \<le> length (rx_queue (intr s))"
    "length (tx_queue (intr s)) \<le> length (tx_queue s)" using st by (auto simp: isr_step_def)
  have "length (rx_queue (intr s)) < BUF_LEN" using rx_bound isr_step_wf [OF st] by blast
  then show ?thesis
    using progress [OF assms(1-3)] assms(4) le by (auto simp: effort_def)
qed

lemma wait_induct [consumes 2, case_names wait]:
  assumes "uart_wf s" "live s"
    and "\<And>s. uart_wf s \<Longrightarrow> live s \<Longrightarrow>
      (uart_wf (intr s) \<Longrightarrow> live (intr s) \<Longrightarrow> ju_host_inactive s < ju_timeout s \<Longrightarrow>
        ju_host_inactive (intr s) < ju_timeout (intr s) \<Longrightarrow> P (intr s)) \<Longrightarrow> P s"
  shows "P s"
proof -
  have wf: "wf (inv_image (less_than <*lex*> less_than) effort)" by (simp add: wf_lex_prod)
  have "uart_wf s \<longrightarrow> live s \<longrightarrow> P s"
  proof (rule wf_induct_rule [OF wf, where P = "\<lambda>s. uart_wf s \<longrightarrow> live s \<longrightarrow> P s"], intro impI)
    fix x
    assume ih: "\<And>y. (y, x) \<in> inv_image (less_than <*lex*> less_than) effort \<Longrightarrow>
        uart_wf y \<longrightarrow> live y \<longrightarrow> P y"
      and x: "uart_wf x" "live x"
    show "P x"
      by (rule assms(3) [OF x]) (rule ih [rule_format, unfolded in_inv_image, OF effort_less [OF x]])
  qed
  then show ?thesis using assms(1,2) by blast
qed

abbreviation waiting :: "('h, 'a) uart_scheme \<Rightarrow> bool" where
  "waiting s \<equiv> ju_host_inactive s < ju_timeout s"

lemma read_spin_waiting:
  assumes "uart_wf s" "live s"
  shows "waiting s \<longrightarrow> (\<exists>s'. uart_read_spin intr inn s = Some s' \<and> isr_step s s'
    \<and> (rx_in s' \<noteq> inn \<or> \<not> waiting s'))"
  using assms
proof (induction s rule: wait_induct)
  case (wait s)
  have st: "isr_step s (intr s)" by (rule intr_step [OF wait(1)])
  show ?case
  proof (intro impI, cases "inn = rx_in (intr s) \<and> waiting (intr s)")
    case True
    moreover assume "waiting s"
    ultimately obtain s' where "uart_read_spin intr inn (intr s) = Some s'" "isr_step (intr s) s'"
      "rx_in s' \<noteq> inn \<or> \<not> waiting s'"
      using wait(3) isr_step_wf [OF st] live_intr [OF wait(2)] by blast
    then show "\<exists>s'. uart_read_spin intr inn s = Some s' \<and> isr_step s s' \<and> (rx_in s' \<noteq> inn \<or> \<not> waiting s')"
      using True isr_step_trans [OF st] by (subst uart_read_spin.simps) (auto simp: Let_def)
  next
    case False
    then show "\<exists>s'. uart_read_spin intr inn s = Some s' \<and> isr_step s s' \<and> (rx_in s' \<noteq> inn \<or> \<not> waiting s')"
      using st by (subst uart_read_spin.simps) (auto simp: Let_def)
  qed
qed

lemma read_spin_returns:
  assumes "uart_wf s" "live s"
  shows "\<exists>s'. uart_read_spin intr inn s = Some s' \<and> isr_step s s' \<and> (rx_in s' \<noteq> inn \<or> \<not> waiting s')"
proof (cases "inn = rx_in (intr s) \<and> waiting (intr s)")
  case True
  have st: "isr_step s (intr s)" by (rule intr_step [OF assms(1)])
  show ?thesis
    using True read_spin_waiting [OF isr_step_wf [OF st] live_intr [OF assms(2)], of inn] isr_step_trans [OF st]
    by (subst uart_read_spin.simps) (auto simp: Let_def)
next
  case False
  then show ?thesis
    using intr_step [OF assms(1)] by (subst uart_read_spin.simps) (auto simp: Let_def)
qed

lemma read_copy_left: "fst (snd (snd (uart_read_copy intr space got s))) \<le> space"
proof (induction space arbitrary: got s rule: less_induct)
  case (less space)
  have "fst (snd (snd (uart_read_copy intr (space - n) g t))) \<le> space" if "0 < n" "0 < space" for n g t
    using less [of "space - n" g t] that by simp
  then show ?case
    by (subst uart_read_copy.simps) (auto simp: Let_def)
qed

text \<open>A pass that copies nothing has seen the buffer empty.\<close>

lemma read_copy_none:
  assumes "uart_wf s" "0 < space" "uart_read_copy intr space [] s = (inn, [], left, s1)"
  shows "s1 = intr s \<and> inn = rx_in s1 \<and> left = space \<and> rx_queue s1 = []"
proof -
  let ?n = "take_block (rx_in (intr s)) (rx_out (intr s))"
  have rw: "ring_wf (rx_buf (intr s)) (rx_in (intr s)) (rx_out (intr s))"
    using intr_wf [OF assms(1)] by (simp add: uart_wf_def)
  have left: "left = space" using read_copy [OF assms(1,3)] by auto
  have "?n = 0"
  proof (rule ccontr)
    assume n: "?n \<noteq> 0"
    have "left \<le> space - min ?n space"
      using assms(3) n read_copy_left
      by (subst (asm) uart_read_copy.simps) (auto simp: Let_def split: if_splits, metis fst_conv snd_conv)
    then show False using left n assms(2) by simp
  qed
  then show ?thesis
    using assms(3) left take_block_0_iff [OF rw]
    by (subst (asm) uart_read_copy.simps) (auto simp: Let_def rx_queue_def)
qed

text \<open>
  So a blocking read returns: with data, or because the host was given up. One that does not block
  looks at the buffer once.
\<close>

lemma read_loop_waits:
  assumes "uart_wf s" "live s" "0 < space"
  shows "\<exists>got s'. uart_read_loop intr flags space s = Some (got, s') \<and> (rx_queue s \<noteq> [] \<longrightarrow> got \<noteq> [])
    \<and> (got = [] \<longrightarrow> (if flags AND O_NONBLOCK \<noteq> 0 then s' = intr s
        else (\<exists>t. isr_step s t \<and> s' = intr t \<and> \<not> waiting t)))"
proof -
  obtain inn g left s1 where c: "uart_read_copy intr space [] s = (inn, g, left, s1)"
    by (metis prod_cases4)
  have ne: "rx_queue s \<noteq> [] \<longrightarrow> g \<noteq> []" using read_copy [OF assms(1) c] assms(3) by auto
  show ?thesis
  proof (cases "g \<noteq> [] \<or> flags AND O_NONBLOCK \<noteq> 0")
    case True
    have "uart_read_loop intr flags space s = Some (g, s1)"
      using True assms(3) by (subst uart_read_loop.simps) (auto simp: Let_def c)
    moreover have "g = [] \<longrightarrow> flags AND O_NONBLOCK \<noteq> 0 \<and> s1 = intr s"
      using True read_copy_none [OF assms(1,3)] c by blast
    ultimately show ?thesis using ne by auto
  next
    case False
    then have s1: "s1 = intr s" "inn = rx_in s1" "left = space" "rx_queue s1 = []"
      using read_copy_none [OF assms(1,3)] c by auto
    have st1: "isr_step s s1" "live s1" using s1 intr_step live_intr assms by auto
    obtain s2 where s2: "uart_read_spin intr inn s1 = Some s2" "isr_step s1 s2"
      "rx_in s2 \<noteq> inn \<or> \<not> waiting s2"
      using read_spin_returns [OF isr_step_wf [OF st1(1)] st1(2)] by blast
    have st3: "isr_step s2 (intr s2)" "isr_step s1 (intr s2)"
      using intr_step [OF isr_step_wf [OF s2(2)]] isr_step_trans [OF s2(2)] by auto
    have nil: "rx_queue u = [] \<longleftrightarrow> rx_in u = inn" if "isr_step s1 u" for u
      using ring_Nil_iff [of "rx_buf u" "rx_in u" "rx_out u"] ring_Nil_iff [of "rx_buf s1" "rx_in s1" "rx_out s1"]
        s1 isr_step_wf [OF st1(1)] isr_step_wf [OF that] that
      by (auto simp: uart_wf_def isr_step_def rx_queue_def)
    have loop: "uart_read_loop intr flags space s =
        (if inn = rx_in (intr s2) then Some ([], intr s2) else uart_read_loop intr flags space (intr s2))"
      using False assms(3) s1(3) by (subst uart_read_loop.simps) (simp add: Let_def c s2(1))
    show ?thesis
    proof (cases "inn = rx_in (intr s2)")
      case True
      have "rx_queue s2 = []" using True nil [OF st3(2)] st3(1) by (auto simp: isr_step_def)
      then have "\<not> waiting s2" using s2(3) nil [OF s2(2)] by blast
      then show ?thesis using loop True False ne isr_step_trans [OF st1(1) s2(2)] by auto
    next
      case False
      then have "rx_queue (intr s2) \<noteq> []" using nil [OF st3(2)] by auto
      then show ?thesis
        using read_loop_returns [OF isr_step_wf [OF st3(1)], of flags space] loop False assms(3) by auto
    qed
  qed
qed

text \<open>And so does a close.\<close>

lemma close_waiting:
  assumes "uart_wf s" "live s"
  shows "waiting s \<longrightarrow> (\<exists>r. altera_avalon_jtag_uart_close intr flags s = Some r)"
  using assms
proof (induction s rule: wait_induct)
  case (wait s)
  then show ?case
    using intr_wf [OF wait(1)] live_intr [OF wait(2)]
    by (subst altera_avalon_jtag_uart_close.simps) (auto simp: Let_def)
qed

lemma close_returns:
  assumes "uart_wf s" "live s"
  shows "\<exists>r. altera_avalon_jtag_uart_close intr flags s = Some r"
  using close_waiting [OF intr_wf [OF assms(1)] live_intr [OF assms(2)]]
  by (subst altera_avalon_jtag_uart_close.simps) (auto simp: Let_def)

end

section \<open>Waiting for room\<close>

lemma enable_isr_step: "uart_wf s \<Longrightarrow> isr_step s (uart_enable_irq bus msk s)"
  by (auto simp: isr_step_def uart_enable_irq_def irq_defs uart_iowr_def uart_wf_def rx_queue_def
      tx_queue_def fd_view_def intro: exI [of _ "[]"] exI [of _ 0])

lemma isr_step_tx_le: "isr_step s t \<Longrightarrow> length (tx_queue t) \<le> length (tx_queue s)"
  by (auto simp: isr_step_def)

text \<open>When the output index has moved, a byte has been sent.\<close>

lemma tx_moved:
  assumes "isr_step s t" "uart_wf s" "tx_out t \<noteq> tx_out s"
  shows "length (tx_queue t) < length (tx_queue s)"
proof -
  have w: "ring_wf (tx_buf s) (tx_in s) (tx_out s)" "ring_wf (tx_buf s) (tx_in s) (tx_out t)"
    using assms isr_step_wf [OF assms(1)] by (auto simp: uart_wf_def isr_step_def)
  then have "length (ring (tx_buf s) (tx_in s) (tx_out t)) \<noteq> length (ring (tx_buf s) (tx_in s) (tx_out s))"
    using assms(3) by (auto simp: ring_length ring_wf_def split: if_splits)
  then have "length (tx_queue t) \<noteq> length (tx_queue s)"
    using assms(1) by (simp add: tx_queue_def isr_step_def)
  then show ?thesis using isr_step_tx_le [OF assms(1)] by simp
qed

text \<open>
  A write alternates between filling the buffer and waiting, so \<open>live\<close> has to survive what the
  program itself does; and a host that has been given up is still away in the next round, unless
  it comes back for a byte.
\<close>

locale uart_write_waits = uart_waits intr live patience
  for intr :: "('h, 'a) uart_scheme \<Rightarrow> ('h, 'a) uart_scheme"
    and live :: "('h, 'a) uart_scheme \<Rightarrow> bool" and patience :: "('h, 'a) uart_scheme \<Rightarrow> nat" +
  fixes bus :: "'h bus"
  assumes live_fill: "live (s\<lparr>tx_buf := b\<rparr>) = live s" "live (s\<lparr>tx_in := i\<rparr>) = live s"
    and live_enable: "live s \<Longrightarrow> live (uart_enable_irq bus msk s)"
    and stays_away: "uart_wf s \<Longrightarrow> live s \<Longrightarrow> ju_timeout s \<le> ju_host_inactive s \<Longrightarrow>
      ju_host_inactive (intr s) \<noteq> 0 \<or> length (tx_queue (intr s)) < length (tx_queue s)"
begin

lemma fill_live:
  "live s \<Longrightarrow> live (snd (snd (uart_write_fill intr rest out0 s)))
   \<and> (fst (uart_write_fill intr rest out0 s) \<noteq> [] \<longrightarrow>
      fst (snd (uart_write_fill intr rest out0 s)) = tx_out (snd (snd (uart_write_fill intr rest out0 s))))"
proof (induction "length rest" arbitrary: rest out0 s rule: less_induct)
  case less
  show ?case
    using less live_intr by (subst (1 2 3 4) uart_write_fill.simps) (auto simp: Let_def live_fill)
qed

lemma write_spin_waiting:
  assumes "uart_wf s" "live s"
  shows "waiting s \<longrightarrow> (\<exists>s'. uart_write_spin intr out s = Some s' \<and> isr_step s s' \<and> live s'
    \<and> (tx_out s' \<noteq> out \<or> \<not> waiting s'))"
  using assms
proof (induction s rule: wait_induct)
  case (wait s)
  have st: "isr_step s (intr s)" and lv: "live (intr s)" by (rule intr_step live_intr, rule wait)+
  show ?case
  proof (intro impI, cases "out = tx_out (intr s) \<and> waiting (intr s)")
    case True
    moreover assume "waiting s"
    ultimately obtain s' where "uart_write_spin intr out (intr s) = Some s'" "isr_step (intr s) s'" "live s'"
      "tx_out s' \<noteq> out \<or> \<not> waiting s'"
      using wait(3) isr_step_wf [OF st] lv by blast
    then show "\<exists>s'. uart_write_spin intr out s = Some s' \<and> isr_step s s' \<and> live s'
        \<and> (tx_out s' \<noteq> out \<or> \<not> waiting s')"
      using True isr_step_trans [OF st] by (subst uart_write_spin.simps) (auto simp: Let_def)
  next
    case False
    then show "\<exists>s'. uart_write_spin intr out s = Some s' \<and> isr_step s s' \<and> live s'
        \<and> (tx_out s' \<noteq> out \<or> \<not> waiting s')"
      using st lv by (subst uart_write_spin.simps) (auto simp: Let_def)
  qed
qed

lemma write_spin_returns:
  assumes "uart_wf s" "live s"
  shows "\<exists>s'. uart_write_spin intr out s = Some s' \<and> isr_step s s' \<and> live s'
    \<and> (tx_out s' \<noteq> out \<or> \<not> waiting s')"
proof (cases "out = tx_out (intr s) \<and> waiting (intr s)")
  case True
  have st: "isr_step s (intr s)" by (rule intr_step [OF assms(1)])
  show ?thesis
    using True write_spin_waiting [OF isr_step_wf [OF st] live_intr [OF assms(2)], of out] isr_step_trans [OF st]
    by (subst uart_write_spin.simps) (auto simp: Let_def)
next
  case False
  then show ?thesis
    using intr_step [OF assms(1)] live_intr [OF assms(2)]
    by (subst uart_write_spin.simps) (auto simp: Let_def)
qed

text \<open>After a wait there is room, or the host is away.\<close>

lemma wait_for_room:
  assumes wf: "uart_wf s" and live: "live s"
    and fill: "uart_write_fill intr rest out0 s = (left, out, t)" and left: "left \<noteq> []"
    and s1: "s1 = uart_enable_irq bus WE_MSK (intr t)"
  obtains s2 where "uart_write_spin intr out s1 = Some s2" "uart_wf (intr s2)" "live (intr s2)"
    "ju_host_inactive (intr s2) \<noteq> 0 \<or> length (tx_queue (intr s2)) < BUF_LEN - 1"
proof -
  obtain cs where "prog_step s [] cs t" using write_fill [OF wf fill] by blast
  then have t: "uart_wf t" by (simp add: prog_step_def)
  have lt: "live t" "out = tx_out t" using fill_live [OF live, of rest out0] fill left by auto
  have st1: "isr_step t s1"
    unfolding s1 using isr_step_trans [OF intr_step [OF t] enable_isr_step [OF intr_wf [OF t]]] .
  have "live s1" unfolding s1 using live_enable live_intr [OF lt(1)] .
  then obtain s2 where s2: "uart_write_spin intr out s1 = Some s2" "isr_step s1 s2" "live s2"
    "tx_out s2 \<noteq> out \<or> \<not> waiting s2"
    using write_spin_returns [OF isr_step_wf [OF st1]] by blast
  have t2: "isr_step t s2" and w2: "uart_wf s2"
    using isr_step_trans [OF st1 s2(2)] isr_step_wf [OF s2(2)] by auto
  have st3: "isr_step s2 (intr s2)" by (rule intr_step [OF w2])
  have "length (tx_queue t) < BUF_LEN" using ring_length_less t by (auto simp: uart_wf_def tx_queue_def)
  moreover have "ju_host_inactive (intr s2) \<noteq> 0 \<or> length (tx_queue (intr s2)) < length (tx_queue t)"
    using s2(4) tx_moved [OF t2 t] stays_away [OF w2 s2(3)] isr_step_tx_le [OF t2] isr_step_tx_le [OF st3] lt(2)
    by (auto simp: not_less)
  ultimately show thesis
    using that [OF s2(1) intr_wf [OF w2] live_intr [OF s2(3)]] by linarith
qed

lemma write_loop_waits:
  assumes "uart_wf s" "live s"
  shows "\<exists>left s'. uart_write_loop bus intr flags rest out0 s = Some (left, s')
    \<and> (left = [] \<or> flags AND O_NONBLOCK \<noteq> 0 \<or> ju_host_inactive s' \<noteq> 0)"
proof -
  have step: "\<exists>left s'. uart_write_loop bus intr flags rest out0 s = Some (left, s')
      \<and> (left = [] \<or> flags AND O_NONBLOCK \<noteq> 0 \<or> ju_host_inactive s' \<noteq> 0)"
    if wf: "uart_wf s" and lv: "live s"
      and ih: "\<And>l out t. length l \<le> length rest \<Longrightarrow>
        rest \<noteq> [] \<longrightarrow> length (tx_queue s) < BUF_LEN - 1 \<longrightarrow> length l < length rest \<Longrightarrow> uart_wf t \<Longrightarrow> live t \<Longrightarrow>
        length (tx_queue t) < BUF_LEN - 1 \<Longrightarrow> l \<noteq> [] \<Longrightarrow>
        \<exists>left s'. uart_write_loop bus intr flags l out t = Some (left, s')
          \<and> (left = [] \<or> flags AND O_NONBLOCK \<noteq> 0 \<or> ju_host_inactive s' \<noteq> 0)"
    for rest out0 s
  proof -
    obtain l out t where f: "uart_write_fill intr rest out0 s = (l, out, t)" by (metis prod_cases3)
    let ?s1 = "uart_enable_irq bus WE_MSK (intr t)"
    obtain cs where cs: "rest = cs @ l" "rest \<noteq> [] \<longrightarrow> length (tx_queue s) < BUF_LEN - 1 \<longrightarrow> cs \<noteq> []"
      using write_pass [OF wf f refl] by blast
    show ?thesis
    proof (cases "l = [] \<or> flags AND O_NONBLOCK \<noteq> 0")
      case True
      then show ?thesis by (subst uart_write_loop.simps) (auto simp: Let_def f)
    next
      case False
      then obtain s2 where s2: "uart_write_spin intr out ?s1 = Some s2" "uart_wf (intr s2)" "live (intr s2)"
        "ju_host_inactive (intr s2) \<noteq> 0 \<or> length (tx_queue (intr s2)) < BUF_LEN - 1"
        using wait_for_room [OF wf lv f _ refl] by blast
      have eq: "uart_write_loop bus intr flags rest out0 s =
          (if ju_host_inactive (intr s2) \<noteq> 0 then Some (l, intr s2)
           else uart_write_loop bus intr flags l out (intr s2))"
        using False s2(1) by (subst uart_write_loop.simps) (simp add: Let_def f)
      show ?thesis
      proof (cases "ju_host_inactive (intr s2) = 0")
        case True
        then show ?thesis using eq ih [of l "intr s2" out] s2 cs False by auto
      qed (use eq in auto)
    qed
  qed
  have room: "\<exists>left s'. uart_write_loop bus intr flags rest out0 s = Some (left, s')
      \<and> (left = [] \<or> flags AND O_NONBLOCK \<noteq> 0 \<or> ju_host_inactive s' \<noteq> 0)"
    if "uart_wf s" "live s" "length (tx_queue s) < BUF_LEN - 1" "rest \<noteq> []" for rest out0 s
    using that
  proof (induction "length rest" arbitrary: rest out0 s rule: less_induct)
    case less
    show ?case
      by (rule step [OF less.prems(1,2)]) (use less in blast)
  qed
  show ?thesis by (rule step [OF assms]) (use room in blast)
qed

end

section \<open>A device with no host\<close>

text \<open>
  A round of interrupts: the interrupt routine, then the alarm callback. Looks at the shared
  variables between which nothing happens are left out.
\<close>

definition uart_round :: "'h bus \<Rightarrow> addr \<Rightarrow> ('h, 'a) uart_scheme \<Rightarrow> ('h, 'a) uart_scheme" where
  "uart_round bus base s = snd (altera_avalon_jtag_uart_timeout bus (uart_intr bus base s))"

locale lonely_uart = uart_device +
  assumes no_host: "fst (iord bus base 1 h) AND AC_MSK = 0"

lemma uart_intr_waits:
  "ju_host_inactive (uart_intr bus base s) = ju_host_inactive s"
  "ju_timeout (uart_intr bus base s) = ju_timeout s" "ju_base (uart_intr bus base s) = ju_base s"
  using uart_intr_view [of bus base s] by (simp_all add: irq_view_def)

text \<open>The driver gives the host up after the timeout, provided that the count can reach it.\<close>

definition timeout_reachable :: "addr \<Rightarrow> ('h, 'a) uart_scheme \<Rightarrow> bool" where
  "timeout_reachable base s \<longleftrightarrow> ju_base s = base \<and> 0 < ju_timeout s \<and> ju_timeout s \<le> 2147483647 - 2"

definition seconds_left :: "('h, 'a) uart_scheme \<Rightarrow> nat" where
  "seconds_left s = unat (ju_timeout s) - unat (ju_host_inactive s)"

context lonely_uart
begin

lemma timeout_counts:
  assumes "ju_base s = base"
  shows "ju_host_inactive (snd (altera_avalon_jtag_uart_timeout bus s))
      = (if ju_host_inactive s < 2147483647 - 2 then ju_host_inactive s + 1 else ju_host_inactive s)
    \<and> ju_timeout (snd (altera_avalon_jtag_uart_timeout bus s)) = ju_timeout s
    \<and> ju_base (snd (altera_avalon_jtag_uart_timeout bus s)) = base"
  using no_host [of "hw s"] assms
  by (cases "iord bus base 1 (hw s)") (auto simp: altera_avalon_jtag_uart_timeout_def uart_iord_def Let_def)

end

lemma seconds_left_less:
  assumes "(n :: alt_u32) < t" "t \<le> 2147483647 - 2"
  shows "n < 2147483647 - 2 \<and> unat t - unat (n + 1) < unat t - unat n"
proof -
  have "unat n < unat t" using assms(1) by (simp add: word_less_nat_alt)
  moreover have "unat (n + 1) = unat n + 1"
    using calculation unat_32_bound [of t] by (simp add: unat_word_ariths)
  ultimately show ?thesis using assms by auto
qed

lemma no_wrap_32: "n < 2147483647 - 2 \<Longrightarrow> n + 1 \<noteq> (0 :: alt_u32)"
  by (auto simp: add_eq_0_iff2)

sublocale lonely_uart \<subseteq> lonely: uart_waits "uart_round bus base" "timeout_reachable base" seconds_left
proof unfold_locales
  fix s :: "('a, 'c) uart_scheme"
  let ?t = "uart_intr bus base s"
  show "isr_step s (uart_round bus base s)" if wf: "uart_wf s"
  proof -
    have st: "isr_step s ?t" by (rule isr.intr_step [OF wf])
    show ?thesis
      unfolding uart_round_def using isr_step_trans [OF st timeout_step [OF isr_step_wf [OF st]]] .
  qed
  assume live: "timeout_reachable base s"
  then have b: "ju_base ?t = base" by (simp add: timeout_reachable_def uart_intr_waits)
  show "timeout_reachable base (uart_round bus base s)"
    using live timeout_counts [OF b] by (simp add: timeout_reachable_def uart_round_def uart_intr_waits)
  assume "ju_host_inactive s < ju_timeout s"
  then have "seconds_left (uart_round bus base s) < seconds_left s"
    using live timeout_counts [OF b] seconds_left_less [of "ju_host_inactive s" "ju_timeout s"]
    by (simp add: seconds_left_def uart_round_def uart_intr_waits timeout_reachable_def)
  then show "ju_timeout (uart_round bus base s) \<le> ju_host_inactive (uart_round bus base s)
      \<or> length (rx_queue s) < length (rx_queue (uart_round bus base s))
      \<or> length (tx_queue (uart_round bus base s)) < length (tx_queue s)
      \<or> seconds_left (uart_round bus base s) < seconds_left s" by blast
qed

sublocale lonely_uart \<subseteq> lonely_write: uart_write_waits "uart_round bus base" "timeout_reachable base" seconds_left bus
proof unfold_locales
  fix s :: "('a, 'c) uart_scheme" and msk
  show "timeout_reachable base (s\<lparr>tx_buf := b\<rparr>) = timeout_reachable base s"
    "timeout_reachable base (s\<lparr>tx_in := i\<rparr>) = timeout_reachable base s" for b i
    by (simp_all add: timeout_reachable_def)
  assume live: "timeout_reachable base s"
  then show "timeout_reachable base (uart_enable_irq bus msk s)"
    by (simp add: timeout_reachable_def uart_enable_irq_def irq_defs uart_iowr_def)
  assume "ju_timeout s \<le> ju_host_inactive s"
  then have n: "0 < ju_host_inactive (uart_intr bus base s)"
    using live by (auto simp: timeout_reachable_def uart_intr_waits)
  have "ju_base (uart_intr bus base s) = base" using live by (simp add: timeout_reachable_def uart_intr_waits)
  from timeout_counts [OF this] n show "ju_host_inactive (uart_round bus base s) \<noteq> 0
      \<or> length (tx_queue (uart_round bus base s)) < length (tx_queue s)"
    by (auto simp: uart_round_def no_wrap_32)
qed

interpretation lonely_sim: lonely_uart sim_bus base sim_fifo sim_sent "\<lambda>_. 65536" for base
  by unfold_locales (simp add: sim_bus_def RI_MSK_def WI_MSK_def AC_MSK_def)

section \<open>Properties\<close>

text \<open>Property C17: a read for at least one byte always returns, as long as no wait goes on
  without end: with data, if any was buffered and if any comes in time; otherwise in
  non-blocking mode after a single look at the buffer, with one round of interrupts before it and
  no waiting, and else with an input/output error, after the interrupts have found the host
  inactive for the timeout.\<close>

theorem uart_read_always_returns:
  assumes "uart_waits intr live patience" and "uart_wf s" and "live s" and "0 < space"
  shows "\<exists>rc bs s'. altera_avalon_jtag_uart_read bus intr space flags s = Some ((rc, bs), s')
    \<and> (rx_queue s \<noteq> [] \<longrightarrow> bs \<noteq> []) \<and> (bs \<noteq> [] \<longrightarrow> rc = int (length bs))
    \<and> (bs = [] \<longrightarrow> (if flags AND O_NONBLOCK \<noteq> 0 then rc = - EWOULDBLOCK \<and> s' = intr s
        else rc = - EIO \<and> (\<exists>t. isr_step s t \<and> s' = intr t \<and> ju_timeout t \<le> ju_host_inactive t)))"
proof -
  obtain got s1 where "uart_read_loop intr flags (nat space) s = Some (got, s1)"
    "rx_queue s \<noteq> [] \<longrightarrow> got \<noteq> []"
    "got = [] \<longrightarrow> (if flags AND O_NONBLOCK \<noteq> 0 then s1 = intr s
      else (\<exists>t. isr_step s t \<and> s1 = intr t \<and> ju_timeout t \<le> ju_host_inactive t))"
    using uart_waits.read_loop_waits [OF assms(1-3), of "nat space" flags] assms(4) by (auto simp only: not_less zero_less_nat_eq)
  then show ?thesis by (auto simp: altera_avalon_jtag_uart_read_def)
qed

abbreviation lonely_intr :: "sim_uart uart \<Rightarrow> sim_uart uart" where
  "lonely_intr \<equiv> uart_round sim_bus 4096"

lemma sim_state_live: "timeout_reachable 4096 (sim_state rx inp)"
  by (simp add: timeout_reachable_def sim_state_def fdtable.extend_def)

theorem uart_read_always_returns_witness:
  "\<exists>rc bs s'. altera_avalon_jtag_uart_read sim_bus lonely_intr 8 0 (sim_state [] []) = Some ((rc, bs), s')
     \<and> (bs = [] \<longrightarrow> rc = - EIO)"
  using uart_read_always_returns [OF lonely_sim.lonely.uart_waits_axioms, of "sim_state [] []" 4096 8 sim_bus 0]
    sim_state_wf [of "[]" "[]"] sim_state_live by auto

text \<open>Property C18: a write of at least one byte always returns, as long as no wait goes on without
  end and a host that was given up does not come back without taking a byte. A blocking write that
  does not put all its bytes into the transmit queue has found the host inactive.\<close>

theorem uart_write_always_returns:
  assumes "uart_write_waits intr live patience bus" and "uart_wf s" and "live s"
    and "0 < count" and "nat count \<le> length ptr"
  shows "\<exists>rc s'. altera_avalon_jtag_uart_write bus intr ptr count flags s = Some (rc, s')
    \<and> (rc = count \<or> flags AND O_NONBLOCK \<noteq> 0 \<or> ju_host_inactive s' \<noteq> 0)"
proof -
  obtain left s' where "uart_write_loop bus intr flags (take (nat count) ptr) 0 s = Some (left, s')"
    "left = [] \<or> flags AND O_NONBLOCK \<noteq> 0 \<or> ju_host_inactive s' \<noteq> 0"
    using uart_write_waits.write_loop_waits [OF assms(1-3)] by blast
  then show ?thesis
    using assms(4,5) by (auto simp: altera_avalon_jtag_uart_write_def Let_def)
qed

theorem uart_write_always_returns_witness:
  "\<exists>rc s'. altera_avalon_jtag_uart_write sim_bus lonely_intr (replicate 3000 65) 3000 0 (sim_state [] [])
       = Some (rc, s') \<and> (rc = 3000 \<or> ju_host_inactive s' \<noteq> 0)"
  using uart_write_always_returns [OF lonely_sim.lonely_write.uart_write_waits_axioms, of "sim_state [] []" 4096 3000
      "replicate 3000 65" 0] sim_state_wf [of "[]" "[]"] sim_state_live by auto

text \<open>A close returns too: with the bytes sent, or with the host given up.\<close>

theorem uart_close_always_returns:
  assumes "uart_waits intr live patience" and "uart_wf s" and "live s"
  shows "\<exists>rc s'. altera_avalon_jtag_uart_close intr flags s = Some (rc, s')
    \<and> (rc = 0 \<longrightarrow> tx_queue s' = [] \<or> ju_timeout s' \<le> ju_host_inactive s')"
proof -
  obtain rc s' where r: "altera_avalon_jtag_uart_close intr flags s = Some (rc, s')"
    using uart_waits.close_returns [OF assms, of flags] by auto
  moreover have "uart_interrupts intr" using assms(1) by (simp add: uart_waits_def)
  ultimately show ?thesis using uart_interrupts.close_conserves [OF _ r assms(2)] by blast
qed

end
