(* ===== verification/Alarm_Watch.thy ===== *)
theory Alarm_Watch
  imports Alarm
begin

text \<open>
  One alarm among others, seen through what its callback does: an observation \<open>obs\<close> of the state
  that only the callback \<open>cb\<close> with context \<open>ctx\<close> changes, by \<open>upd\<close>, in the states satisfying \<open>inv\<close>.
  Each time the alarm expires, and at no other time, the observation is updated once.
\<close>

locale watched_alarm =
  fixes call :: "addr \<Rightarrow> addr \<Rightarrow> 'a sysclk_scheme \<Rightarrow> alt_u32 \<times> 'a sysclk_scheme"
    and inv :: "'a sysclk_scheme \<Rightarrow> bool" and obs :: "'a sysclk_scheme \<Rightarrow> 'b"
    and cb :: addr and ctx :: addr and period :: alt_u32 and upd :: "'b \<Rightarrow> 'b"
  assumes safe: "alarm_safe call"
    and inv_frame: "inv (s\<lparr>alarm_at := a\<rparr>) = inv s" "inv (s\<lparr>nticks := n\<rparr>) = inv s"
      "inv (alt_alarm_stop x s) = inv s"
    and obs_frame: "obs (s\<lparr>alarm_at := a\<rparr>) = obs s" "obs (s\<lparr>nticks := n\<rparr>) = obs s"
      "obs (alt_alarm_stop x s) = obs s"
    and inv_call: "inv s \<Longrightarrow> inv (snd (call c d s))"
    and obs_other: "inv s \<Longrightarrow> d \<noteq> ctx \<Longrightarrow> obs (snd (call c d s)) = obs s"
    and own_call: "inv s \<Longrightarrow> fst (call cb ctx s) = period" "inv s \<Longrightarrow> obs (snd (call cb ctx s)) = upd (obs s)"
    and period: "period \<noteq> 0"
begin

text \<open>The callbacks, made total: outside \<open>inv\<close> they do nothing. Inside it is the same tick.\<close>

definition guarded :: "addr \<Rightarrow> addr \<Rightarrow> 'a sysclk_scheme \<Rightarrow> alt_u32 \<times> 'a sysclk_scheme" where
  "guarded c d s = (if inv s then call c d s else (period, s))"

lemma guarded_safe: "alarm_safe guarded"
  using safe by (auto simp: alarm_safe_def guarded_def)

lemma inv_cleared: "inv (cleared s y) = inv s" and obs_cleared: "obs (cleared s y) = obs s"
  by (simp_all add: cleared_def inv_frame obs_frame)

lemma inv_tick_alarm: "inv s \<Longrightarrow> inv (alt_tick_alarm call y s)"
  using inv_call [of "cleared s y" "callback (alarm_at s y)" "cb_context (alarm_at s y)"]
  by (cases "alarm_due s y")
    (auto simp: tick_alarm_not_due tick_alarm_due inv_cleared inv_frame Let_def split: prod.splits)

lemma guarded_tick_alarm: "inv s \<Longrightarrow> alt_tick_alarm guarded y s = alt_tick_alarm call y s"
  by (cases "alarm_due s y") (simp_all add: tick_alarm_not_due tick_alarm_due guarded_def inv_cleared)

lemma guarded_fold: "inv s \<Longrightarrow> fold (alt_tick_alarm guarded) ys s = fold (alt_tick_alarm call) ys s
    \<and> inv (fold (alt_tick_alarm call) ys s)"
  by (induction ys arbitrary: s) (simp_all add: guarded_tick_alarm inv_tick_alarm)

lemma obs_tick_alarm:
  assumes "inv s" "cb_context (alarm_at s y) = ctx \<longrightarrow> callback (alarm_at s y) = cb"
  shows "obs (alt_tick_alarm call y s) =
    (if alarm_due s y \<and> cb_context (alarm_at s y) = ctx then upd (obs s) else obs s)"
  using assms own_call [of "cleared s y"] obs_other [of "cleared s y" "cb_context (alarm_at s y)" "callback (alarm_at s y)"]
  by (cases "alarm_due s y")
    (auto simp: tick_alarm_not_due tick_alarm_due inv_cleared obs_cleared obs_frame Let_def split: prod.splits)

lemma obs_fold:
  assumes "inv s" "distinct ys" "callback (alarm_at s x) = cb" "cb_context (alarm_at s x) = ctx"
    and "\<And>y. y \<in> set ys \<Longrightarrow> y \<noteq> x \<Longrightarrow> cb_context (alarm_at s y) \<noteq> ctx"
  shows "obs (fold (alt_tick_alarm call) ys s) =
    (if x \<in> set ys \<and> alarm_due s x then upd (obs s) else obs s)"
  using assms
proof (induction ys arbitrary: s)
  case (Cons y ys)
  let ?s = "alt_tick_alarm call y s"
  note fr = tick_alarm_frame [OF safe] tick_alarm_callback [OF safe]
  have ctx_eq: "cb_context (alarm_at ?s z) = cb_context (alarm_at s z)"
    "callback (alarm_at ?s z) = callback (alarm_at s z)" for z
    by (cases "z = y"; simp add: fr)+
  have "obs (fold (alt_tick_alarm call) ys ?s) =
      (if x \<in> set ys \<and> alarm_due ?s x then upd (obs ?s) else obs ?s)"
    using Cons.prems by (intro Cons.IH) (auto simp: ctx_eq inv_tick_alarm)
  moreover have "obs ?s = (if alarm_due s y \<and> y = x then upd (obs s) else obs s)"
    using Cons.prems by (subst obs_tick_alarm) auto
  moreover have "x \<noteq> y \<Longrightarrow> alarm_due ?s x = alarm_due s x"
    by (simp add: alarm_due_def fr)
  ultimately show ?case using Cons.prems(2) by auto
qed simp

text \<open>The alarm \<open>x\<close> is the watched one, and expires in \<open>r\<close> ticks.\<close>

definition watches :: "'a sysclk_scheme \<Rightarrow> addr \<Rightarrow> nat \<Rightarrow> bool" where
  "watches s x r \<longleftrightarrow> armed s x r \<and> sole_context s x \<and> inv s
     \<and> callback (alarm_at s x) = cb \<and> cb_context (alarm_at s x) = ctx"

lemma watched_tick:
  assumes "watches s x r"
  shows "\<exists>s'. alt_tick call s = Some s' \<and> watches s' x (if r = 1 then unat period else r - 1)
    \<and> obs s' = (if r = 1 then upd (obs s) else obs s)"
proof -
  note w = assms [unfolded watches_def]
  let ?s0 = "s\<lparr>nticks := nticks s + 1\<rparr>"
  obtain xs where xs: "dllist (llists s) (alt_alarm_list s) xs" "x \<in> set xs"
    using w by (auto simp: armed_def)
  have d: "distinct xs" using ll.holds_distinct [OF xs(1)] by simp
  let ?s' = "fold (alt_tick_alarm call) xs ?s0"
  have g: "fold (alt_tick_alarm guarded) xs ?s0 = ?s'" "inv ?s'"
    using guarded_fold [of ?s0 xs] w by (auto simp: inv_frame)
  have run: "alt_tick call s = Some ?s'" "alt_tick guarded s = Some ?s'"
    using alt_tick_runs [OF safe xs(1)] alt_tick_runs [OF guarded_safe xs(1)] g(1) by simp_all
  obtain s'' where a: "alt_tick guarded s = Some s''"
    "callback (alarm_at s'' x) = callback (alarm_at s x)"
    "cb_context (alarm_at s'' x) = cb_context (alarm_at s x)"
    "1 < r \<Longrightarrow> armed s'' x (r - 1)"
    "\<And>p. r = 1 \<Longrightarrow> p \<noteq> 0 \<Longrightarrow>
       (\<And>t. fst (guarded (callback (alarm_at s x)) (cb_context (alarm_at s x)) t) = p) \<Longrightarrow> armed s'' x (unat p)"
    using armed_tick [OF guarded_safe, of s x r] w by metis
  have eq: "s'' = ?s'" using a(1) run(2) by simp
  have "armed ?s' x (if r = 1 then unat period else r - 1)"
    using a(4) a(5) [of period] w period own_call(1) by (auto simp: guarded_def armed_def eq)
  moreover have "sole_context ?s' x"
  proof -
    obtain zs where "dllist (llists ?s') (alt_alarm_list ?s') zs" "set zs \<subseteq> set xs"
      using fold_tick_list [OF safe, of ?s0 "[]" xs] xs(1) by (auto simp: fold_tick_frame [OF safe])
    then show ?thesis
      using w xs(1) by (auto simp: sole_context_def fold_tick_context [OF safe] dest: ll.holds_unique)
  qed
  moreover have "obs ?s' = (if r = 1 then upd (obs s) else obs s)"
    using obs_fold [of ?s0 xs x] d w xs armed_due [of s x r]
    by (auto simp: inv_frame obs_frame sole_context_def)
  ultimately show ?thesis using run(1) g(2) a(2,3) w by (auto simp: watches_def eq)
qed

text \<open>What leaves the clock alone leaves the watch alone.\<close>

lemma watches_cong:
  assumes "watches s x r" "inv t"
    and "llists t = llists s" "alt_alarm_list t = alt_alarm_list s" "alarm_at t = alarm_at s" "nticks t = nticks s"
  shows "watches t x r"
  using assms by (auto simp: watches_def armed_def sole_context_def)

end

end
