(* ===== verification/Host_Watch.thy ===== *)
theory Host_Watch
  imports Uart_Wait Alarm_Watch
begin

text \<open>
  The JTAG UART driver and the system clock put together: \<^verbatim>\<open>altera_avalon_jtag_uart_init()\<close>
  starts an alarm, \<^verbatim>\<open>alt_tick()\<close> calls its callback once a second among those of other alarms,
  and interrupts of the UART are taken in between. The count of seconds without a host, on which
  the waits of \<open>Uart_Wait\<close> rest, follows from the ticks alone.
\<close>

section \<open>The clock of a driver without a host\<close>

text \<open>
  \<open>call\<close> is the calling of alarm callbacks, and that at address \<open>tmo\<close> is the driver's. All
  callbacks leave alone the alarm list and the tick counter (\<open>alarm_safe\<close>), the tick rate and the base
  address of the driver; those called with contexts other than \<open>sp\<close>, its count of seconds too.
\<close>

locale host_clock = lonely_uart bus base fifo sent room
  for bus :: "'h bus" and base fifo sent room +
  fixes call :: "addr \<Rightarrow> addr \<Rightarrow> ('h, 'a) uart_scheme \<Rightarrow> alt_u32 \<times> ('h, 'a) uart_scheme"
    and tmo sp :: addr and rate :: alt_u32
  assumes call_safe: "alarm_safe call"
    and call_tmo: "call tmo sp s = altera_avalon_jtag_uart_timeout bus s"
    and call_keeps: "ju_base (snd (call c d s)) = ju_base s" "tick_rate (snd (call c d s)) = tick_rate s"
    and call_other: "d \<noteq> sp \<Longrightarrow> ju_host_inactive (snd (call c d s)) = ju_host_inactive s"
    and rate_ok: "rate \<noteq> 0" "rate \<noteq> - 1"

definition count_second :: "alt_u32 \<Rightarrow> alt_u32" where
  "count_second n = (if n < 2147483647 - 2 then n + 1 else n)"

definition on_clock :: "addr \<Rightarrow> alt_u32 \<Rightarrow> ('h, 'a) uart_scheme \<Rightarrow> bool" where
  "on_clock base rate s \<longleftrightarrow> ju_base s = base \<and> tick_rate s = rate"

lemma alarm_stop_uart [simp]:
  "ju_base (alt_alarm_stop x s) = ju_base s" "tick_rate (alt_alarm_stop x s) = tick_rate s"
  "ju_host_inactive (alt_alarm_stop x s) = ju_host_inactive s" for s :: "('h, 'a) uart_scheme"
  by (simp_all add: alt_alarm_stop_def irq_defs)

lemma timeout_result:
  "fst (altera_avalon_jtag_uart_timeout bus s) = tick_rate (snd (altera_avalon_jtag_uart_timeout bus s))"
  by (simp add: altera_avalon_jtag_uart_timeout_def alt_ticks_per_second_def Let_def split: prod.splits)

sublocale host_clock \<subseteq> host: watched_alarm call "on_clock base rate" ju_host_inactive tmo sp rate count_second
proof unfold_locales
  show "alarm_safe call" by (rule call_safe)
  fix s and c d
  show "on_clock base rate (snd (call c d s))" if "on_clock base rate s"
    using that by (simp add: on_clock_def call_keeps)
  show "fst (call tmo sp s) = rate" if "on_clock base rate s"
    using that call_keeps(2) [of tmo sp s] by (simp add: on_clock_def call_tmo timeout_result)
  show "ju_host_inactive (snd (call tmo sp s)) = count_second (ju_host_inactive s)" if "on_clock base rate s"
    using that timeout_counts [of s] by (simp add: on_clock_def call_tmo count_second_def)
qed (auto simp: on_clock_def call_other rate_ok)

section \<open>Runs\<close>

text \<open>
  The states reached by ticks and interrupts of the UART, in any order; \<open>k\<close> counts the ticks.
\<close>

inductive uart_runs ::
  "'h bus \<Rightarrow> (addr \<Rightarrow> addr \<Rightarrow> ('h, 'a) uart_scheme \<Rightarrow> alt_u32 \<times> ('h, 'a) uart_scheme)
   \<Rightarrow> ('h, 'a) uart_scheme \<Rightarrow> nat \<Rightarrow> ('h, 'a) uart_scheme \<Rightarrow> bool"
  for bus call s0 where
  Start: "uart_runs bus call s0 0 s0"
| Tick: "uart_runs bus call s0 k s \<Longrightarrow> alt_tick call s = Some s' \<Longrightarrow> uart_runs bus call s0 (Suc k) s'"
| Irq: "uart_runs bus call s0 k s \<Longrightarrow> altera_avalon_jtag_uart_irq bus s = Some s'
    \<Longrightarrow> uart_runs bus call s0 k s'"

text \<open>After \<open>k\<close> ticks: the seconds counted, and the ticks left to the next.\<close>

definition seconds_after :: "nat \<Rightarrow> nat \<Rightarrow> nat" where
  "seconds_after rate k = (k - 1) div rate"

definition ticks_left :: "nat \<Rightarrow> nat \<Rightarrow> nat" where
  "ticks_left rate k = (if k = 0 then rate + 1 else rate - (k - 1) mod rate)"

lemma ticks_left_Suc:
  assumes "0 < rate"
  shows "ticks_left rate (Suc k) = (if ticks_left rate k = 1 then rate else ticks_left rate k - 1)"
    and "seconds_after rate (Suc k) =
      (if ticks_left rate k = 1 then Suc (seconds_after rate k) else seconds_after rate k)"
proof -
  have "k mod rate < rate" "(k - 1) mod rate < rate" using assms by simp_all
  then show "ticks_left rate (Suc k) = (if ticks_left rate k = 1 then rate else ticks_left rate k - 1)"
    "seconds_after rate (Suc k) =
      (if ticks_left rate k = 1 then Suc (seconds_after rate k) else seconds_after rate k)"
    using assms by (cases k; auto simp: ticks_left_def seconds_after_def mod_Suc div_Suc)+
qed

lemma count_second_of_nat:
  "count_second (of_nat (min n 2147483645)) = of_nat (min (Suc n) 2147483645)"
proof (cases "n < 2147483645")
  case True
  then have "(of_nat n :: alt_u32) < 2147483645"
    by (simp add: word_less_nat_alt unat_of_nat)
  then show ?thesis using True by (simp add: count_second_def min_def add.commute)
next
  case False
  then show ?thesis by (simp add: count_second_def min_def)
qed

lemma irq_view_clock:
  assumes "irq_view t = irq_view s"
  shows "llists t = llists s" "alt_alarm_list t = alt_alarm_list s" "alarm_at t = alarm_at s"
    "nticks t = nticks s" "ju_host_inactive t = ju_host_inactive s" "on_clock b r t = on_clock b r s"
  using assms by (simp_all add: irq_view_def fd_view_def on_clock_def)

lemma irq_view_more: "irq_view t = irq_view s \<Longrightarrow> uart.more t = uart.more s"
  by (simp add: irq_view_def)

section \<open>The count\<close>

context host_clock
begin

lemma run_watches:
  assumes "uart_runs bus call s0 k s" and "host.watches s0 x (unat rate + 1)" and "ju_host_inactive s0 = 0"
  shows "host.watches s x (ticks_left (unat rate) k)
    \<and> ju_host_inactive s = of_nat (min (seconds_after (unat rate) k) 2147483645)"
  using assms
proof (induction rule: uart_runs.induct)
  case Start
  then show ?case by (simp add: ticks_left_def seconds_after_def)
next
  case (Tick k s s')
  have "0 < unat rate" using rate_ok(1) by (simp add: unat_gt_0)
  note next_tick = ticks_left_Suc [OF this]
  have ih: "host.watches s x (ticks_left (unat rate) k)"
    "ju_host_inactive s = of_nat (min (seconds_after (unat rate) k) 2147483645)" using Tick by blast+
  show ?case
    using host.watched_tick [OF ih(1)] Tick.hyps(2) ih(2) by (auto simp: next_tick count_second_of_nat)
next
  case (Irq k s s')
  then show ?case
    using irq_view_clock [OF view_irq [OF Irq.hyps(2)]] host.watches_cong [of s x _ s']
    by (auto simp: host.watches_def)
qed

end

section \<open>From the initialisation on\<close>

lemma irq_register_clock:
  "alt_ic_isr_register ic irq isr ctx flags s = Inr (rc, t) \<Longrightarrow>
     llists t = llists s \<and> alt_alarm_list t = alt_alarm_list s \<and> alarm_at t = alarm_at s
     \<and> nticks t = nticks s \<and> tick_rate t = tick_rate s \<and> ju_base t = ju_base s \<and> ju_alarm t = ju_alarm s
     \<and> ju_timeout t = ju_timeout s \<and> uart_wf t = uart_wf s \<and> uart.more t = uart.more s"
  for s :: "('h, 'a) uart_scheme"
  by (auto simp: alt_ic_isr_register_def alt_iic_isr_register_def irq_defs uart_wf_def split: if_splits)

lemma uart_iowr_clock [simp]:
  "llists (uart_iowr bus r v s) = llists s" "alt_alarm_list (uart_iowr bus r v s) = alt_alarm_list s"
  "alarm_at (uart_iowr bus r v s) = alarm_at s" "nticks (uart_iowr bus r v s) = nticks s"
  "tick_rate (uart_iowr bus r v s) = tick_rate s" "ju_alarm (uart_iowr bus r v s) = ju_alarm s"
  "ju_timeout (uart_iowr bus r v s) = ju_timeout s" "uart.more (uart_iowr bus r v s) = uart.more s"
  by (simp_all add: uart_iowr_def)

context host_clock
begin

text \<open>The initialisation starts the watch, with its first second still to come.\<close>

lemma init_watches:
  assumes ls: "dllist (llists s) (alt_alarm_list s) xs"
    and x: "ju_alarm s \<noteq> 0" "ju_alarm s \<notin> set (alt_alarm_list s # xs)"
    and ctx: "\<forall>y\<in>set xs. cb_context (alarm_at s y) \<noteq> sp"
    and on: "on_clock base rate s"
    and init: "altera_avalon_jtag_uart_init bus isr tmo sp ic irq s = Inr s1"
  shows "host.watches s1 (ju_alarm s) (unat rate + 1) \<and> ju_host_inactive s1 = 0"
    and "uart_wf s1 = uart_wf s \<and> ju_timeout s1 = ju_timeout s \<and> uart.more s1 = uart.more s"
proof -
  let ?s2 = "uart_iowr bus UART_CONTROL RE_MSK (s\<lparr>ju_irq_enable := RE_MSK\<rparr>)"
  obtain rc t where t: "alt_ic_isr_register ic irq isr sp 0 ?s2 = Inr (rc, t)"
    using init by (auto simp: altera_avalon_jtag_uart_init_def Let_def split: sum.splits)
  note t' = irq_register_clock [OF t]
  let ?t = "t\<lparr>ju_host_inactive := 0\<rparr>"
  have pre: "dllist (llists ?t) (alt_alarm_list ?t) xs" "ju_alarm s \<notin> set (alt_alarm_list ?t # xs)"
    "tick_rate ?t \<noteq> 0"
    using ls x on t' rate_ok by (auto simp: on_clock_def)
  obtain u where u: "alt_alarm_start (ju_alarm s) rate tmo sp ?t = (0, u)"
    "dllist (llists u) (alt_alarm_list u) (ju_alarm s # xs)" "armed u (ju_alarm s) (unat rate + 1)"
    "callback (alarm_at u (ju_alarm s)) = tmo" "cb_context (alarm_at u (ju_alarm s)) = sp"
    "\<forall>y. y \<noteq> ju_alarm s \<longrightarrow> alarm_at u y = alarm_at ?t y"
    using alt_alarm_start_armed [OF pre(1,2) x(1) pre(3) rate_ok(2)] by blast
  have f: "ju_host_inactive u = 0" "on_clock base rate u" "uart_wf u = uart_wf s" "ju_timeout u = ju_timeout s"
    "uart.more u = uart.more s"
    using u(1) on t' by (auto simp: alt_alarm_start_eq [OF pre(3) x(1)] on_clock_def uart_wf_def)
  have s1: "s1 = u"
    using init t u(1) t' on
    by (simp add: altera_avalon_jtag_uart_init_def Let_def alt_ticks_per_second_def on_clock_def)
  have "sole_context u (ju_alarm s)"
    using u(2,5,6) ctx t' x by (auto simp: sole_context_def dest: ll.holds_unique)
  then show "host.watches s1 (ju_alarm s) (unat rate + 1) \<and> ju_host_inactive s1 = 0"
    using u f by (simp add: host.watches_def s1)
  show "uart_wf s1 = uart_wf s \<and> ju_timeout s1 = ju_timeout s \<and> uart.more s1 = uart.more s"
    using f by (simp add: s1)
qed

lemma run_counts:
  assumes "host.watches s0 x (unat rate + 1) \<and> ju_host_inactive s0 = 0" and "uart_runs bus call s0 k s"
  shows "ju_host_inactive s = of_nat (min (seconds_after (unat rate) k) 2147483645)
    \<and> (\<exists>u. alt_tick call s = Some u)"
  using run_watches [OF assms(2)] assms(1) host.watched_tick by blast

end

section \<open>Properties\<close>

text \<open>Property C4: from its initialisation on, however the ticks of the clock and the interrupts of
  the UART are interleaved, every tick returns, and a driver whose host is away has after \<open>k\<close> ticks
  counted exactly the whole seconds since the first tick, up to the largest count. So the host is
  given up after the timeout and not before. There may be other alarms, periodic or not, as long
  as they keep to the contract \<open>host_clock\<close>: no callback touches the list of alarms, an alarm
  structure or the counter of ticks (one that stops the next alarm makes the tick hang,
  \<open>Alarm.alt_tick_stopping_next_hangs\<close>), nor the tick rate, the base address of the driver or, when
  called for another alarm than the driver's, its count; and no other alarm in the list has the
  driver's context.\<close>

theorem uart_counts_seconds_without_host:
  assumes "host_clock bus base fifo sent room call tmo sp rate"
    and "dllist (llists s) (alt_alarm_list s) xs"
    and "ju_alarm s \<noteq> 0" and "ju_alarm s \<notin> set (alt_alarm_list s # xs)"
    and "\<forall>y\<in>set xs. cb_context (alarm_at s y) \<noteq> sp"
    and "ju_base s = base" and "tick_rate s = rate"
    and "altera_avalon_jtag_uart_init bus isr tmo sp ic irq s = Inr s1"
    and "uart_runs bus call s1 k t"
  shows "ju_host_inactive t = of_nat (min ((k - 1) div unat rate) 2147483645)
    \<and> (\<exists>u. alt_tick call t = Some u)"
proof -
  have "on_clock base rate s" using assms(6,7) by (simp add: on_clock_def)
  from host_clock.run_counts [OF assms(1) host_clock.init_watches(1) [OF assms(1-5) this assms(8)] assms(9)]
  show ?thesis by (simp add: seconds_after_def)
qed

text \<open>The simulated device, with the driver's callback at address 100 and its state at 200.\<close>

definition sim_call ::
  "addr \<Rightarrow> addr \<Rightarrow> (sim_uart, 'a) uart_scheme \<Rightarrow> alt_u32 \<times> (sim_uart, 'a) uart_scheme" where
  "sim_call c d s = (if c = 100 \<and> d = 200 then altera_avalon_jtag_uart_timeout sim_bus s else (5, s))"

lemma timeout_clock:
  "llists (snd (altera_avalon_jtag_uart_timeout bus s)) = llists s"
  "alarm_at (snd (altera_avalon_jtag_uart_timeout bus s)) = alarm_at s"
  "nticks (snd (altera_avalon_jtag_uart_timeout bus s)) = nticks s"
  "alt_alarm_list (snd (altera_avalon_jtag_uart_timeout bus s)) = alt_alarm_list s"
  "tick_rate (snd (altera_avalon_jtag_uart_timeout bus s)) = tick_rate s"
  "ju_base (snd (altera_avalon_jtag_uart_timeout bus s)) = ju_base s"
  "ju_timeout (snd (altera_avalon_jtag_uart_timeout bus s)) = ju_timeout s"
  "uart.more (snd (altera_avalon_jtag_uart_timeout bus s)) = uart.more s"
  by (auto simp: altera_avalon_jtag_uart_timeout_def Let_def uart_iord_def uart_iowr_def split: prod.splits)

interpretation sim_clock: host_clock sim_bus base sim_fifo sim_sent "\<lambda>_. 65536" sim_call 100 200 1000 for base
proof unfold_locales
  show "alarm_safe sim_call" by (auto simp: alarm_safe_def sim_call_def timeout_clock)
qed (auto simp: sim_call_def timeout_clock)

definition fresh_uart :: "sim_uart uart" where
  "fresh_uart = (sim_state [] [])\<lparr>llists := ALT_LLIST_HEAD 16 (llists (sim_state [] []))\<rparr>"

lemma fresh_uart_simps:
  "alt_alarm_list fresh_uart = 16" "ju_alarm fresh_uart = 900" "ju_base fresh_uart = 4096"
  "tick_rate fresh_uart = 1000" "ju_timeout fresh_uart = 10" "uart_wf fresh_uart"
  using sim_state_wf [of "[]" "[]"]
  by (simp_all add: fresh_uart_def sim_state_def fdtable.extend_def demo_table_def uart_wf_def)

lemma fresh_uart_list: "dllist (llists fresh_uart) (alt_alarm_list fresh_uart) []"
  unfolding fresh_uart_simps(1) by (simp add: fresh_uart_def dllist_head)

lemma init_returns: "\<exists>s1. altera_avalon_jtag_uart_init sim_bus 300 100 200 0 5 s = Inr s1"
  by (simp add: altera_avalon_jtag_uart_init_def alt_ic_isr_register_signed_bound Let_def case_prod_beta')

theorem uart_counts_seconds_without_host_witness:
  "\<exists>s1 t. altera_avalon_jtag_uart_init sim_bus 300 100 200 0 5 fresh_uart = Inr s1
     \<and> uart_runs sim_bus sim_call s1 2001 t \<and> ju_host_inactive t = 2"
proof -
  note fresh = fresh_uart_simps
  obtain s1 where init: "altera_avalon_jtag_uart_init sim_bus 300 100 200 0 5 fresh_uart = Inr s1"
    using init_returns by blast
  have pre: "ju_alarm fresh_uart \<noteq> 0" "ju_alarm fresh_uart \<notin> set (alt_alarm_list fresh_uart # [])"
    "\<forall>y\<in>set []. cb_context (alarm_at fresh_uart y) \<noteq> 200"
    by (simp_all add: fresh)
  note counts = uart_counts_seconds_without_host [OF sim_clock.host_clock_axioms fresh_uart_list pre fresh(3,4) init]
  have "\<exists>t. uart_runs sim_bus sim_call s1 k t" for k
  proof (induction k)
    case 0
    show ?case using uart_runs.Start by blast
  next
    case (Suc k)
    then show ?case using counts uart_runs.Tick by blast
  qed
  then obtain t where t: "uart_runs sim_bus sim_call s1 2001 t" by blast
  have "ju_host_inactive t = 2" using counts [OF t] by simp
  with init t show ?thesis by blast
qed

end
