(* ===== verification/Tick_Waits.thy ===== *)
theory Tick_Waits
  imports Host_Watch
begin

text \<open>
  Waiting for the JTAG UART with the interrupts that the system really has: those of the UART and
  the tick of the system clock, which calls the driver's alarm among the others. Between two looks
  at the shared variables any number of them may be taken, in any order. As long as the clock
  keeps ticking, every wait ends, so the properties of \<open>Uart_Wait\<close> hold of the driver on its clock.
\<close>

section \<open>Schedules\<close>

text \<open>
  When interrupts are taken is up to the hardware. A schedule says which come before the next
  look of the program at a shared variable, which before the look after that, and so on; the state
  carries what is left of it.
\<close>

datatype interrupt = Uart_interrupt | Clock_tick

record 'h clocked = "'h uart" +
  schedule :: "nat \<Rightarrow> interrupt list"

text \<open>
  One interrupt. Where the driver or the clock is not that of the contract below (another base
  address or tick rate), nothing is said to happen. A tick that did not return would not be seen
  either; under the contract there is none (\<open>watched_tick\<close>).
\<close>

definition take_interrupt ::
  "'h bus \<Rightarrow> addr \<Rightarrow> alt_u32 \<Rightarrow> (addr \<Rightarrow> addr \<Rightarrow> ('h, 'a) uart_scheme \<Rightarrow> alt_u32 \<times> ('h, 'a) uart_scheme)
   \<Rightarrow> interrupt \<Rightarrow> ('h, 'a) uart_scheme \<Rightarrow> ('h, 'a) uart_scheme" where
  "take_interrupt bus base rate call i s =
     (case i of
        Uart_interrupt \<Rightarrow> uart_intr bus base s
      | Clock_tick \<Rightarrow>
          (if on_clock base rate s then (case alt_tick call s of Some u \<Rightarrow> u | None \<Rightarrow> s) else s))"

definition until_next_look ::
  "'h bus \<Rightarrow> addr \<Rightarrow> alt_u32 \<Rightarrow> (addr \<Rightarrow> addr \<Rightarrow> ('h, 'a) clocked_scheme \<Rightarrow> alt_u32 \<times> ('h, 'a) clocked_scheme)
   \<Rightarrow> ('h, 'a) clocked_scheme \<Rightarrow> ('h, 'a) clocked_scheme" where
  "until_next_look bus base rate call s =
     fold (take_interrupt bus base rate call) (schedule s 0) (s\<lparr>schedule := (\<lambda>n. schedule s (Suc n))\<rparr>)"

text \<open>The only thing asked of a schedule: the clock goes on ticking.\<close>

definition ticks_keep_coming :: "(nat \<Rightarrow> interrupt list) \<Rightarrow> bool" where
  "ticks_keep_coming f \<longleftrightarrow> (\<forall>n. \<exists>m\<ge>n. Clock_tick \<in> set (f m))"

text \<open>The ticks before look number \<open>n\<close>, and the looks it takes to see \<open>k\<close> ticks.\<close>

definition ticks_before :: "(nat \<Rightarrow> interrupt list) \<Rightarrow> nat \<Rightarrow> nat" where
  "ticks_before f n = (\<Sum>i<n. count_list (f i) Clock_tick)"

definition looks_for :: "(nat \<Rightarrow> interrupt list) \<Rightarrow> nat \<Rightarrow> nat" where
  "looks_for f k = (LEAST n. k \<le> ticks_before f n)"

lemma ticks_before_unbounded:
  assumes "ticks_keep_coming f"
  shows "\<exists>n. k \<le> ticks_before f n"
proof (induction k)
  case (Suc k)
  then obtain n where n: "k \<le> ticks_before f n" by blast
  obtain m where m: "n \<le> m" "Clock_tick \<in> set (f m)" using assms by (auto simp: ticks_keep_coming_def)
  have "ticks_before f n \<le> ticks_before f m"
    unfolding ticks_before_def using m(1) by (intro sum_mono2) auto
  moreover have "0 < count_list (f m) Clock_tick" using m(2) by (simp add: count_list_0_iff zero_less_iff_neq_zero)
  ultimately have "Suc k \<le> ticks_before f (Suc m)" using n by (simp add: ticks_before_def)
  then show ?case by blast
qed simp

lemma ticks_keep_coming_later: "ticks_keep_coming f \<Longrightarrow> ticks_keep_coming (\<lambda>n. f (Suc n))"
  unfolding ticks_keep_coming_def by (metis Suc_le_D Suc_le_mono)

text \<open>After one look, that many ticks fewer are needed, and one look fewer.\<close>

lemma looks_for_less:
  assumes "ticks_keep_coming f" "0 < k" "k' + count_list (f 0) Clock_tick \<le> k"
  shows "looks_for (\<lambda>n. f (Suc n)) k' < looks_for f k"
proof -
  have le: "k \<le> ticks_before f (looks_for f k)"
    unfolding looks_for_def by (rule LeastI_ex [OF ticks_before_unbounded [OF assms(1)]])
  then obtain m where m: "looks_for f k = Suc m"
    using assms(2) by (cases "looks_for f k") (simp_all add: ticks_before_def)
  have "ticks_before f (Suc m) = count_list (f 0) Clock_tick + ticks_before (\<lambda>n. f (Suc n)) m"
    by (simp only: ticks_before_def sum.lessThan_Suc_shift)
  then have "k' \<le> ticks_before (\<lambda>n. f (Suc n)) m" using le m assms(3) by simp
  then have "looks_for (\<lambda>n. f (Suc n)) k' \<le> m" unfolding looks_for_def by (rule Least_le)
  then show ?thesis using m by simp
qed

section \<open>The contract\<close>

text \<open>
  Callbacks keep going (none stops its own alarm), do to the UART no more than an interrupt
  does, and leave its timeout and the schedule alone.
\<close>

locale steady_clock = host_clock bus base fifo sent room call tmo sp rate
  for bus :: "'h bus" and base fifo sent room
    and call :: "addr \<Rightarrow> addr \<Rightarrow> ('h, 'a) clocked_scheme \<Rightarrow> alt_u32 \<times> ('h, 'a) clocked_scheme"
    and tmo sp rate +
  fixes alarm :: addr
  assumes keeps_on: "on_clock base rate s \<Longrightarrow> fst (call c d s) \<noteq> 0"
    and call_step: "uart_wf s \<Longrightarrow> isr_step s (snd (call c d s))"
    and call_timeout: "ju_timeout (snd (call c d s)) = ju_timeout s"
    and call_schedule: "schedule (snd (call c d s)) = schedule s"

lemma uart_clock_fields [simp]:
  "uart_wf (s\<lparr>alarm_at := f\<rparr>) = uart_wf s" "rx_queue (s\<lparr>alarm_at := f\<rparr>) = rx_queue s"
  "tx_queue (s\<lparr>alarm_at := f\<rparr>) = tx_queue s" "fd_view (s\<lparr>alarm_at := f\<rparr>) = fd_view s"
  "uart_wf (s\<lparr>nticks := n\<rparr>) = uart_wf s" "rx_queue (s\<lparr>nticks := n\<rparr>) = rx_queue s"
  "tx_queue (s\<lparr>nticks := n\<rparr>) = tx_queue s" "fd_view (s\<lparr>nticks := n\<rparr>) = fd_view s"
  for s :: "('h, 'a) uart_scheme"
  by (simp_all add: uart_wf_def rx_queue_def tx_queue_def fd_view_def)

lemma isr_step_clock:
  "isr_step s (t\<lparr>alarm_at := f\<rparr>) = isr_step s t" "isr_step s (t\<lparr>nticks := n\<rparr>) = isr_step s t"
  by (simp_all add: isr_step_def)

lemma schedule_fields [simp]:
  "on_clock base rate (s\<lparr>schedule := f\<rparr>) = on_clock base rate s"
  "isr_step s (t\<lparr>schedule := f\<rparr>) = isr_step s t" "isr_step (s\<lparr>schedule := f\<rparr>) t = isr_step s t"
  "uart_wf (s\<lparr>schedule := f\<rparr>) = uart_wf s"
  for s t :: "('h, 'a) clocked_scheme"
  by (simp_all add: on_clock_def isr_step_def uart_wf_def rx_queue_def tx_queue_def fd_view_def)

lemma schedule_more: "uart.more t = uart.more s \<Longrightarrow> schedule t = schedule s" for s t :: "('h, 'a) clocked_scheme"
  by (cases t, cases s) simp

context steady_clock
begin

definition harmless :: "('h, 'a) clocked_scheme \<Rightarrow> ('h, 'a) clocked_scheme \<Rightarrow> bool" where
  "harmless s t \<longleftrightarrow> (uart_wf s \<longrightarrow> isr_step s t) \<and> on_clock base rate t
     \<and> ju_timeout t = ju_timeout s \<and> schedule t = schedule s"

lemma harmless_trans: "harmless s t \<Longrightarrow> harmless t u \<Longrightarrow> harmless s u"
  by (auto simp: harmless_def intro: isr_step_trans dest: isr_step_wf)

lemma cleared_harmless: "on_clock base rate s \<Longrightarrow> harmless s (cleared s x)"
  by (auto simp: harmless_def cleared_def isr_step_clock isr_step_refl on_clock_def)

lemma tick_alarm_harmless:
  assumes "on_clock base rate s"
  shows "harmless s (alt_tick_alarm call x s)"
proof -
  let ?t = "cleared s x" and ?cb = "callback (alarm_at s x)" and ?ctx = "cb_context (alarm_at s x)"
  have c: "harmless s ?t" by (rule cleared_harmless [OF assms])
  then have t: "on_clock base rate ?t" by (simp add: harmless_def)
  obtain r u where u: "call ?cb ?ctx ?t = (r, u)" by fastforce
  have r: "r \<noteq> 0" using keeps_on [OF t, of ?cb ?ctx] u by simp
  have h: "harmless ?t u"
    using call_step [of ?t ?cb ?ctx] call_timeout [of ?cb ?ctx ?t] call_schedule [of ?cb ?ctx ?t] host.inv_call [OF t, of ?cb ?ctx] u
    by (simp add: harmless_def)
  have "harmless ?t (u\<lparr>alarm_at := f\<rparr>)" for f
    using h by (auto simp: harmless_def isr_step_clock on_clock_def)
  then show ?thesis
    using c r u harmless_trans [OF c]
    by (cases "alarm_due s x") (auto simp: tick_alarm_not_due tick_alarm_due Let_def)
qed

lemma tick_loop_harmless:
  assumes "alt_tick_loop call a s = Some s'" "on_clock base rate s"
  shows "harmless s s'"
proof -
  have "call = call \<longrightarrow> on_clock base rate s \<longrightarrow> harmless s s'"
  proof (rule alt_tick_loop.raw_induct [where P = "\<lambda>c a s s'. c = call \<longrightarrow>
      on_clock base rate s \<longrightarrow> harmless s s'", OF _ assms(1)], intro impI, goal_cases)
    case (1 loop c a s s')
    show ?case
    proof (cases "a = alt_alarm_list s")
      case True
      then show ?thesis using 1 by (simp add: harmless_def isr_step_refl)
    next
      case False
      have st: "harmless s (alt_tick_alarm call a s)" by (rule tick_alarm_harmless [OF 1(4)])
      then have "on_clock base rate (alt_tick_alarm call a s)" by (simp add: harmless_def)
      then show ?thesis using 1 False harmless_trans [OF st] by auto
    qed
  qed
  then show ?thesis using assms(2) by simp
qed

lemma tick_harmless:
  assumes "alt_tick call s = Some s'" "on_clock base rate s"
  shows "harmless s s'"
proof -
  have n: "harmless s (s\<lparr>nticks := nticks s + 1\<rparr>)"
    using assms by (simp add: harmless_def isr_step_clock isr_step_refl on_clock_def)
  show ?thesis
    using harmless_trans [OF n tick_loop_harmless] assms by (auto simp: alt_tick_def on_clock_def)
qed

lemma intr_harmless:
  assumes "on_clock base rate s"
  shows "harmless s (uart_intr bus base s)"
  using irq_view_clock(6) [OF uart_intr_view [of bus base s]] uart_intr_waits(2) [of bus base s]
    schedule_more [OF irq_view_more [OF uart_intr_view [of bus base s]]] assms
  by (simp add: harmless_def isr.intr_step)

abbreviation take_one :: "interrupt \<Rightarrow> ('h, 'a) clocked_scheme \<Rightarrow> ('h, 'a) clocked_scheme" where
  "take_one \<equiv> take_interrupt bus base rate call"

lemma take_harmless: "on_clock base rate s \<Longrightarrow> harmless s (take_one i s)"
  using intr_harmless [of s] tick_harmless [of s]
  by (auto simp: take_interrupt_def harmless_def isr_step_refl split: interrupt.split option.split)

lemma takes_harmless: "on_clock base rate s \<Longrightarrow> harmless s (fold take_one es s)"
proof (induction es arbitrary: s)
  case Nil
  then show ?case by (simp add: harmless_def isr_step_refl)
next
  case (Cons i es)
  have "harmless s (take_one i s)" by (rule take_harmless [OF Cons.prems])
  moreover from this have "harmless (take_one i s) (fold take_one es (take_one i s))"
    by (intro Cons.IH) (simp add: harmless_def)
  ultimately show ?case using harmless_trans by auto
qed

lemma take_step: "uart_wf s \<Longrightarrow> isr_step s (take_one i s)"
  using take_harmless [of s i] isr.intr_step [of s]
  by (cases "on_clock base rate s")
    (auto simp: harmless_def take_interrupt_def isr_step_refl split: interrupt.split)

lemma takes_step: "uart_wf s \<Longrightarrow> isr_step s (fold take_one es s)"
proof (induction es arbitrary: s)
  case (Cons i es)
  have st: "isr_step s (take_one i s)" by (rule take_step [OF Cons.prems])
  then show ?case using isr_step_trans [OF st Cons.IH [OF isr_step_wf [OF st]]] by simp
qed (simp add: isr_step_refl)

section \<open>The waits end\<close>

definition clock_live :: "('h, 'a) clocked_scheme \<Rightarrow> bool" where
  "clock_live s \<longleftrightarrow> (\<exists>r. host.watches s alarm r) \<and> 0 < ju_timeout s \<and> ju_timeout s \<le> 2147483647 - 2
     \<and> ticks_keep_coming (schedule s)"

text \<open>The ticks until the host is given up, and the looks until then.\<close>

definition ticks_to_timeout :: "('h, 'a) clocked_scheme \<Rightarrow> nat" where
  "ticks_to_timeout s = (unat (ju_timeout s) - unat (ju_host_inactive s)) * unat rate
     + unat (time (alarm_at s alarm) - nticks s)"

definition looks_to_timeout :: "('h, 'a) clocked_scheme \<Rightarrow> nat" where
  "looks_to_timeout s = looks_for (schedule s) (ticks_to_timeout s)"

lemma watches_left: "host.watches s x r \<Longrightarrow> unat (time (alarm_at s x) - nticks s) = r \<and> 0 < r"
  by (auto simp: host.watches_def armed_def unat_of_nat)

lemma view_same:
  assumes "irq_view t = irq_view s"
  shows "host.watches t alarm r = host.watches s alarm r" "ticks_to_timeout t = ticks_to_timeout s"
    "clock_live t = clock_live s"
proof -
  note v = irq_view_clock [OF assms]
  have t: "ju_timeout t = ju_timeout s" using assms by (simp add: irq_view_def)
  show w: "host.watches t alarm r = host.watches s alarm r" for r
    by (simp add: host.watches_def armed_def sole_context_def v)
  show "ticks_to_timeout t = ticks_to_timeout s" by (simp add: ticks_to_timeout_def v t)
  show "clock_live t = clock_live s"
    by (simp add: clock_live_def w t schedule_more [OF irq_view_more [OF assms]])
qed

lemma tick_watches:
  assumes "host.watches s alarm r"
  shows "host.watches (take_one Clock_tick s) alarm (if r = 1 then unat rate else r - 1)"
    and "ju_host_inactive (take_one Clock_tick s) =
      (if r = 1 then count_second (ju_host_inactive s) else ju_host_inactive s)"
  using host.watched_tick [OF assms] assms by (auto simp: take_interrupt_def host.watches_def)

lemma count_second_le: "n \<le> count_second n"
  by (auto simp: count_second_def word_le_nat_alt word_less_nat_alt unat_word_ariths)

lemma tick_progress:
  assumes "host.watches s alarm r" "ju_timeout s \<le> 2147483647 - 2" "ju_host_inactive s < ju_timeout s"
  shows "ticks_to_timeout (take_one Clock_tick s) < ticks_to_timeout s"
proof -
  let ?u = "take_one Clock_tick s"
  have t: "ju_timeout ?u = ju_timeout s"
    using take_harmless [of s Clock_tick] assms(1) by (simp add: harmless_def host.watches_def)
  note left = watches_left [OF assms(1)] watches_left [OF tick_watches(1) [OF assms(1)]]
  show ?thesis
  proof (cases "r = 1")
    case True
    have n: "ju_host_inactive s < 2147483647 - 2"
      "unat (ju_timeout s) - unat (ju_host_inactive s + 1) < unat (ju_timeout s) - unat (ju_host_inactive s)"
      using seconds_left_less [OF assms(3,2)] by auto
    then have "(unat (ju_timeout s) - unat (ju_host_inactive s + 1)) * unat rate + unat rate
        \<le> (unat (ju_timeout s) - unat (ju_host_inactive s)) * unat rate"
      by (metis Suc_leI add.commute mult_Suc mult_le_mono1)
    moreover have "ju_host_inactive ?u = ju_host_inactive s + 1"
      using True tick_watches(2) [OF assms(1)] n(1) by (simp add: count_second_def)
    ultimately show ?thesis using True left t by (simp add: ticks_to_timeout_def)
  next
    case False
    then show ?thesis using tick_watches(2) [OF assms(1)] left t by (simp add: ticks_to_timeout_def)
  qed
qed

text \<open>So any sequence of interrupts takes away its ticks, unless the host is given up by its end.\<close>

lemma takes_progress:
  assumes "host.watches s alarm r" "ju_timeout s \<le> 2147483647 - 2"
  shows "(\<exists>r. host.watches (fold take_one es s) alarm r)
    \<and> ju_host_inactive s \<le> ju_host_inactive (fold take_one es s)
    \<and> (ju_host_inactive (fold take_one es s) < ju_timeout s \<longrightarrow>
        ticks_to_timeout (fold take_one es s) + count_list es Clock_tick \<le> ticks_to_timeout s)"
  using assms
proof (induction es arbitrary: s r)
  case (Cons i es)
  let ?u = "take_one i s" and ?t = "fold take_one es (take_one i s)"
  have "ju_timeout ?u = ju_timeout s"
    using take_harmless [of s i] Cons.prems(1) by (simp add: harmless_def host.watches_def)
  moreover have u: "\<exists>r. host.watches ?u alarm r" "ju_host_inactive s \<le> ju_host_inactive ?u"
    "ju_host_inactive s < ju_timeout s \<longrightarrow> ticks_to_timeout ?u + count_list [i] Clock_tick \<le> ticks_to_timeout s"
  proof -
    have "(\<exists>r. host.watches ?u alarm r) \<and> ju_host_inactive s \<le> ju_host_inactive ?u
      \<and> (ju_host_inactive s < ju_timeout s \<longrightarrow> ticks_to_timeout ?u + count_list [i] Clock_tick \<le> ticks_to_timeout s)"
    proof (cases i)
      case Uart_interrupt
      note v = uart_intr_view [of bus base s]
      show ?thesis
        using Cons.prems(1) view_same(1,2) [OF v] irq_view_clock(5) [OF v]
        by (auto simp: Uart_interrupt take_interrupt_def)
    next
      case Clock_tick
      then show ?thesis
        using tick_watches [OF Cons.prems(1)] tick_progress [OF Cons.prems] count_second_le by auto
    qed
    then show "\<exists>r. host.watches ?u alarm r" "ju_host_inactive s \<le> ju_host_inactive ?u"
      "ju_host_inactive s < ju_timeout s \<longrightarrow> ticks_to_timeout ?u + count_list [i] Clock_tick \<le> ticks_to_timeout s"
      by blast+
  qed
  ultimately have ih: "\<exists>r. host.watches ?t alarm r" "ju_host_inactive ?u \<le> ju_host_inactive ?t"
    "ju_host_inactive ?t < ju_timeout s \<longrightarrow> ticks_to_timeout ?t + count_list es Clock_tick \<le> ticks_to_timeout ?u"
    using Cons.IH Cons.prems(2) by metis+
  have "ju_host_inactive s < ju_timeout s" if "ju_host_inactive ?t < ju_timeout s"
    using that u(2) ih(2) by simp
  then show ?case using u ih by (auto split: if_splits)
qed auto

lemma look_live:
  assumes "clock_live s"
  shows "clock_live (until_next_look bus base rate call s)"
    and "ju_host_inactive s \<le> ju_host_inactive (until_next_look bus base rate call s)"
    and "ju_timeout (until_next_look bus base rate call s) = ju_timeout s"
    and "ju_host_inactive (until_next_look bus base rate call s) < ju_timeout s \<Longrightarrow>
      looks_to_timeout (until_next_look bus base rate call s) < looks_to_timeout s"
proof -
  let ?s = "s\<lparr>schedule := (\<lambda>n. schedule s (Suc n))\<rparr>"
  let ?u = "until_next_look bus base rate call s"
  obtain r where w: "host.watches s alarm r" using assms by (auto simp: clock_live_def)
  have eq: "ticks_to_timeout ?s = ticks_to_timeout s" by (simp add: ticks_to_timeout_def)
  have w': "host.watches ?s alarm r"
    by (rule host.watches_cong [OF w]) (use w in \<open>simp_all add: host.watches_def\<close>)
  have lim: "ju_timeout ?s \<le> 2147483647 - 2" using assms by (simp add: clock_live_def)
  have h: "harmless ?s ?u"
    unfolding until_next_look_def using takes_harmless w' by (simp add: host.watches_def)
  note p = takes_progress [OF w' lim, of "schedule s 0", folded until_next_look_def]
  show t: "ju_timeout ?u = ju_timeout s" using h by (simp add: harmless_def)
  show "ju_host_inactive s \<le> ju_host_inactive ?u" using p by simp
  show "clock_live ?u"
    using p h assms ticks_keep_coming_later [of "schedule s"] by (auto simp: clock_live_def harmless_def)
  show "looks_to_timeout ?u < looks_to_timeout s" if "ju_host_inactive ?u < ju_timeout s"
    using looks_for_less [of "schedule s" "ticks_to_timeout s" "ticks_to_timeout ?u"] that p h assms
      watches_left [OF w]
    by (simp add: looks_to_timeout_def harmless_def clock_live_def eq) (simp add: ticks_to_timeout_def)
qed

end

sublocale steady_clock \<subseteq> tick:
  uart_write_waits "until_next_look bus base rate call" clock_live looks_to_timeout bus
proof unfold_locales
  fix s b i msk
  let ?u = "until_next_look bus base rate call s"
  show "isr_step s ?u" if "uart_wf s"
    using takes_step [of "s\<lparr>schedule := (\<lambda>n. schedule s (Suc n))\<rparr>"] that by (simp add: until_next_look_def)
  show "clock_live (s\<lparr>tx_buf := b\<rparr>) = clock_live s" "clock_live (s\<lparr>tx_in := i\<rparr>) = clock_live s"
    by (rule view_same, simp add: irq_view_def)+
  assume live: "clock_live s"
  note l = look_live [OF live]
  show "clock_live ?u" by (rule l)
  show "clock_live (uart_enable_irq bus msk s)"
    using live view_same(3) [of "uart_enable_irq bus msk s" s]
    by (simp add: irq_view_def uart_enable_irq_def irq_defs uart_iowr_def fd_view_def)
  show "ju_timeout ?u \<le> ju_host_inactive ?u \<or> length (rx_queue s) < length (rx_queue ?u)
      \<or> length (tx_queue ?u) < length (tx_queue s) \<or> looks_to_timeout ?u < looks_to_timeout s"
    using l(3,4) by (auto simp: not_le)
  assume "ju_timeout s \<le> ju_host_inactive s"
  then have "0 < ju_host_inactive ?u" using l(2) live unfolding clock_live_def by (meson order.strict_trans2)
  then show "ju_host_inactive ?u \<noteq> 0 \<or> length (tx_queue ?u) < length (tx_queue s)" by auto
qed

section \<open>Properties\<close>

context steady_clock
begin

lemma init_live:
  assumes "dllist (llists s) (alt_alarm_list s) xs"
    and "alarm = ju_alarm s" and "alarm \<noteq> 0" and "alarm \<notin> set (alt_alarm_list s # xs)"
    and "\<forall>y\<in>set xs. cb_context (alarm_at s y) \<noteq> sp" and "ju_base s = base" and "tick_rate s = rate"
    and "0 < ju_timeout s" and "ju_timeout s \<le> 2147483647 - 2" and "ticks_keep_coming (schedule s)"
    and "altera_avalon_jtag_uart_init bus isr tmo sp ic irq s = Inr s1"
  shows "clock_live s1"
proof -
  have "on_clock base rate s" using assms(6,7) by (simp add: on_clock_def)
  note w = init_watches [OF assms(1) assms(3,4) [unfolded assms(2)] assms(5) this assms(11)]
  have "schedule s1 = schedule s" using w(2) schedule_more by blast
  then show ?thesis unfolding clock_live_def using w assms(2,8-10) by metis
qed

lemma read_on_clock:
  assumes "uart_wf s" "clock_live s" "0 < space"
  shows "\<exists>r. altera_avalon_jtag_uart_read bus (until_next_look bus base rate call) space flags s = Some r"
proof -
  obtain got s1 where "uart_read_loop (until_next_look bus base rate call) flags (nat space) s = Some (got, s1)"
    using tick.read_loop_waits [OF assms(1,2), of "nat space" flags] assms(3) by auto
  then show ?thesis by (simp add: altera_avalon_jtag_uart_read_def)
qed

lemma write_on_clock:
  assumes "uart_wf s" "clock_live s"
  shows "\<exists>r. altera_avalon_jtag_uart_write bus (until_next_look bus base rate call) ptr count flags s = Some r"
  using tick.write_loop_waits [OF assms, of flags "take (nat count) ptr" 0]
  by (auto simp: altera_avalon_jtag_uart_write_def Let_def)

lemma close_on_clock:
  assumes "uart_wf s" "clock_live s"
  shows "\<exists>r. altera_avalon_jtag_uart_close (until_next_look bus base rate call) flags s = Some r"
  by (rule tick.close_returns [OF assms])

end

text \<open>Property C19: a driver that has been initialised, on a running system clock and with the UART's
  and the clock's interrupts only, never waits for ever: a read for at least one byte, a write
  and a close return, whatever the flags, although the host is away. It does not matter how many
  interrupts are taken between two looks of the program at the shared variables, nor in which order,
  as long as the clock keeps ticking. There may be other alarms, as long as they keep to the
  contract \<open>steady_clock\<close>, which is that of property \<open>uart_counts_seconds_without_host\<close> and more: they are
  periodic (no callback returns 0 to stop its alarm), and their callbacks leave the driver's
  timeout alone and do to its buffers and to the table of descriptors no more than its interrupt
  routine may.\<close>

theorem uart_calls_return_on_clock:
  assumes "steady_clock bus base fifo sent room call tmo sp rate"
    and "dllist (llists s) (alt_alarm_list s) xs"
    and "ju_alarm s \<noteq> 0" and "ju_alarm s \<notin> set (alt_alarm_list s # xs)"
    and "\<forall>y\<in>set xs. cb_context (alarm_at s y) \<noteq> sp"
    and "ju_base s = base" and "tick_rate s = rate" and "uart_wf s"
    and "0 < ju_timeout s" and "ju_timeout s \<le> 2147483647 - 2" and "ticks_keep_coming (schedule s)"
    and "altera_avalon_jtag_uart_init bus isr tmo sp ic irq s = Inr s1"
    and "0 < space"
  shows "(\<exists>r. altera_avalon_jtag_uart_read bus (until_next_look bus base rate call) space flags s1 = Some r)
    \<and> (\<exists>r. altera_avalon_jtag_uart_write bus (until_next_look bus base rate call) ptr count flags s1 = Some r)
    \<and> (\<exists>r. altera_avalon_jtag_uart_close (until_next_look bus base rate call) flags s1 = Some r)"
proof -
  have hc: "host_clock bus base fifo sent room call tmo sp rate"
    using assms(1) by (simp add: steady_clock_def)
  have "on_clock base rate s" using assms(6,7) by (simp add: on_clock_def)
  from host_clock.init_watches(2) [OF hc assms(2-5) this assms(12)]
  have wf: "uart_wf s1" using assms(8) by simp
  have live: "steady_clock.clock_live base tmo sp rate (ju_alarm s) s1"
    by (rule steady_clock.init_live [OF assms(1,2) refl assms(3-7,9-12)])
  show ?thesis
    using steady_clock.read_on_clock [OF assms(1) wf live assms(13)]
      steady_clock.write_on_clock [OF assms(1) wf live] steady_clock.close_on_clock [OF assms(1) wf live]
    by blast
qed

interpretation sim_steady: steady_clock sim_bus base sim_fifo sim_sent "\<lambda>_. 65536" sim_call 100 200 1000 900 for base
proof unfold_locales
  show "fst (sim_call c d s) \<noteq> 0" if "on_clock base 1000 s" for s c d
    using that by (simp add: sim_call_def timeout_result timeout_clock on_clock_def)
  show "isr_step s (snd (sim_call c d s))" if "uart_wf s" for s c d
    using that timeout_step [OF that, of sim_bus] by (simp add: sim_call_def isr_step_refl)
  show "ju_timeout (snd (sim_call c d s)) = ju_timeout s" for s c d
    by (auto simp: sim_call_def timeout_clock)
  show "schedule (snd (sim_call c d s)) = schedule s" for s :: "(sim_uart, 'a) clocked_scheme" and c d
    using schedule_more [OF timeout_clock(8) [of sim_bus s]] by (simp add: sim_call_def)
qed

text \<open>The simulated device, with nothing between most looks, and before every third an interrupt and a tick.\<close>

definition sparse_schedule :: "nat \<Rightarrow> interrupt list" where
  "sparse_schedule n = (if n mod 3 = 0 then [Uart_interrupt, Clock_tick] else [])"

lemma sparse_ticks: "ticks_keep_coming sparse_schedule"
proof -
  have "Clock_tick \<in> set (sparse_schedule (3 * n))" "n \<le> 3 * n" for n
    by (simp_all add: sparse_schedule_def)
  then show ?thesis unfolding ticks_keep_coming_def by blast
qed

definition clocked_uart :: "sim_uart clocked" where
  "clocked_uart = uart.extend fresh_uart (clocked.fields sparse_schedule)"

lemma clocked_uart_simps:
  "alt_alarm_list clocked_uart = 16" "ju_alarm clocked_uart = 900" "ju_base clocked_uart = 4096"
  "tick_rate clocked_uart = 1000" "ju_timeout clocked_uart = 10" "schedule clocked_uart = sparse_schedule"
  "llists clocked_uart = llists fresh_uart"
  using fresh_uart_simps by (simp_all add: clocked_uart_def uart.extend_def clocked.fields_def)

lemma clocked_uart_wf: "uart_wf clocked_uart"
  using fresh_uart_simps(6) by (simp add: uart_wf_def clocked_uart_def uart.extend_def clocked.fields_def)

theorem uart_calls_return_on_clock_witness:
  "\<exists>s1 r. altera_avalon_jtag_uart_init sim_bus 300 100 200 0 5 clocked_uart = Inr s1
     \<and> altera_avalon_jtag_uart_read sim_bus (until_next_look sim_bus 4096 1000 sim_call) 8 0 s1 = Some r"
proof -
  note fresh = clocked_uart_simps
  obtain s1 where init: "altera_avalon_jtag_uart_init sim_bus 300 100 200 0 5 clocked_uart = Inr s1"
    by (metis init_returns)
  have pre: "dllist (llists clocked_uart) (alt_alarm_list clocked_uart) []"
    "ju_alarm clocked_uart \<noteq> 0" "ju_alarm clocked_uart \<notin> set (alt_alarm_list clocked_uart # [])"
    "\<forall>y\<in>set []. cb_context (alarm_at clocked_uart y) \<noteq> 200" "0 < ju_timeout clocked_uart"
    "ju_timeout clocked_uart \<le> 2147483647 - 2" "ticks_keep_coming (schedule clocked_uart)"
    using fresh_uart_list sparse_ticks by (simp_all add: fresh fresh_uart_simps)
  have "\<exists>r. altera_avalon_jtag_uart_read sim_bus (until_next_look sim_bus 4096 1000 sim_call) 8 0 s1 = Some r"
    using uart_calls_return_on_clock [OF sim_steady.steady_clock_axioms
        pre(1-4) fresh(3,4) clocked_uart_wf pre(5-7) init, of 8 0] by simp
  with init show ?thesis by blast
qed

end
