(* ===== verification/Spi.thy ===== *)
theory Spi
  imports Hal_Prelude
begin

text \<open>
  The polled SPI master of \<^verbatim>\<open>drivers/src/altera_avalon_spi.c\<close>: one transaction, in which the
  bytes of a command go out and the bytes of the answer come in. The core and the chip behind it
  are hardware; what the driver relies on is the locale \<open>spi_master\<close>.
\<close>

section \<open>Registers and flags\<close>

definition SPI_RXDATA :: nat where "SPI_RXDATA = 0"
definition SPI_TXDATA :: nat where "SPI_TXDATA = 1"
definition SPI_STATUS :: nat where "SPI_STATUS = 2"
definition SPI_CONTROL :: nat where "SPI_CONTROL = 3"
definition SPI_SLAVE_SEL :: nat where "SPI_SLAVE_SEL = 5"

definition TMT_MSK :: alt_u32 where "TMT_MSK = 0x20"
definition TRDY_MSK :: alt_u32 where "TRDY_MSK = 0x40"
definition RRDY_MSK :: alt_u32 where "RRDY_MSK = 0x80"
definition SSO_MSK :: alt_u32 where "SSO_MSK = 0x400"

definition SPI_COMMAND_MERGE :: alt_u32 where "SPI_COMMAND_MERGE = 1"
definition SPI_COMMAND_TOGGLE_SS_N :: alt_u32 where "SPI_COMMAND_TOGGLE_SS_N = 2"

section \<open>The transaction\<close>

text \<open>
  The local variables of \<^verbatim>\<open>alt_avalon_spi_command()\<close>: the bytes between \<^verbatim>\<open>write_data\<close> and
  \<^verbatim>\<open>write_end\<close>, the two counters, and the bytes stored so far from the start of the read buffer
  on. The list \<open>read_data\<close> may be longer than the buffer: that it is not is a theorem.
\<close>

record 'h spi =
  write_data :: "alt_u8 list"
  write_zeros :: nat
  read_ignore :: nat
  read_data :: "alt_u8 list"
  credits :: int
  spi_hw :: 'h

text \<open>The inner loop waits until a byte can go out, and may, or one has come in.\<close>

partial_function (option) spi_poll :: "'h bus \<Rightarrow> addr \<Rightarrow> int \<Rightarrow> 'h \<Rightarrow> (alt_u32 \<times> 'h) option" where
  "spi_poll bus base cr h =
     (let status = fst (iord bus base SPI_STATUS h); h1 = snd (iord bus base SPI_STATUS h) in
      if (status AND TRDY_MSK = 0 \<or> cr = 0) \<and> status AND RRDY_MSK = 0
      then spi_poll bus base cr h1
      else Some (status, h1))"

definition spi_send :: "'h bus \<Rightarrow> addr \<Rightarrow> alt_u32 \<Rightarrow> 'h spi \<Rightarrow> 'h spi" where
  "spi_send bus base status x =
     (if status AND TRDY_MSK \<noteq> 0 \<and> credits x > 0 then
        (case write_data x of
           b # bs \<Rightarrow> x\<lparr>credits := credits x - 1, write_data := bs,
                      spi_hw := iowr bus base SPI_TXDATA (ucast b) (spi_hw x)\<rparr>
         | [] \<Rightarrow>
             if write_zeros x > 0 then
               x\<lparr>credits := credits x - 1, write_zeros := write_zeros x - 1,
                 spi_hw := iowr bus base SPI_TXDATA 0 (spi_hw x)\<rparr>
             else x\<lparr>credits := - 1024\<rparr>)
      else x)"

definition spi_receive :: "'h bus \<Rightarrow> addr \<Rightarrow> 'h spi \<Rightarrow> 'h spi" where
  "spi_receive bus base x =
     (let (rxdata, h1) = iord bus base SPI_RXDATA (spi_hw x);
          x1 = (if read_ignore x > 0 then x\<lparr>spi_hw := h1, read_ignore := read_ignore x - 1\<rparr>
                else x\<lparr>spi_hw := h1, read_data := read_data x @ [ucast rxdata]\<rparr>)
      in x1\<lparr>credits := credits x1 + 1\<rparr>)"

lemma spi_send_no_credit: "credits x \<le> 0 \<Longrightarrow> spi_send bus base status x = x"
  by (simp add: spi_send_def)

text \<open>The outer loop; \<open>rlen\<close> is the distance of \<^verbatim>\<open>read_end\<close> from the start of the buffer.\<close>

partial_function (option) spi_loop :: "'h bus \<Rightarrow> addr \<Rightarrow> nat \<Rightarrow> 'h spi \<Rightarrow> 'h spi option" where
  "spi_loop bus base rlen st =
     Option.bind (spi_poll bus base (credits st) (spi_hw st)) (\<lambda>r.
       let s1 = spi_send bus base (fst r) (st\<lparr>spi_hw := snd r\<rparr>) in
       if fst r AND RRDY_MSK \<noteq> 0 then
         let s2 = spi_receive bus base s1 in
         if read_ignore s2 = 0 \<and> length (read_data s2) = rlen then Some s2
         else spi_loop bus base rlen s2
       else spi_loop bus base rlen s1)"

text \<open>Waiting until the last bit has left.\<close>

partial_function (option) spi_drain :: "'h bus \<Rightarrow> addr \<Rightarrow> 'h \<Rightarrow> 'h option" where
  "spi_drain bus base h =
     (let status = fst (iord bus base SPI_STATUS h); h1 = snd (iord bus base SPI_STATUS h) in
      if status AND TMT_MSK = 0 then spi_drain bus base h1 else Some h1)"

text \<open>
  The whole transaction. The length and the address of the bytes to write are the list \<open>wdata\<close>;
  the result is the returned length, as a signed integer, and the contents of the read buffer.
\<close>

definition alt_avalon_spi_command ::
  "'h bus \<Rightarrow> addr \<Rightarrow> nat \<Rightarrow> alt_u8 list \<Rightarrow> alt_u32 \<Rightarrow> alt_u32 \<Rightarrow> 'h \<Rightarrow> (int \<times> alt_u8 list \<times> 'h) option" where
  "alt_avalon_spi_command bus base slave wdata read_length flags h =
     (let h1 = iowr bus base SPI_SLAVE_SEL (push_bit slave 1) h;
          h2 = (if flags AND SPI_COMMAND_TOGGLE_SS_N = 0 then iowr bus base SPI_CONTROL SSO_MSK h1 else h1);
          h3 = snd (iord bus base SPI_RXDATA h2)
      in do {
        x \<leftarrow> spi_loop bus base (unat read_length)
               \<lparr>write_data = wdata, write_zeros = unat read_length, read_ignore = length wdata,
                read_data = [], credits = 1, spi_hw = h3\<rparr>;
        h4 \<leftarrow> spi_drain bus base (spi_hw x);
        Some (sint read_length, read_data x,
              if flags AND SPI_COMMAND_MERGE = 0 then iowr bus base SPI_CONTROL 0 h4 else h4)
      })"

section \<open>What a transaction means to the chip\<close>

text \<open>
  A chip on the bus is clocked a byte at a time: it takes one and gives one. \<open>exchange\<close> is what a
  sequence of bytes does to it.
\<close>

fun exchange :: "(alt_u8 \<Rightarrow> 'c \<Rightarrow> alt_u8 \<times> 'c) \<Rightarrow> alt_u8 list \<Rightarrow> 'c \<Rightarrow> alt_u8 list \<times> 'c" where
  "exchange shift [] c = ([], c)"
| "exchange shift (b # bs) c =
     (let (r, c1) = shift b c; (rs, c2) = exchange shift bs c1 in (r # rs, c2))"

lemma exchange_length [simp]: "length (fst (exchange shift bs c)) = length bs"
  by (induction bs arbitrary: c) (simp_all add: split_beta)

lemma exchange_append:
  "exchange shift (as @ bs) c =
    (fst (exchange shift as c) @ fst (exchange shift bs (snd (exchange shift as c))),
     snd (exchange shift bs (snd (exchange shift as c))))"
  by (induction as arbitrary: c) (simp_all add: split_beta)

text \<open>
  The core: \<open>inflight\<close> is the byte the chip has given for the last one sent, as long as it has not
  been read, \<open>ready\<close> and \<open>arrived\<close> say that a status word has announced that a byte may be written
  or is there, and \<open>delay\<close> bounds how often the status can be read before it announces something.
\<close>

locale spi_master =
  fixes bus :: "'h bus" and base :: addr and slave :: nat
    and chip :: "'h \<Rightarrow> 'c" and select :: "'c \<Rightarrow> 'c" and deselect :: "'c \<Rightarrow> 'c"
    and shift :: "alt_u8 \<Rightarrow> 'c \<Rightarrow> alt_u8 \<times> 'c"
    and inflight :: "'h \<Rightarrow> alt_u8 option" and ready :: "'h \<Rightarrow> bool" and arrived :: "'h \<Rightarrow> bool"
    and delay :: "'h \<Rightarrow> nat"
  assumes start: "inflight h = None \<Longrightarrow>
      h' = iowr bus base SPI_CONTROL SSO_MSK (iowr bus base SPI_SLAVE_SEL (push_bit slave 1) h) \<Longrightarrow>
      chip h' = select (chip h) \<and> inflight h' = None"
    and finish: "inflight h = None \<Longrightarrow> h' = iowr bus base SPI_CONTROL 0 h \<Longrightarrow>
      chip h' = deselect (chip h) \<and> inflight h' = None"
    and stale: "inflight h = None \<Longrightarrow> iord bus base SPI_RXDATA h = (v, h') \<Longrightarrow>
      chip h' = chip h \<and> inflight h' = None"
    and status: "iord bus base SPI_STATUS h = (v, h') \<Longrightarrow>
      chip h' = chip h \<and> inflight h' = inflight h
      \<and> (v AND TRDY_MSK \<noteq> 0 \<longrightarrow> ready h')
      \<and> (v AND RRDY_MSK \<noteq> 0 \<longrightarrow> inflight h \<noteq> None \<and> arrived h')
      \<and> (inflight h = None \<and> (v AND TRDY_MSK = 0 \<or> v AND TMT_MSK = 0)
          \<or> inflight h \<noteq> None \<and> v AND RRDY_MSK = 0 \<longrightarrow> delay h' < delay h)"
    and write_byte: "inflight h = None \<Longrightarrow> ready h \<Longrightarrow> shift b (chip h) = (r, c) \<Longrightarrow>
      h' = iowr bus base SPI_TXDATA (ucast b) h \<Longrightarrow> chip h' = c \<and> inflight h' = Some r"
    and read_byte: "inflight h = Some r \<Longrightarrow> arrived h \<Longrightarrow> iord bus base SPI_RXDATA h = (v, h') \<Longrightarrow>
      ucast v = r \<and> chip h' = chip h \<and> inflight h' = None"
begin

text \<open>Both waits end.\<close>

lemma poll_idle:
  assumes "inflight h = None" "cr \<noteq> 0"
  shows "\<exists>v h'. spi_poll bus base cr h = Some (v, h') \<and> v AND TRDY_MSK \<noteq> 0 \<and> v AND RRDY_MSK = 0
    \<and> ready h' \<and> chip h' = chip h \<and> inflight h' = None"
  using assms(1)
proof (induction "delay h" arbitrary: h rule: less_induct)
  case less
  obtain v h1 where r: "iord bus base SPI_STATUS h = (v, h1)" by fastforce
  note st = status [OF r]
  show ?case
  proof (cases "v AND TRDY_MSK = 0")
    case True
    have d: "delay h1 < delay h" and i: "inflight h1 = None" and c: "chip h1 = chip h"
      and z: "v AND RRDY_MSK = 0"
      using st True less.prems by auto
    show ?thesis
      using less.hyps [OF d i] by (subst spi_poll.simps) (simp add: r True z c)
  next
    case False
    then show ?thesis
      using st less.prems assms(2) by (subst spi_poll.simps) (auto simp: r)
  qed
qed

lemma poll_busy:
  assumes "inflight h = Some b"
  shows "\<exists>v h'. spi_poll bus base 0 h = Some (v, h') \<and> v AND RRDY_MSK \<noteq> 0
    \<and> arrived h' \<and> chip h' = chip h \<and> inflight h' = Some b"
  using assms
proof (induction "delay h" arbitrary: h rule: less_induct)
  case less
  obtain v h1 where r: "iord bus base SPI_STATUS h = (v, h1)" by fastforce
  note st = status [OF r]
  show ?case
  proof (cases "v AND RRDY_MSK = 0")
    case True
    have d: "delay h1 < delay h" and i: "inflight h1 = Some b" and c: "chip h1 = chip h"
      using st True less.prems by auto
    show ?thesis
      using less.hyps [OF d i] by (subst spi_poll.simps) (simp add: r True c)
  next
    case False
    then show ?thesis
      using st less.prems by (subst spi_poll.simps) (auto simp: r)
  qed
qed

lemma drain_returns:
  assumes "inflight h = None"
  shows "\<exists>h'. spi_drain bus base h = Some h' \<and> chip h' = chip h \<and> inflight h' = None"
  using assms
proof (induction "delay h" arbitrary: h rule: less_induct)
  case less
  obtain v h1 where r: "iord bus base SPI_STATUS h = (v, h1)" by fastforce
  note st = status [OF r]
  show ?case
  proof (cases "v AND TMT_MSK = 0")
    case True
    have d: "delay h1 < delay h" and i: "inflight h1 = None" and c: "chip h1 = chip h"
      using st True less.prems by auto
    show ?thesis
      using less.hyps [OF d i] by (subst spi_drain.simps) (simp add: r True c)
  next
    case False
    then show ?thesis
      using st less.prems by (subst spi_drain.simps) (auto simp: r)
  qed
qed

text \<open>The bytes still to be clocked out.\<close>

definition outgoing :: "'h spi \<Rightarrow> alt_u8 list" where
  "outgoing x = write_data x @ replicate (write_zeros x) 0"

text \<open>One byte out and its answer in: two rounds of the loop.\<close>

lemma loop_round:
  assumes "inflight (spi_hw x) = None" "credits x = 1" "outgoing x = b # bs"
  shows "\<exists>x'. spi_loop bus base rlen x =
      (if read_ignore x' = 0 \<and> length (read_data x') = rlen then Some x' else spi_loop bus base rlen x')
    \<and> outgoing x' = bs \<and> credits x' = 1 \<and> inflight (spi_hw x') = None
    \<and> chip (spi_hw x') = snd (shift b (chip (spi_hw x)))
    \<and> read_ignore x' = read_ignore x - 1
    \<and> read_data x' = read_data x @ (if read_ignore x > 0 then [] else [fst (shift b (chip (spi_hw x)))])"
proof -
  obtain r c where sh: "shift b (chip (spi_hw x)) = (r, c)" by fastforce
  obtain v h1 where p1: "spi_poll bus base 1 (spi_hw x) = Some (v, h1)" "v AND TRDY_MSK \<noteq> 0"
      "v AND RRDY_MSK = 0" "ready h1" "chip h1 = chip (spi_hw x)" "inflight h1 = None"
    using poll_idle [OF assms(1), of 1] by auto
  let ?x1 = "spi_send bus base v (x\<lparr>spi_hw := h1\<rparr>)"
  let ?h2 = "iowr bus base SPI_TXDATA (ucast b) h1"
  have h2: "chip ?h2 = c" "inflight ?h2 = Some r"
    using write_byte [OF p1(6,4) _ refl] sh p1(5) by auto
  have x1: "spi_hw ?x1 = ?h2" "credits ?x1 = 0" "outgoing ?x1 = bs" "read_ignore ?x1 = read_ignore x"
      "read_data ?x1 = read_data x"
    using assms(2,3) p1(2)
    by (auto simp: spi_send_def outgoing_def split: list.splits) (cases "write_zeros x"; simp)+
  obtain w h3 where p2: "spi_poll bus base 0 ?h2 = Some (w, h3)" "w AND RRDY_MSK \<noteq> 0" "arrived h3"
      "chip h3 = c" "inflight h3 = Some r"
    using poll_busy [OF h2(2)] h2(1) by auto
  obtain u h4 where rd: "iord bus base SPI_RXDATA h3 = (u, h4)" by fastforce
  note h4 = read_byte [OF p2(5,3) rd]
  let ?x2 = "spi_receive bus base (?x1\<lparr>spi_hw := h3\<rparr>)"
  have s2: "spi_send bus base w (?x1\<lparr>spi_hw := h3\<rparr>) = ?x1\<lparr>spi_hw := h3\<rparr>"
    by (rule spi_send_no_credit) (simp add: x1(2))
  have "spi_loop bus base rlen x = spi_loop bus base rlen ?x1"
    by (subst spi_loop.simps) (simp add: assms(2) p1 Let_def)
  also have "\<dots> = (if read_ignore ?x2 = 0 \<and> length (read_data ?x2) = rlen then Some ?x2
      else spi_loop bus base rlen ?x2)"
    by (subst spi_loop.simps) (simp add: x1(1,2) p2 s2 Let_def)
  finally show ?thesis
    using x1 h4 p2(4) sh
    by (intro exI [of _ ?x2]) (simp add: spi_receive_def rd Let_def outgoing_def)
qed

lemma loop_exchanges:
  assumes "inflight (spi_hw x) = None" "credits x = 1" "outgoing x \<noteq> []"
    and "length (outgoing x) + length (read_data x) = read_ignore x + rlen"
    and "length (read_data x) \<le> rlen"
  shows "\<exists>x'. spi_loop bus base rlen x = Some x' \<and> inflight (spi_hw x') = None
    \<and> chip (spi_hw x') = snd (exchange shift (outgoing x) (chip (spi_hw x)))
    \<and> read_data x' = read_data x @ drop (read_ignore x) (fst (exchange shift (outgoing x) (chip (spi_hw x))))"
  using assms
proof (induction "outgoing x" arbitrary: x)
  case (Cons b bs)
  let ?c = "chip (spi_hw x)"
  obtain x1 where x1: "spi_loop bus base rlen x =
      (if read_ignore x1 = 0 \<and> length (read_data x1) = rlen then Some x1 else spi_loop bus base rlen x1)"
    "outgoing x1 = bs" "credits x1 = 1" "inflight (spi_hw x1) = None"
    "chip (spi_hw x1) = snd (shift b ?c)" "read_ignore x1 = read_ignore x - 1"
    "read_data x1 = read_data x @ (if read_ignore x > 0 then [] else [fst (shift b ?c)])"
    using loop_round [OF Cons.prems(1,2) Cons.hyps(2) [symmetric]] by metis
  have ex: "exchange shift (outgoing x) ?c =
      (fst (shift b ?c) # fst (exchange shift bs (snd (shift b ?c))), snd (exchange shift bs (snd (shift b ?c))))"
    by (simp add: Cons.hyps(2) [symmetric] split_beta)
  have len: "length bs + length (read_data x1) = read_ignore x1 + rlen"
    using Cons.prems(4) x1(6,7) Cons.hyps(2) [symmetric] by auto
  show ?case
  proof (cases "bs = []")
    case True
    then have "read_ignore x1 = 0 \<and> length (read_data x1) = rlen"
      using len Cons.prems(4,5) Cons.hyps(2) [symmetric] x1(6,7) by (auto split: if_splits)
    then show ?thesis using x1 True ex Cons.prems(4,5) Cons.hyps(2) [symmetric]
      by (cases "read_ignore x") auto
  next
    case False
    then have "\<not> (read_ignore x1 = 0 \<and> length (read_data x1) = rlen)" using len by auto
    moreover have "length (read_data x1) \<le> rlen"
      using False len Cons.prems(4,5) Cons.hyps(2) [symmetric] x1(6,7) by (auto split: if_splits)
    moreover note Cons.hyps(1) [OF x1(2) [symmetric] x1(4,3)]
    ultimately show ?thesis
      using False len x1 ex by (cases "read_ignore x") auto
  qed
qed simp

text \<open>The transaction as the chip sees it.\<close>

lemma command_exchanges:
  assumes "inflight h = None" "flags AND SPI_COMMAND_TOGGLE_SS_N = 0" "wdata \<noteq> [] \<or> rlen \<noteq> 0"
    and "exchange shift (wdata @ replicate (unat rlen) 0) (select (chip h)) = (rs, c)"
  shows "\<exists>h'. alt_avalon_spi_command bus base slave wdata rlen flags h = Some (sint rlen, drop (length wdata) rs, h')
    \<and> inflight h' = None \<and> chip h' = (if flags AND SPI_COMMAND_MERGE = 0 then deselect c else c)"
proof -
  let ?h2 = "iowr bus base SPI_CONTROL SSO_MSK (iowr bus base SPI_SLAVE_SEL (push_bit slave 1) h)"
  obtain v h3 where st: "iord bus base SPI_RXDATA ?h2 = (v, h3)" by fastforce
  have h3: "inflight h3 = None" "chip h3 = select (chip h)"
    using start [OF assms(1) refl] stale [OF _ st] by auto
  let ?x = "\<lparr>write_data = wdata, write_zeros = unat rlen, read_ignore = length wdata,
             read_data = [], credits = 1, spi_hw = h3\<rparr>"
  have "outgoing ?x = wdata @ replicate (unat rlen) 0" by (simp add: outgoing_def)
  moreover have "outgoing ?x \<noteq> []" using assms(3) by (auto simp: outgoing_def unat_eq_zero)
  ultimately obtain x' where x': "spi_loop bus base (unat rlen) ?x = Some x'" "inflight (spi_hw x') = None"
    "chip (spi_hw x') = c" "read_data x' = drop (length wdata) rs"
    using loop_exchanges [of ?x "unat rlen"] h3 assms(4) by auto
  obtain h4 where h4: "spi_drain bus base (spi_hw x') = Some h4" "chip h4 = c" "inflight h4 = None"
    using drain_returns [OF x'(2)] x'(3) by auto
  show ?thesis
    using finish [OF h4(3) refl] h4 x' assms(2)
    by (simp add: alt_avalon_spi_command_def st Let_def del: push_bit_of_1)
qed

text \<open>With nothing to send and nothing to read the loop has no way out.\<close>

lemma empty_loop_hangs:
  assumes "spi_loop bus base 0 x = Some y"
  shows "inflight (spi_hw x) \<noteq> None \<or> outgoing x \<noteq> [] \<or> credits x = 0"
proof -
  have "bus = bus \<and> base = base \<longrightarrow> inflight (spi_hw x) \<noteq> None \<or> outgoing x \<noteq> [] \<or> credits x = 0"
  proof (rule spi_loop.raw_induct [where P = "\<lambda>b a n x y. b = bus \<and> a = base \<longrightarrow>
      inflight (spi_hw x) \<noteq> None \<or> outgoing x \<noteq> [] \<or> credits x = 0", OF _ assms], intro impI, goal_cases)
    case (1 loop b a n x y)
    show ?case
    proof (rule ccontr)
      assume "\<not> ?thesis"
      then have i: "inflight (spi_hw x) = None" and o: "outgoing x = []" and c: "credits x \<noteq> 0" by auto
      obtain v h' where p: "spi_poll bus base (credits x) (spi_hw x) = Some (v, h')"
        "v AND RRDY_MSK = 0" "inflight h' = None"
        using poll_idle [OF i c] by auto
      let ?x1 = "spi_send bus base v (x\<lparr>spi_hw := h'\<rparr>)"
      have "inflight (spi_hw ?x1) = None \<and> outgoing ?x1 = [] \<and> credits ?x1 \<noteq> 0"
        using o c p(3) by (simp add: spi_send_def outgoing_def)
      moreover have "loop b a n ?x1 = Some y"
        using 1(2,3) p(1,2) by (simp add: Let_def)
      ultimately show False using 1(1) [of b a n ?x1 y] 1(3) by simp
    qed
  qed
  then show ?thesis by simp
qed

lemma empty_command_hangs:
  assumes "inflight h = None" "flags AND SPI_COMMAND_TOGGLE_SS_N = 0"
  shows "alt_avalon_spi_command bus base slave [] 0 flags h = None"
proof -
  let ?h2 = "iowr bus base SPI_CONTROL SSO_MSK (iowr bus base SPI_SLAVE_SEL (push_bit slave 1) h)"
  obtain v h3 where st: "iord bus base SPI_RXDATA ?h2 = (v, h3)" by fastforce
  have h3: "inflight h3 = None"
    using start [OF assms(1) refl] stale [OF _ st] by auto
  let ?x = "\<lparr>write_data = [], write_zeros = 0, read_ignore = 0, read_data = [], credits = 1, spi_hw = h3\<rparr>"
  have "spi_loop bus base 0 ?x = None"
    using empty_loop_hangs [of ?x] h3 by (cases "spi_loop bus base 0 ?x") (auto simp: outgoing_def)
  then show ?thesis
    using assms(2) by (simp add: alt_avalon_spi_command_def st Let_def del: push_bit_of_1)
qed

end

section \<open>A simulated core\<close>

text \<open>A core that is always ready, in front of any chip: an instance of what \<open>spi_master\<close> asks for.\<close>

record 'c sim_core =
  sim_chip :: 'c
  sim_rx :: "alt_u8 option"

definition sim_core_bus ::
  "('c \<Rightarrow> 'c) \<Rightarrow> ('c \<Rightarrow> 'c) \<Rightarrow> (alt_u8 \<Rightarrow> 'c \<Rightarrow> alt_u8 \<times> 'c) \<Rightarrow> 'c sim_core bus" where
  "sim_core_bus sel desel shift = \<lparr>
     iord = (\<lambda>_ reg h.
       if reg = SPI_STATUS then
         ((case sim_rx h of None \<Rightarrow> TMT_MSK OR TRDY_MSK | Some _ \<Rightarrow> TMT_MSK OR TRDY_MSK OR RRDY_MSK), h)
       else if reg = SPI_RXDATA then
         (case sim_rx h of None \<Rightarrow> (0, h) | Some b \<Rightarrow> (ucast b, h\<lparr>sim_rx := None\<rparr>))
       else (0, h)),
     iowr = (\<lambda>_ reg v h.
       if reg = SPI_TXDATA then
         (let (r, c) = shift (ucast v) (sim_chip h) in \<lparr>sim_chip = c, sim_rx = Some r\<rparr>)
       else if reg = SPI_CONTROL then
         h\<lparr>sim_chip := (if v AND SSO_MSK \<noteq> 0 then sel (sim_chip h) else desel (sim_chip h))\<rparr>
       else h)\<rparr>"

lemma sim_status:
  "(TMT_MSK OR TRDY_MSK) AND TMT_MSK \<noteq> 0" "(TMT_MSK OR TRDY_MSK) AND TRDY_MSK \<noteq> 0"
  "(TMT_MSK OR TRDY_MSK) AND RRDY_MSK = 0" "(TMT_MSK OR TRDY_MSK OR RRDY_MSK) AND RRDY_MSK \<noteq> 0"
  "TMT_MSK \<noteq> 0" "TRDY_MSK \<noteq> 0"
  by (simp_all add: TMT_MSK_def TRDY_MSK_def RRDY_MSK_def)

interpretation sim_core: spi_master "sim_core_bus sel desel shift" base 0 sim_chip sel desel shift sim_rx
    "\<lambda>_. True" "\<lambda>_. True" "\<lambda>_. 0" for sel desel shift base
  by unfold_locales
    (auto simp: sim_core_bus_def sim_status SPI_STATUS_def SPI_RXDATA_def SPI_TXDATA_def SPI_CONTROL_def
      SPI_SLAVE_SEL_def SSO_MSK_def split: option.splits)

section \<open>Properties\<close>

text \<open>Property C7: on any SPI core that keeps its contract, a transaction with something to send or to
  read returns, and the chip has then been selected, clocked through exactly the bytes to write
  followed by as many zeros as there are bytes to read, and deselected unless the merge flag is set; the
  read buffer holds exactly the answers to the zeros.\<close>

theorem spi_command_refines_exchange:
  assumes "spi_master bus base slave chip select deselect shift inflight ready arrived delay"
    and "inflight h = None" and "flags AND SPI_COMMAND_TOGGLE_SS_N = 0" and "wdata \<noteq> [] \<or> rlen \<noteq> 0"
  shows "\<exists>h' rs c. exchange shift (wdata @ replicate (unat rlen) 0) (select (chip h)) = (rs, c)
    \<and> alt_avalon_spi_command bus base slave wdata rlen flags h = Some (sint rlen, drop (length wdata) rs, h')
    \<and> inflight h' = None \<and> chip h' = (if flags AND SPI_COMMAND_MERGE = 0 then deselect c else c)"
  using spi_master.command_exchanges [OF assms] by (metis surj_pair)

text \<open>A chip that answers each byte with the previous one and counts how often it was deselected.\<close>

definition echo_bus :: "(alt_u8 \<times> nat) sim_core bus" where
  "echo_bus = sim_core_bus (\<lambda>c. c) (\<lambda>(b, n). (b, n + 1)) (\<lambda>b (a, n). (a, b, n))"

lemma echo_core:
  "spi_master echo_bus 0 0 sim_chip (\<lambda>c. c) (\<lambda>(b, n). (b, n + 1)) (\<lambda>b (a, n). (a, b, n)) sim_rx
     (\<lambda>_. True) (\<lambda>_. True) (\<lambda>_. 0)"
  unfolding echo_bus_def by (rule sim_core.spi_master_axioms)

theorem spi_command_refines_exchange_witness:
  "\<exists>h'. alt_avalon_spi_command echo_bus 0 0 [5, 6] 2 0 \<lparr>sim_chip = (9, 0), sim_rx = None\<rparr> = Some (2, [6, 0], h')
     \<and> sim_chip h' = (0, 1)"
proof -
  have two: "replicate (unat (2 :: alt_u32)) (0 :: alt_u8) = [0, 0]"
    by simp (simp add: numeral_2_eq_2)
  show ?thesis
    using spi_command_refines_exchange [OF echo_core, where h = "\<lparr>sim_chip = (9, 0), sim_rx = None\<rparr>" and flags = 0
        and wdata = "[5, 6]" and rlen = 2, unfolded two]
    by auto
qed

text \<open>Property C34: a transaction returns exactly when there is a byte to send or to read; asked for
  neither, it waits for ever with the chip selected.\<close>

theorem spi_command_returns_iff:
  assumes "spi_master bus base slave chip select deselect shift inflight ready arrived delay"
    and "inflight h = None" and "flags AND SPI_COMMAND_TOGGLE_SS_N = 0"
  shows "(\<exists>r. alt_avalon_spi_command bus base slave wdata rlen flags h = Some r) \<longleftrightarrow> wdata \<noteq> [] \<or> rlen \<noteq> 0"
proof (cases "wdata \<noteq> [] \<or> rlen \<noteq> 0")
  case True
  then show ?thesis using spi_master.command_exchanges [OF assms True] by (metis surj_pair)
next
  case False
  then show ?thesis using spi_master.empty_command_hangs [OF assms] by simp
qed

theorem spi_command_returns_iff_witness:
  "(\<exists>r. alt_avalon_spi_command echo_bus 0 0 [5] 0 0 \<lparr>sim_chip = (9, 0), sim_rx = None\<rparr> = Some r)
   \<and> alt_avalon_spi_command echo_bus 0 0 [] 0 0 \<lparr>sim_chip = (9, 0), sim_rx = None\<rparr> = None"
  using spi_command_returns_iff [OF echo_core, where h = "\<lparr>sim_chip = (9, 0), sim_rx = None\<rparr>" and flags = 0 and rlen = 0]
  by (simp, cases "alt_avalon_spi_command echo_bus 0 0 [] 0 0 \<lparr>sim_chip = (9, 0), sim_rx = None\<rparr>") fastforce+

end
