(* ===== verification/Epcs.thy ===== *)
theory Epcs
  imports Spi
begin

text \<open>
  The serial configuration flash: the commands of \<^verbatim>\<open>drivers/src/epcs_commands.c\<close>, each one or
  more SPI transactions. \<open>Epcs_Flash\<close> builds the flash driver on them. The chip is hardware; what
  the code relies on is the locale \<open>epcs_chip\<close>.
\<close>

section \<open>Commands\<close>

text \<open>The opcodes of \<^verbatim>\<open>drivers/inc/epcs_commands.h\<close>.\<close>

definition epcs_read :: alt_u8 where "epcs_read = 0x03"
definition epcs_pp :: alt_u8 where "epcs_pp = 0x02"
definition epcs_wren :: alt_u8 where "epcs_wren = 0x06"
definition epcs_rdsr :: alt_u8 where "epcs_rdsr = 0x05"
definition epcs_wrsr :: alt_u8 where "epcs_wrsr = 0x01"
definition epcs_se :: alt_u8 where "epcs_se = 0xD8"
definition epcs_res :: alt_u8 where "epcs_res = 0xAB"
definition epcs_rdid :: alt_u8 where "epcs_rdid = 0x9F"
definition epcs_en4b :: alt_u8 where "epcs_en4b = 0xB7"
definition epcs_dis4b :: alt_u8 where "epcs_dis4b = 0xE9"

lemmas opcode_defs = epcs_read_def epcs_pp_def epcs_wren_def epcs_rdsr_def epcs_wrsr_def epcs_se_def
  epcs_res_def epcs_rdid_def epcs_en4b_def epcs_dis4b_def

definition epcs_read_status_register :: "'h bus \<Rightarrow> addr \<Rightarrow> 'h \<Rightarrow> (alt_u8 \<times> 'h) option" where
  "epcs_read_status_register bus base h =
     do {
       (_, buf, h1) \<leftarrow> alt_avalon_spi_command bus base 0 [epcs_rdsr] 1 0 h;
       Some (buf ! 0, h1)
     }"

definition epcs_test_wip :: "'h bus \<Rightarrow> addr \<Rightarrow> 'h \<Rightarrow> (int \<times> 'h) option" where
  "epcs_test_wip bus base h =
     do {
       (status, h1) \<leftarrow> epcs_read_status_register bus base h;
       Some (uint (status AND 1), h1)
     }"

partial_function (option) epcs_await_wip_released :: "'h bus \<Rightarrow> addr \<Rightarrow> 'h \<Rightarrow> 'h option" where
  "epcs_await_wip_released bus base h =
     Option.bind (epcs_test_wip bus base h) (\<lambda>r.
       if fst r \<noteq> 0 then epcs_await_wip_released bus base (snd r) else Some (snd r))"

definition epcs_write_enable :: "'h bus \<Rightarrow> addr \<Rightarrow> 'h \<Rightarrow> 'h option" where
  "epcs_write_enable bus base h =
     do {
       (_, _, h1) \<leftarrow> alt_avalon_spi_command bus base 0 [epcs_wren] 0 0 h;
       Some h1
     }"

definition epcs_write_status_register :: "'h bus \<Rightarrow> addr \<Rightarrow> alt_u8 \<Rightarrow> 'h \<Rightarrow> 'h option" where
  "epcs_write_status_register bus base v h =
     do {
       (_, _, h1) \<leftarrow> alt_avalon_spi_command bus base 0 [epcs_wrsr, v] 0 0 h;
       epcs_await_wip_released bus base h1
     }"

definition epcs_enter_4_bytes_mode :: "'h bus \<Rightarrow> addr \<Rightarrow> 'h \<Rightarrow> 'h option" where
  "epcs_enter_4_bytes_mode bus base h =
     do {
       h1 \<leftarrow> epcs_write_enable bus base h;
       (_, _, h2) \<leftarrow> alt_avalon_spi_command bus base 0 [epcs_en4b] 0 0 h1;
       Some h2
     }"

definition epcs_exit_4_bytes_mode :: "'h bus \<Rightarrow> addr \<Rightarrow> 'h \<Rightarrow> 'h option" where
  "epcs_exit_4_bytes_mode bus base h =
     do {
       h1 \<leftarrow> epcs_write_enable bus base h;
       (_, _, h2) \<leftarrow> alt_avalon_spi_command bus base 0 [epcs_dis4b] 0 0 h1;
       Some h2
     }"

text \<open>
  The command buffers \<^verbatim>\<open>se\<close>, \<^verbatim>\<open>read_command\<close> and \<^verbatim>\<open>pp\<close>: the opcode and three or four bytes of
  the offset, the most significant first.
\<close>

definition epcs_command_bytes :: "alt_u8 \<Rightarrow> alt_u32 \<Rightarrow> alt_u32 \<Rightarrow> alt_u8 list" where
  "epcs_command_bytes opc offset four_bytes_mode =
     (if four_bytes_mode \<noteq> 0 then
        [opc, ucast (drop_bit 24 offset AND 0xFF), ucast (drop_bit 16 offset AND 0xFF),
         ucast (drop_bit 8 offset AND 0xFF), ucast (offset AND 0xFF)]
      else
        [opc, ucast (drop_bit 16 offset AND 0xFF), ucast (drop_bit 8 offset AND 0xFF),
         ucast (offset AND 0xFF)])"

definition epcs_sector_erase :: "'h bus \<Rightarrow> addr \<Rightarrow> alt_u32 \<Rightarrow> alt_u32 \<Rightarrow> 'h \<Rightarrow> 'h option" where
  "epcs_sector_erase bus base offset four_bytes_mode h =
     do {
       let se = epcs_command_bytes epcs_se offset four_bytes_mode;
       h1 \<leftarrow> if four_bytes_mode \<noteq> 0 then epcs_enter_4_bytes_mode bus base h else Some h;
       h2 \<leftarrow> epcs_write_enable bus base h1;
       (_, _, h3) \<leftarrow> alt_avalon_spi_command bus base 0 se 0 0 h2;
       h4 \<leftarrow> epcs_await_wip_released bus base h3;
       if four_bytes_mode \<noteq> 0 then epcs_exit_4_bytes_mode bus base h4 else Some h4
     }"

text \<open>The returned length and the contents of the destination buffer.\<close>

definition epcs_read_buffer ::
  "'h bus \<Rightarrow> addr \<Rightarrow> int \<Rightarrow> int \<Rightarrow> alt_u32 \<Rightarrow> 'h \<Rightarrow> (int \<times> alt_u8 list \<times> 'h) option" where
  "epcs_read_buffer bus base offset len four_bytes_mode h =
     do {
       let read_command = epcs_command_bytes epcs_read (word_of_int offset) four_bytes_mode;
       h1 \<leftarrow> if four_bytes_mode \<noteq> 0 then epcs_enter_4_bytes_mode bus base h else Some h;
       h2 \<leftarrow> epcs_await_wip_released bus base h1;
       (_, dest, h3) \<leftarrow> alt_avalon_spi_command bus base 0 read_command (word_of_int len) 0 h2;
       h4 \<leftarrow> if four_bytes_mode \<noteq> 0 then epcs_exit_4_bytes_mode bus base h3 else Some h3;
       Some (len, dest, h4)
     }"

text \<open>Address and length of the bytes to program are the list \<open>src\<close>.\<close>

definition epcs_write_buffer ::
  "'h bus \<Rightarrow> addr \<Rightarrow> int \<Rightarrow> alt_u8 list \<Rightarrow> alt_u32 \<Rightarrow> 'h \<Rightarrow> (int \<times> 'h) option" where
  "epcs_write_buffer bus base offset src four_bytes_mode h =
     do {
       let pp = epcs_command_bytes epcs_pp (word_of_int offset) four_bytes_mode;
       h1 \<leftarrow> if four_bytes_mode \<noteq> 0 then epcs_enter_4_bytes_mode bus base h else Some h;
       h2 \<leftarrow> epcs_write_enable bus base h1;
       (_, _, h3) \<leftarrow> alt_avalon_spi_command bus base 0 pp 0 SPI_COMMAND_MERGE h2;
       (_, _, h4) \<leftarrow> alt_avalon_spi_command bus base 0 src 0 0 h3;
       h5 \<leftarrow> epcs_await_wip_released bus base h4;
       h6 \<leftarrow> if four_bytes_mode \<noteq> 0 then epcs_exit_4_bytes_mode bus base h5 else Some h5;
       Some (int (length src), h6)
     }"

definition epcs_read_electronic_signature :: "'h bus \<Rightarrow> addr \<Rightarrow> 'h \<Rightarrow> (alt_u8 \<times> 'h) option" where
  "epcs_read_electronic_signature bus base h =
     do {
       (_, res, h1) \<leftarrow> alt_avalon_spi_command bus base 0 [epcs_res, 0, 0, 0] 1 0 h;
       Some (res ! 0, h1)
     }"

definition epcs_read_device_id :: "'h bus \<Rightarrow> addr \<Rightarrow> 'h \<Rightarrow> (alt_u32 \<times> 'h) option" where
  "epcs_read_device_id bus base h =
     do {
       (_, i, h1) \<leftarrow> alt_avalon_spi_command bus base 0 [epcs_rdid] 3 0 h;
       Some (push_bit 16 (ucast (i ! 0)) OR push_bit 8 (ucast (i ! 1)) OR ucast (i ! 2), h1)
     }"

section \<open>The chip\<close>

text \<open>One transaction: the chip is selected, clocked and deselected.\<close>

definition transact ::
  "('c \<Rightarrow> 'c) \<Rightarrow> ('c \<Rightarrow> 'c) \<Rightarrow> (alt_u8 \<Rightarrow> 'c \<Rightarrow> alt_u8 \<times> 'c) \<Rightarrow> alt_u8 list \<Rightarrow> 'c \<Rightarrow> alt_u8 list \<times> 'c" where
  "transact select deselect shift bs c =
     (let (rs, c1) = exchange shift bs (select c) in (rs, deselect c1))"

text \<open>The address bytes of a command.\<close>

definition address_bytes :: "bool \<Rightarrow> nat \<Rightarrow> alt_u8 list" where
  "address_bytes four a =
     (if four then [of_nat (a div 16777216)] else []) @ [of_nat (a div 65536), of_nat (a div 256), of_nat a]"

text \<open>
  The data sheet's contract, as far as the driver uses it. \<open>wip\<close> is the number of status reads
  that still find a write in progress, \<open>wel\<close> the write enable latch, \<open>four\<close> the address mode and
  \<open>mem\<close> the contents; \<open>capacity\<close> and \<open>sector\<close> are the sizes of the chip and of its erase sectors.
  Programming can only clear bits, and stays in one page of 256 bytes.
\<close>

locale epcs_chip =
  fixes select :: "'c \<Rightarrow> 'c" and deselect :: "'c \<Rightarrow> 'c" and shift :: "alt_u8 \<Rightarrow> 'c \<Rightarrow> alt_u8 \<times> 'c"
    and idle :: "'c \<Rightarrow> bool" and wip :: "'c \<Rightarrow> nat" and wel :: "'c \<Rightarrow> bool" and four :: "'c \<Rightarrow> bool"
    and mem :: "'c \<Rightarrow> nat \<Rightarrow> alt_u8" and capacity :: nat and sector :: nat
  assumes select_again: "idle c \<Longrightarrow>
      select (snd (exchange shift bs (select c))) = snd (exchange shift bs (select c))"
    and rdsr: "idle c \<Longrightarrow> transact select deselect shift [epcs_rdsr, 0] c = (rs, c') \<Longrightarrow>
      idle c' \<and> mem c' = mem c \<and> four c' = four c
      \<and> (rs ! 1 AND 1 = 0 \<longleftrightarrow> wip c = 0) \<and> wip c' = wip c - 1"
    and wren: "idle c \<Longrightarrow> wip c = 0 \<Longrightarrow> transact select deselect shift [epcs_wren] c = (rs, c') \<Longrightarrow>
      idle c' \<and> wip c' = 0 \<and> wel c' \<and> mem c' = mem c \<and> four c' = four c"
    and en4b: "idle c \<Longrightarrow> wip c = 0 \<Longrightarrow> wel c \<Longrightarrow> transact select deselect shift [epcs_en4b] c = (rs, c') \<Longrightarrow>
      idle c' \<and> wip c' = 0 \<and> mem c' = mem c \<and> four c'"
    and dis4b: "idle c \<Longrightarrow> wip c = 0 \<Longrightarrow> wel c \<Longrightarrow> transact select deselect shift [epcs_dis4b] c = (rs, c') \<Longrightarrow>
      idle c' \<and> wip c' = 0 \<and> mem c' = mem c \<and> \<not> four c'"
    and fast_read: "idle c \<Longrightarrow> wip c = 0 \<Longrightarrow> a + n \<le> capacity \<Longrightarrow> four c \<or> a + n \<le> 16777216 \<Longrightarrow>
      transact select deselect shift (epcs_read # address_bytes (four c) a @ replicate n 0) c = (rs, c') \<Longrightarrow>
      idle c' \<and> wip c' = 0 \<and> mem c' = mem c \<and> four c' = four c
      \<and> drop (1 + length (address_bytes (four c) a)) rs = map (mem c) [a..<a + n]"
    and program: "idle c \<Longrightarrow> wip c = 0 \<Longrightarrow> wel c \<Longrightarrow> bs \<noteq> [] \<Longrightarrow> a mod 256 + length bs \<le> 256 \<Longrightarrow>
      a + length bs \<le> capacity \<Longrightarrow> four c \<or> a + length bs \<le> 16777216 \<Longrightarrow>
      transact select deselect shift (epcs_pp # address_bytes (four c) a @ bs) c = (rs, c') \<Longrightarrow>
      idle c' \<and> four c' = four c
      \<and> mem c' = (\<lambda>x. if a \<le> x \<and> x < a + length bs then mem c x AND bs ! (x - a) else mem c x)"
    and erase: "idle c \<Longrightarrow> wip c = 0 \<Longrightarrow> wel c \<Longrightarrow> a < capacity \<Longrightarrow> four c \<or> a < 16777216 \<Longrightarrow>
      transact select deselect shift (epcs_se # address_bytes (four c) a) c = (rs, c') \<Longrightarrow>
      idle c' \<and> four c' = four c
      \<and> mem c' = (\<lambda>x. if x div sector = a div sector then 0xFF else mem c x)"

text \<open>The bytes the code computes are those of the address.\<close>

lemma ucast_low_byte: "ucast (x AND 0xFF :: alt_u32) = (ucast x :: alt_u8)"
  unfolding and_low_mask_32 by (rule bit_word_eqI) (simp add: bit_simps)

lemma command_bytes:
  assumes "unat offset = a" "four_bytes_mode \<noteq> 0 \<longleftrightarrow> four"
  shows "epcs_command_bytes opc offset four_bytes_mode = opc # address_bytes four a"
proof -
  have "ucast (drop_bit n offset :: alt_u32) = (of_nat (a div 2 ^ n) :: alt_u8)" for n
    unfolding assms(1) [symmetric] by (simp only: unat_drop_bit_eq [symmetric] drop_bit_eq_div [symmetric] of_nat_unat)
  from this [of 24] this [of 16] this [of 8] this [of 0] show ?thesis
    using assms(2) by (simp add: epcs_command_bytes_def address_bytes_def ucast_low_byte)
qed


section \<open>The commands on such a chip\<close>

locale epcs_device =
  spi_master bus base 0 chip select deselect shift inflight ready arrived delay
  + epcs_chip select deselect shift idle wip wel four mem capacity sector
  for bus :: "'h bus" and base :: addr and chip :: "'h \<Rightarrow> 'c" and select :: "'c \<Rightarrow> 'c" and deselect :: "'c \<Rightarrow> 'c"
    and shift :: "alt_u8 \<Rightarrow> 'c \<Rightarrow> alt_u8 \<times> 'c"
    and inflight :: "'h \<Rightarrow> alt_u8 option" and ready :: "'h \<Rightarrow> bool" and arrived :: "'h \<Rightarrow> bool"
    and delay :: "'h \<Rightarrow> nat"
    and idle :: "'c \<Rightarrow> bool" and wip :: "'c \<Rightarrow> nat" and wel :: "'c \<Rightarrow> bool" and four :: "'c \<Rightarrow> bool"
    and mem :: "'c \<Rightarrow> nat \<Rightarrow> alt_u8" and capacity :: nat and sector :: nat
begin

text \<open>Between two transactions, and between two commands, with the given address mode and contents.\<close>

definition between :: "'h \<Rightarrow> bool \<Rightarrow> (nat \<Rightarrow> alt_u8) \<Rightarrow> bool" where
  "between h f m \<longleftrightarrow> inflight h = None \<and> idle (chip h) \<and> four (chip h) = f \<and> mem (chip h) = m"

definition quiet :: "'h \<Rightarrow> bool \<Rightarrow> (nat \<Rightarrow> alt_u8) \<Rightarrow> bool" where
  "quiet h f m \<longleftrightarrow> between h f m \<and> wip (chip h) = 0"

lemma command_transacts:
  assumes "inflight h = None" "wdata \<noteq> []"
    and "transact select deselect shift (wdata @ replicate (unat rlen) 0) (chip h) = (rs, c)"
  shows "\<exists>h'. alt_avalon_spi_command bus base 0 wdata rlen 0 h = Some (sint rlen, drop (length wdata) rs, h')
    \<and> inflight h' = None \<and> chip h' = c"
proof -
  obtain c1 where "exchange shift (wdata @ replicate (unat rlen) 0) (select (chip h)) = (rs, c1)" "c = deselect c1"
    using assms(3) by (auto simp: transact_def split_beta prod_eq_iff)
  then show ?thesis
    using command_exchanges [OF assms(1), of 0 wdata rlen rs c1] assms(2) by auto
qed

lemma read_status:
  assumes "between h f m"
  shows "\<exists>v h'. epcs_read_status_register bus base h = Some (v, h') \<and> between h' f m
    \<and> (v AND 1 = 0 \<longleftrightarrow> wip (chip h) = 0) \<and> wip (chip h') = wip (chip h) - 1"
proof -
  obtain rs c where tr: "transact select deselect shift [epcs_rdsr, 0] (chip h) = (rs, c)" by fastforce
  then have len: "length rs = 2"
    by (auto simp: transact_def split_beta)
  obtain h' where h': "alt_avalon_spi_command bus base 0 [epcs_rdsr] 1 0 h = Some (1, drop 1 rs, h')"
      "inflight h' = None" "chip h' = c"
    using command_transacts [of h "[epcs_rdsr]" 1 rs c] assms tr by (auto simp: between_def)
  have "drop 1 rs ! 0 = rs ! 1" using len by simp
  then show ?thesis
    using rdsr [OF _ tr] assms h' by (auto simp: epcs_read_status_register_def between_def)
qed

lemma await_returns:
  assumes "between h f m"
  shows "\<exists>h'. epcs_await_wip_released bus base h = Some h' \<and> quiet h' f m"
  using assms
proof (induction "wip (chip h)" arbitrary: h rule: less_induct)
  case less
  obtain v h1 where r: "epcs_read_status_register bus base h = Some (v, h1)" "between h1 f m"
      "v AND 1 = 0 \<longleftrightarrow> wip (chip h) = 0" "wip (chip h1) = wip (chip h) - 1"
    using read_status [OF less.prems] by metis
  show ?case
  proof (cases "wip (chip h) = 0")
    case True
    then show ?thesis using r
      by (subst epcs_await_wip_released.simps) (simp add: epcs_test_wip_def quiet_def)
  next
    case False
    then have "uint (v AND 1) \<noteq> 0" using r(3) by (simp only: uint_0_iff not_False_eq_True)
    moreover have "wip (chip h1) < wip (chip h)" using False r(4) by simp
    ultimately show ?thesis
      using r less.hyps [OF _ r(2)]
      by (subst epcs_await_wip_released.simps) (simp add: epcs_test_wip_def)
  qed
qed

lemma write_enable:
  assumes "quiet h f m"
  shows "\<exists>h'. epcs_write_enable bus base h = Some h' \<and> quiet h' f m \<and> wel (chip h')"
proof -
  obtain rs c where tr: "transact select deselect shift [epcs_wren] (chip h) = (rs, c)" by fastforce
  show ?thesis
    using command_transacts [of h "[epcs_wren]" 0 rs c] wren [OF _ _ tr] assms tr
    by (auto simp: quiet_def between_def epcs_write_enable_def)
qed

lemma enter_4_bytes:
  assumes "quiet h f m"
  shows "\<exists>h'. epcs_enter_4_bytes_mode bus base h = Some h' \<and> quiet h' True m"
proof -
  obtain h1 where h1: "epcs_write_enable bus base h = Some h1" "quiet h1 f m" "wel (chip h1)"
    using write_enable [OF assms] by auto
  obtain rs c where tr: "transact select deselect shift [epcs_en4b] (chip h1) = (rs, c)" by fastforce
  show ?thesis
    using command_transacts [of h1 "[epcs_en4b]" 0 rs c] en4b [OF _ _ h1(3) tr] h1 tr
    by (auto simp: quiet_def between_def epcs_enter_4_bytes_mode_def)
qed

lemma exit_4_bytes:
  assumes "quiet h f m"
  shows "\<exists>h'. epcs_exit_4_bytes_mode bus base h = Some h' \<and> quiet h' False m"
proof -
  obtain h1 where h1: "epcs_write_enable bus base h = Some h1" "quiet h1 f m" "wel (chip h1)"
    using write_enable [OF assms] by auto
  obtain rs c where tr: "transact select deselect shift [epcs_dis4b] (chip h1) = (rs, c)" by fastforce
  show ?thesis
    using command_transacts [of h1 "[epcs_dis4b]" 0 rs c] dis4b [OF _ _ h1(3) tr] h1 tr
    by (auto simp: quiet_def between_def epcs_exit_4_bytes_mode_def)
qed

text \<open>The bracket of mode changes around a command.\<close>

lemma mode_in:
  assumes "quiet h False m"
  shows "\<exists>h'. (if fb \<noteq> 0 then epcs_enter_4_bytes_mode bus base h else Some h) = Some h' \<and> quiet h' (fb \<noteq> 0) m"
  using assms enter_4_bytes by (cases "fb = 0") auto

lemma mode_out:
  assumes "quiet h (fb \<noteq> 0) m"
  shows "\<exists>h'. (if fb \<noteq> 0 then epcs_exit_4_bytes_mode bus base h else Some h) = Some h' \<and> quiet h' False m"
  using assms exit_4_bytes by (cases "fb = 0") auto

lemma sector_erase:
  assumes "quiet h False m" "unat off < capacity" "fb \<noteq> 0 \<or> unat off < 16777216"
  shows "\<exists>h'. epcs_sector_erase bus base off fb h = Some h'
    \<and> quiet h' False (\<lambda>x. if x div sector = unat off div sector then 0xFF else m x)"
proof -
  obtain h1 where h1: "(if fb \<noteq> 0 then epcs_enter_4_bytes_mode bus base h else Some h) = Some h1" "quiet h1 (fb \<noteq> 0) m"
    using mode_in [OF assms(1)] by blast
  obtain h2 where h2: "epcs_write_enable bus base h1 = Some h2" "quiet h2 (fb \<noteq> 0) m" "wel (chip h2)"
    using write_enable [OF h1(2)] by blast
  let ?cmd = "epcs_command_bytes epcs_se off fb"
  have cmd: "?cmd = epcs_se # address_bytes (four (chip h2)) (unat off)"
    using command_bytes [of off "unat off" fb "fb \<noteq> 0"] h2(2) by (simp add: quiet_def between_def)
  obtain rs c where tr: "transact select deselect shift ?cmd (chip h2) = (rs, c)" by fastforce
  have c: "idle c" "four c = (fb \<noteq> 0)" "mem c = (\<lambda>x. if x div sector = unat off div sector then 0xFF else m x)"
    using erase [OF _ _ h2(3) assms(2) _ tr [unfolded cmd]] h2(2) assms(3) by (auto simp: quiet_def between_def)
  obtain h3 where h3: "alt_avalon_spi_command bus base 0 ?cmd 0 0 h2 = Some (0, drop (length ?cmd) rs, h3)"
      "inflight h3 = None" "chip h3 = c"
    using command_transacts [of h2 ?cmd 0 rs c] h2(2) tr cmd by (auto simp: quiet_def between_def)
  obtain h4 where h4: "epcs_await_wip_released bus base h3 = Some h4" "quiet h4 (fb \<noteq> 0) (mem c)"
    using await_returns [of h3 "fb \<noteq> 0" "mem c"] h3 c by (auto simp: between_def)
  show ?thesis
    using mode_out [OF h4(2)] h1(1) h2(1) h3(1) h4(1) c(3) by (auto simp: epcs_sector_erase_def)
qed

lemma read_buffer:
  assumes "quiet h False m" "0 \<le> off" "0 \<le> len" "nat off + nat len \<le> capacity" "nat off + nat len < 2147483648"
    and "fb \<noteq> 0 \<or> nat off + nat len \<le> 16777216"
  shows "\<exists>h'. epcs_read_buffer bus base off len fb h = Some (len, map m [nat off..<nat off + nat len], h')
    \<and> quiet h' False m"
proof -
  obtain h1 where h1: "(if fb \<noteq> 0 then epcs_enter_4_bytes_mode bus base h else Some h) = Some h1" "quiet h1 (fb \<noteq> 0) m"
    using mode_in [OF assms(1)] by blast
  obtain h2 where h2: "epcs_await_wip_released bus base h1 = Some h2" "quiet h2 (fb \<noteq> 0) m"
    using await_returns [of h1 "fb \<noteq> 0" m] h1(2) by (auto simp: quiet_def)
  let ?cmd = "epcs_command_bytes epcs_read (word_of_int off) fb"
  have n: "unat (word_of_int off :: alt_u32) = nat off" "unat (word_of_int len :: alt_u32) = nat len"
    using assms(2-5) by (simp_all add: unsigned_of_int take_bit_int_eq_self)
  have cmd: "?cmd = epcs_read # address_bytes (four (chip h2)) (nat off)"
    using command_bytes [OF n(1), of fb "fb \<noteq> 0"] h2(2) by (simp add: quiet_def between_def)
  obtain rs c where tr: "transact select deselect shift (?cmd @ replicate (nat len) 0) (chip h2) = (rs, c)" by fastforce
  have c: "idle c" "wip c = 0" "four c = (fb \<noteq> 0)" "mem c = m" "drop (length ?cmd) rs = map m [nat off..<nat off + nat len]"
    using fast_read [OF _ _ assms(4) _ tr [unfolded cmd append_Cons]] h2(2) assms(6)
    by (auto simp: quiet_def between_def cmd)
  obtain h3 where h3: "alt_avalon_spi_command bus base 0 ?cmd (word_of_int len) 0 h2
      = Some (sint (word_of_int len :: alt_u32), drop (length ?cmd) rs, h3)" "inflight h3 = None" "chip h3 = c"
    using command_transacts [of h2 ?cmd "word_of_int len" rs c] h2(2) tr cmd n(2) by (auto simp: quiet_def between_def)
  have "quiet h3 (fb \<noteq> 0) m" using h3 c by (simp add: quiet_def between_def)
  from mode_out [OF this] show ?thesis
    using h1(1) h2(1) h3(1) c(5) by (auto simp: epcs_read_buffer_def)
qed

text \<open>What programming bytes at an address makes of the contents.\<close>

definition programmed :: "(nat \<Rightarrow> alt_u8) \<Rightarrow> nat \<Rightarrow> alt_u8 list \<Rightarrow> nat \<Rightarrow> alt_u8" where
  "programmed m a bs = (\<lambda>x. if a \<le> x \<and> x < a + length bs then m x AND bs ! (x - a) else m x)"

lemma write_buffer:
  assumes "quiet h False m" "0 \<le> off" "bs \<noteq> []" "nat off mod 256 + length bs \<le> 256"
    and "nat off + length bs \<le> capacity" "nat off + length bs < 2147483648"
    and "fb \<noteq> 0 \<or> nat off + length bs \<le> 16777216"
  shows "\<exists>h'. epcs_write_buffer bus base off bs fb h = Some (int (length bs), h')
    \<and> quiet h' False (programmed m (nat off) bs)"
proof -
  obtain h1 where h1: "(if fb \<noteq> 0 then epcs_enter_4_bytes_mode bus base h else Some h) = Some h1" "quiet h1 (fb \<noteq> 0) m"
    using mode_in [OF assms(1)] by blast
  obtain h2 where h2: "epcs_write_enable bus base h1 = Some h2" "quiet h2 (fb \<noteq> 0) m" "wel (chip h2)"
    using write_enable [OF h1(2)] by blast
  let ?cmd = "epcs_command_bytes epcs_pp (word_of_int off) fb"
  have n: "unat (word_of_int off :: alt_u32) = nat off"
    using assms(2,6) by (simp add: unsigned_of_int take_bit_int_eq_self)
  have cmd: "?cmd = epcs_pp # address_bytes (four (chip h2)) (nat off)"
    using command_bytes [OF n, of fb "fb \<noteq> 0"] h2(2) by (simp add: quiet_def between_def)
  obtain rs c1 where e1: "exchange shift ?cmd (select (chip h2)) = (rs, c1)" by fastforce
  obtain h3 where h3: "alt_avalon_spi_command bus base 0 ?cmd 0 SPI_COMMAND_MERGE h2 = Some (0, drop (length ?cmd) rs, h3)"
      "inflight h3 = None" "chip h3 = c1"
    using command_exchanges [of h2 SPI_COMMAND_MERGE ?cmd 0 rs c1] h2(2) e1 cmd
    by (auto simp: quiet_def between_def SPI_COMMAND_MERGE_def SPI_COMMAND_TOGGLE_SS_N_def)
  have again: "select c1 = c1"
    using select_again [of "chip h2" ?cmd] h2(2) e1 by (simp add: quiet_def between_def)
  obtain rs2 c2 where e2: "exchange shift bs c1 = (rs2, c2)" by fastforce
  have tr: "transact select deselect shift (?cmd @ bs) (chip h2) = (rs @ rs2, deselect c2)"
    by (simp add: transact_def exchange_append e1 e2)
  have c: "idle (deselect c2)" "four (deselect c2) = (fb \<noteq> 0)" "mem (deselect c2) = programmed m (nat off) bs"
    using program [OF _ _ h2(3) assms(3-5) _ tr [unfolded cmd append_Cons]] h2(2) assms(7)
    by (auto simp: quiet_def between_def programmed_def)
  obtain h4 where h4: "alt_avalon_spi_command bus base 0 bs 0 0 h3 = Some (0, drop (length bs) rs2, h4)"
      "inflight h4 = None" "chip h4 = deselect c2"
    using command_exchanges [of h3 0 bs 0 rs2 c2] h3 again e2 assms(3) by auto
  obtain h5 where h5: "epcs_await_wip_released bus base h4 = Some h5" "quiet h5 (fb \<noteq> 0) (programmed m (nat off) bs)"
    using await_returns [of h4 "fb \<noteq> 0" "programmed m (nat off) bs"] h4 c by (auto simp: between_def)
  show ?thesis
    using mode_out [OF h5(2)] h1(1) h2(1) h3(1) h4(1) h5(1) by (auto simp: epcs_write_buffer_def)
qed

end

end
