(* ===== verification/Epcs_Flash.thy ===== *)
theory Epcs_Flash
  imports Epcs Fd_Table
begin

text \<open>
  The flash driver \<^verbatim>\<open>drivers/src/altera_avalon_epcs_flash_controller.c\<close>: recognising the chip,
  and reading, erasing and writing it. The properties say what a write leaves in the flash, on
  every chip that keeps the contract of \<open>Epcs\<close>.
\<close>

section \<open>State\<close>

record flash_region =
  fr_offset :: int
  region_size :: int
  number_of_blocks :: int
  block_size :: int

text \<open>\<^verbatim>\<open>alt_flash_dev\<close> without its function pointers, which are those of this driver, and
  \<^verbatim>\<open>alt_flash_epcs_dev\<close>.\<close>

record flash_dev =
  number_of_regions :: int
  region_info :: "flash_region list"

record epcs_dev = flash_dev +
  register_base :: addr
  size_in_bytes :: alt_u32
  silicon_id :: alt_u32
  page_size :: alt_u32
  four_bytes_mode :: alt_u32

definition ALT_MAX_NUMBER_OF_FLASH_REGIONS :: int where "ALT_MAX_NUMBER_OF_FLASH_REGIONS = 8"

section \<open>Recognising the chip\<close>

text \<open>Setting size, number of blocks and block size of the first region, and the fields that are the
  same for every chip.\<close>

definition set_region :: "int \<Rightarrow> int \<Rightarrow> int \<Rightarrow> epcs_dev \<Rightarrow> epcs_dev" where
  "set_region sz n bs f = f\<lparr>region_info := (region_info f)
     [0 := (region_info f ! 0)\<lparr>region_size := sz, number_of_blocks := n, block_size := bs\<rparr>]\<rparr>"

definition query_finish :: "epcs_dev \<Rightarrow> epcs_dev" where
  "query_finish f = f\<lparr>size_in_bytes := word_of_int (region_size (region_info f ! 0)),
     number_of_regions := 1,
     region_info := (region_info f)[0 := (region_info f ! 0)\<lparr>fr_offset := 0\<rparr>],
     page_size := 256\<rparr>"

definition alt_epcs_flash_query :: "'h bus \<Rightarrow> epcs_dev \<Rightarrow> 'h \<Rightarrow> (int \<times> epcs_dev \<times> 'h) option" where
  "alt_epcs_flash_query bus flash h =
     do {
       let f0 = flash\<lparr>four_bytes_mode := 0\<rparr>;
       (sig, h1) \<leftarrow> epcs_read_electronic_signature bus (register_base f0) h;
       let f1 = f0\<lparr>silicon_id := ucast sig\<rparr>;
       (ret_code, f2, h2) \<leftarrow>
         (if silicon_id f1 = 0x16 then Some (0, set_region (64 * 1024 * 1024 div 8) 128 65536 f1, h1)
          else if silicon_id f1 = 0x14 then Some (0, set_region (16 * 1024 * 1024 div 8) 32 65536 f1, h1)
          else if silicon_id f1 = 0x13 then Some (0, set_region (8 * 1024 * 1024 div 8) 16 65536 f1, h1)
          else if silicon_id f1 = 0x12 then Some (0, set_region (4 * 1024 * 1024 div 8) 8 65536 f1, h1)
          else if silicon_id f1 = 0x10 then Some (0, set_region (1 * 1024 * 1024 div 8) 4 32768 f1, h1)
          else do {
            (i, h') \<leftarrow> epcs_read_device_id bus (register_base f1) h1;
            let g = f1\<lparr>silicon_id := i\<rparr>;
            Some (if i AND 0xFFFFFF = 0x20BA15 then (0, set_region (16 * 1024 * 1024 div 8) 32 65536 g, h')
              else if i AND 0xFFFFFF = 0x20BA16 then (0, set_region (32 * 1024 * 1024 div 8) 64 65536 g, h')
              else if i AND 0xFFFFFF = 0x20BA17 then (0, set_region (64 * 1024 * 1024 div 8) 128 65536 g, h')
              else if i AND 0xFFFFFF = 0x20BA18 then (0, set_region (128 * 1024 * 1024 div 8) 256 65536 g, h')
              else if i AND 0xFF = 0x18 then (0, set_region (128 * 1024 * 1024 div 8) 64 262144 g, h')
              else if i AND 0xFF = 0x19 then
                (0, (set_region (256 * 1024 * 1024 div 8) 512 65536 g)\<lparr>four_bytes_mode := 1\<rparr>, h')
              else if i AND 0xFF = 0x20 then
                (0, (set_region (512 * 1024 * 1024 div 8) 1024 65536 g)\<lparr>four_bytes_mode := 1\<rparr>, h')
              else if i AND 0xFF = 0x21 then
                (0, (set_region (1024 * 1024 * 1024 div 8) 2048 65536 g)\<lparr>four_bytes_mode := 1\<rparr>, h')
              else (- ENODEV, g, h'))
          });
       Some (ret_code, query_finish f2, h2)
     }"

text \<open>\<open>dev\<close> is the address of the device structure, which the list of flash devices links.\<close>

definition alt_flash_device_register :: "addr \<Rightarrow> 'a fdtable_scheme \<Rightarrow> int \<times> 'a fdtable_scheme" where
  "alt_flash_device_register fd s = alt_dev_llist_insert fd (alt_flash_dev_list s) s"

definition alt_epcs_flash_init ::
  "'h bus \<Rightarrow> addr \<Rightarrow> epcs_dev \<Rightarrow> 'a fdtable_scheme \<Rightarrow> 'h \<Rightarrow> (int \<times> epcs_dev \<times> 'a fdtable_scheme \<times> 'h) option" where
  "alt_epcs_flash_init bus dev flash s h =
     do {
       (ret_code, f, h1) \<leftarrow> alt_epcs_flash_query bus flash h;
       Some (if ret_code = 0 then
               (let (r, s1) = alt_flash_device_register dev s in (r, f, s1, h1))
             else (ret_code, f, s, h1))
     }"

definition alt_epcs_flash_get_info :: "epcs_dev \<Rightarrow> int \<times> flash_region list option \<times> int" where
  "alt_epcs_flash_get_info flash =
     (let n = number_of_regions flash in
      if n = 0 then (- EIO, None, n)
      else if n > ALT_MAX_NUMBER_OF_FLASH_REGIONS then (- ENOMEM, None, n)
      else (0, Some (region_info flash), n))"

section \<open>Reading, erasing, writing a block\<close>

text \<open>
  The test of an offset against the last address of the device. The comparison is unsigned, since
  one side is, so that negative offsets are refused as well.
\<close>

definition alt_epcs_test_address :: "epcs_dev \<Rightarrow> int \<Rightarrow> int" where
  "alt_epcs_test_address f offset =
     (let last = region_info f ! unat (word_of_int (number_of_regions f) - 1 :: alt_u32);
          last_device_address = (- 1 + word_of_int (fr_offset last) + word_of_int (region_size last) :: alt_u32)
      in if (word_of_int offset :: alt_u32) > last_device_address then - EIO else 0)"

text \<open>The result and the bytes stored in the destination buffer.\<close>

definition alt_epcs_flash_read ::
  "'h bus \<Rightarrow> epcs_dev \<Rightarrow> int \<Rightarrow> int \<Rightarrow> 'h \<Rightarrow> (int \<times> alt_u8 list \<times> 'h) option" where
  "alt_epcs_flash_read bus f offset len h =
     (let ret_code = alt_epcs_test_address f offset in
      if ret_code \<ge> 0 then
        do {
          (r, dest, h1) \<leftarrow> epcs_read_buffer bus (register_base f) offset len (four_bytes_mode f) h;
          Some (if r = len then 0 else r, dest, h1)
        }
      else Some (ret_code, [], h))"

definition alt_epcs_flash_erase_block :: "'h bus \<Rightarrow> epcs_dev \<Rightarrow> int \<Rightarrow> 'h \<Rightarrow> (int \<times> 'h) option" where
  "alt_epcs_flash_erase_block bus f block_offset h =
     (let ret_code = alt_epcs_test_address f block_offset in
      if ret_code \<ge> 0 then
        do {
          h1 \<leftarrow> epcs_sector_erase bus (register_base f) (word_of_int block_offset) (four_bytes_mode f) h;
          Some (ret_code, h1)
        }
      else Some (ret_code, h))"

text \<open>The loop over the pages. The address is computed with unsigned arithmetic.\<close>

definition next_page_start :: "epcs_dev \<Rightarrow> int \<Rightarrow> int" where
  "next_page_start f data_offset =
     sint ((word_of_int data_offset + page_size f) AND NOT (page_size f - 1) :: alt_u32)"

partial_function (option) epcs_write_pages ::
  "'h bus \<Rightarrow> epcs_dev \<Rightarrow> int \<Rightarrow> alt_u8 list \<Rightarrow> 'h \<Rightarrow> 'h option" where
  "epcs_write_pages bus f data_offset data h =
     (if data = [] then Some h
      else
        let next = next_page_start f data_offset;
            n = nat (min (int (length data)) (next - data_offset)) in
        Option.bind (epcs_write_buffer bus (register_base f) data_offset (take n data) (four_bytes_mode f) h)
          (\<lambda>r. epcs_write_pages bus f next (drop n data) (snd r)))"

definition alt_epcs_flash_write_block ::
  "'h bus \<Rightarrow> epcs_dev \<Rightarrow> int \<Rightarrow> int \<Rightarrow> alt_u8 list \<Rightarrow> 'h \<Rightarrow> (int \<times> 'h) option" where
  "alt_epcs_flash_write_block bus f block_offset data_offset data h =
     (let ret_code = alt_epcs_test_address f data_offset in
      if ret_code \<ge> 0 then
        do { h1 \<leftarrow> epcs_write_pages bus f data_offset data h; Some (ret_code, h1) }
      else Some (ret_code, h))"

section \<open>Writing\<close>

text \<open>\<^verbatim>\<open>memcmp()\<close> on two buffers of the same length.\<close>

fun mem_compare :: "alt_u8 list \<Rightarrow> alt_u8 list \<Rightarrow> int" where
  "mem_compare (a # as) (b # bs) = (if a = b then mem_compare as bs else uint a - uint b)"
| "mem_compare _ _ = 0"

lemma mem_compare_0_iff: "length as = length bs \<Longrightarrow> mem_compare as bs = 0 \<longleftrightarrow> as = bs"
  by (induction as bs rule: mem_compare.induct) (auto simp: word_uint_eq_iff)

text \<open>Comparing the flash with a buffer, 32 bytes at a time.\<close>

function alt_epcs_flash_memcmp :: "'h bus \<Rightarrow> epcs_dev \<Rightarrow> alt_u8 list \<Rightarrow> int \<Rightarrow> 'h \<Rightarrow> (int \<times> 'h) option" where
  "alt_epcs_flash_memcmp bus f src offset h =
     (if src = [] then Some (0, h)
      else
        let this_chunk_size = (if length src > 32 then 32 else length src) in
        Option.bind (alt_epcs_flash_read bus f offset (int this_chunk_size) h) (\<lambda>(rc, chunk, h1).
          if rc < 0 then Some (- 1, h1)
          else
            let this_chunk_cmp = mem_compare (take this_chunk_size src) chunk in
            if this_chunk_cmp \<noteq> 0 then Some (this_chunk_cmp, h1)
            else alt_epcs_flash_memcmp bus f (drop this_chunk_size src) (offset + int this_chunk_size) h1))"
  by pat_completeness auto
termination by (relation "measure (\<lambda>(bus, f, src, offset, h). length src)") auto

declare alt_epcs_flash_memcmp.simps [simp del]

text \<open>
  The loop over the blocks of a region: \<open>j\<close> blocks are left, the next one at \<open>cur\<close>. The first
  component of the result says that the write is finished.
\<close>

fun epcs_write_blocks ::
  "'h bus \<Rightarrow> epcs_dev \<Rightarrow> int \<Rightarrow> nat \<Rightarrow> int \<Rightarrow> int \<Rightarrow> alt_u8 list \<Rightarrow> int \<Rightarrow> 'h
   \<Rightarrow> (bool \<times> int \<times> alt_u8 list \<times> int \<times> 'h) option" where
  "epcs_write_blocks bus f bs 0 cur offset src rc h = Some (False, offset, src, rc, h)"
| "epcs_write_blocks bus f bs (Suc j) cur offset src rc h =
     (if offset \<ge> cur \<and> offset < cur + bs then
        let n = nat (min (cur + bs - offset) (int (length src))) in
        do {
          (cmp, h1) \<leftarrow> alt_epcs_flash_memcmp bus f (take n src) offset h;
          (rc1, h2) \<leftarrow>
            (if cmp \<noteq> 0 then
               do {
                 (e, h') \<leftarrow> alt_epcs_flash_erase_block bus f cur h1;
                 if e = 0 then alt_epcs_flash_write_block bus f cur offset (take n src) h'
                 else Some (e, h')
               }
             else Some (rc, h1));
          if length src = n \<or> rc1 \<noteq> 0 then Some (True, offset, src, rc1, h2)
          else epcs_write_blocks bus f bs j (cur + bs) (cur + bs) (drop n src) rc1 h2
        }
      else epcs_write_blocks bus f bs j (cur + bs) offset src rc h)"

fun epcs_write_regions ::
  "'h bus \<Rightarrow> epcs_dev \<Rightarrow> flash_region list \<Rightarrow> int \<Rightarrow> alt_u8 list \<Rightarrow> int \<Rightarrow> 'h \<Rightarrow> (int \<times> 'h) option" where
  "epcs_write_regions bus f [] offset src rc h = Some (rc, h)"
| "epcs_write_regions bus f (r # rs) offset src rc h =
     (if offset \<ge> fr_offset r \<and> offset < fr_offset r + region_size r then
        do {
          (fin, offset', src', rc', h') \<leftarrow>
            epcs_write_blocks bus f (block_size r) (nat (number_of_blocks r)) (fr_offset r) offset src rc h;
          if fin then Some (rc', h') else epcs_write_regions bus f rs offset' src' rc' h'
        }
      else epcs_write_regions bus f rs offset src rc h)"

definition alt_epcs_flash_write ::
  "'h bus \<Rightarrow> epcs_dev \<Rightarrow> int \<Rightarrow> alt_u8 list \<Rightarrow> 'h \<Rightarrow> (int \<times> 'h) option" where
  "alt_epcs_flash_write bus flash_info offset src h =
     epcs_write_regions bus flash_info (take (nat (number_of_regions flash_info)) (region_info flash_info)) offset src 0 h"

section \<open>The interface of programs\<close>

text \<open>
  The inline functions of \<^verbatim>\<open>HAL/inc/sys/alt_flash.h\<close> call through the function pointers of
  \<^verbatim>\<open>alt_flash_dev\<close>. None is tested; \<^verbatim>\<open>lock\<close> is the one that a driver may leave null.
\<close>

record ('d, 'h) flash_funs =
  fl_write :: "'d \<Rightarrow> int \<Rightarrow> alt_u8 list \<Rightarrow> 'h \<Rightarrow> (int \<times> 'h) option"
  fl_read :: "'d \<Rightarrow> int \<Rightarrow> int \<Rightarrow> 'h \<Rightarrow> (int \<times> alt_u8 list \<times> 'h) option"
  fl_get_info :: "'d \<Rightarrow> int \<times> flash_region list option \<times> int"
  fl_erase_block :: "'d \<Rightarrow> int \<Rightarrow> 'h \<Rightarrow> (int \<times> 'h) option"
  fl_write_block :: "'d \<Rightarrow> int \<Rightarrow> int \<Rightarrow> alt_u8 list \<Rightarrow> 'h \<Rightarrow> (int \<times> 'h) option"
  fl_lock :: "('d \<Rightarrow> alt_u32 \<Rightarrow> 'h \<Rightarrow> int \<times> 'h) option"

definition alt_lock_flash :: "('d, 'h) flash_funs \<Rightarrow> 'd \<Rightarrow> alt_u32 \<Rightarrow> 'h \<Rightarrow> (int \<times> 'h) c_result" where
  "alt_lock_flash F fd sectors_to_lock h =
     (case fl_lock F of None \<Rightarrow> Inl Null_Pointer | Some lock \<Rightarrow> Inr (lock fd sectors_to_lock h))"

definition alt_write_flash :: "('d, 'h) flash_funs \<Rightarrow> 'd \<Rightarrow> int \<Rightarrow> alt_u8 list \<Rightarrow> 'h \<Rightarrow> (int \<times> 'h) option" where
  "alt_write_flash F fd offset src h = fl_write F fd offset src h"

definition alt_read_flash ::
  "('d, 'h) flash_funs \<Rightarrow> 'd \<Rightarrow> int \<Rightarrow> int \<Rightarrow> 'h \<Rightarrow> (int \<times> alt_u8 list \<times> 'h) option" where
  "alt_read_flash F fd offset len h = fl_read F fd offset len h"

definition alt_get_flash_info :: "('d, 'h) flash_funs \<Rightarrow> 'd \<Rightarrow> int \<times> flash_region list option \<times> int" where
  "alt_get_flash_info F fd = fl_get_info F fd"

text \<open>The length of the block is not used.\<close>

definition alt_erase_flash_block :: "('d, 'h) flash_funs \<Rightarrow> 'd \<Rightarrow> int \<Rightarrow> int \<Rightarrow> 'h \<Rightarrow> (int \<times> 'h) option" where
  "alt_erase_flash_block F fd offset len h = fl_erase_block F fd offset h"

definition alt_write_flash_block ::
  "('d, 'h) flash_funs \<Rightarrow> 'd \<Rightarrow> int \<Rightarrow> int \<Rightarrow> alt_u8 list \<Rightarrow> 'h \<Rightarrow> (int \<times> 'h) option" where
  "alt_write_flash_block F fd block_offset data_offset data h = fl_write_block F fd block_offset data_offset data h"

text \<open>The functions that \<^verbatim>\<open>ALTERA_AVALON_EPCS_FLASH_CONTROLLER_INSTANCE\<close> puts in.\<close>

definition epcs_funs :: "'h bus \<Rightarrow> (epcs_dev, 'h) flash_funs" where
  "epcs_funs bus = \<lparr>fl_write = alt_epcs_flash_write bus, fl_read = alt_epcs_flash_read bus,
     fl_get_info = alt_epcs_flash_get_info, fl_erase_block = alt_epcs_flash_erase_block bus,
     fl_write_block = alt_epcs_flash_write_block bus, fl_lock = None\<rparr>"

lemma flash_api [simp]:
  "alt_write_flash (epcs_funs bus) = alt_epcs_flash_write bus"
  "alt_read_flash (epcs_funs bus) = alt_epcs_flash_read bus"
  "alt_get_flash_info (epcs_funs bus) = alt_epcs_flash_get_info"
  by (simp_all add: fun_eq_iff alt_write_flash_def alt_read_flash_def alt_get_flash_info_def epcs_funs_def)

text \<open>Locking sectors of this device calls a null pointer.\<close>

lemma alt_lock_flash_faults: "alt_lock_flash (epcs_funs bus) fd n h = Inl Null_Pointer"
  by (simp add: alt_lock_flash_def epcs_funs_def)

section \<open>Geometry\<close>

text \<open>
  A device structure that describes a chip of \<open>cap\<close> bytes in sectors of \<open>sec\<close> bytes at \<open>base\<close>: what
  recognising a chip establishes and the operations rely on.
\<close>

definition flash_geometry :: "epcs_dev \<Rightarrow> addr \<Rightarrow> nat \<Rightarrow> nat \<Rightarrow> bool" where
  "flash_geometry f base cap sec \<longleftrightarrow>
     register_base f = base \<and> number_of_regions f = 1 \<and> page_size f = 256
     \<and> (\<exists>n rs. region_info f = \<lparr>fr_offset = 0, region_size = int cap, number_of_blocks = int n,
                               block_size = int sec\<rparr> # rs \<and> cap = n * sec)
     \<and> 0 < sec \<and> 0 < cap \<and> cap \<le> 1073741824 \<and> size_in_bytes f = of_nat cap
     \<and> (four_bytes_mode f \<noteq> 0 \<or> cap \<le> 16777216)"

lemma test_address:
  assumes "flash_geometry f base cap sec" "- 2147483648 \<le> off" "off < 2147483648"
  shows "alt_epcs_test_address f off = (if 0 \<le> off \<and> off < int cap then 0 else - EIO)"
proof -
  have f: "number_of_regions f = 1" "0 < cap" "cap \<le> 1073741824"
    and r: "region_size (region_info f ! 0) = int cap" "fr_offset (region_info f ! 0) = 0"
    using assms(1) by (auto simp: flash_geometry_def)
  have l: "uint (of_nat cap - 1 :: alt_u32) = int cap - 1"
  proof -
    have "(of_nat cap - 1 :: alt_u32) = word_of_int (int cap - 1)" by simp
    then show ?thesis
      using f(2,3) by (simp only: unsigned_of_int) (simp add: take_bit_int_eq_self)
  qed
  have o: "uint (word_of_int off :: alt_u32) = (if 0 \<le> off then off else off + 4294967296)"
  proof (cases "0 \<le> off")
    case False
    then have "(off + 4294967296) mod 4294967296 = off + 4294967296"
      using assms(2) by (intro mod_pos_pos_trivial) auto
    then show ?thesis using False by (simp add: unsigned_of_int take_bit_eq_mod)
  qed (use assms(3) in \<open>simp add: unsigned_of_int take_bit_int_eq_self\<close>)
  show ?thesis
    using f(2,3) assms(2) by (auto simp: alt_epcs_test_address_def f(1) r word_less_def l o)
qed

lemma page_boundary:
  assumes "page_size f = 256" "0 \<le> off" "off < 1073741824"
  shows "next_page_start f off = (off div 256 + 1) * 256"
proof -
  let ?w = "word_of_int off + 256 :: alt_u32"
  have u: "uint ?w = off + 256"
  proof -
    have "?w = word_of_int (off + 256)" by simp
    then show ?thesis using assms(2,3) by (simp only: unsigned_of_int) (simp add: take_bit_int_eq_self)
  qed
  have "?w AND NOT (mask 8) = push_bit 8 (drop_bit 8 ?w)"
    by (rule bit_word_eqI) (auto simp: bit_simps)
  then have "?w AND NOT 255 = push_bit 8 (drop_bit 8 ?w)" by (simp add: mask_eq_exp_minus_1)
  then have "uint (?w AND NOT 255) = take_bit 32 (push_bit 8 (drop_bit 8 (uint ?w)))"
    by (simp only: unsigned_push_bit_eq unsigned_drop_bit_eq) (simp add: take_bit_int_eq_self uint_32_bounds)
  also have "\<dots> = take_bit 32 ((off + 256) div 256 * 256)"
    unfolding u by (simp add: push_bit_eq_mult drop_bit_eq_div)
  also have "\<dots> = (off + 256) div 256 * 256"
    using assms(2,3) by (intro take_bit_int_eq_self) auto
  moreover have "(off + 256) div 256 = off div 256 + 1" by simp
  ultimately have "uint (?w AND NOT 255) = (off div 256 + 1) * 256" by simp
  then show ?thesis
    using assms by (simp add: next_page_start_def sint_32)
qed


section \<open>The operations on a chip\<close>

lemma capacity_positive: "flash_geometry f base cap sec \<Longrightarrow> cap \<le> 1073741824 \<and> 0 < sec"
  by (auto simp: flash_geometry_def)

context epcs_device
begin

lemma geometry_fields:
  assumes "flash_geometry f base capacity sector"
  shows "register_base f = base" "page_size f = 256" "capacity \<le> 1073741824" "0 < sector"
    and "x \<le> capacity \<Longrightarrow> four_bytes_mode f \<noteq> 0 \<or> x \<le> 16777216"
    and "x < capacity \<Longrightarrow> four_bytes_mode f \<noteq> 0 \<or> x < 16777216"
  using assms by (auto simp: flash_geometry_def)

lemma flash_read:
  assumes g: "flash_geometry f base capacity sector" and "quiet h False m"
    and "0 \<le> off" "nat off < capacity" "nat off + n \<le> capacity"
  shows "\<exists>h'. alt_epcs_flash_read bus f off (int n) h = Some (0, map m [nat off..<nat off + n], h') \<and> quiet h' False m"
proof -
  have "alt_epcs_test_address f off = 0"
    using test_address [OF g, of off] geometry_fields(3) [OF g] assms(3,4) by auto
  moreover have "\<exists>h'. epcs_read_buffer bus base off (int n) (four_bytes_mode f) h
      = Some (int n, map m [nat off..<nat off + n], h') \<and> quiet h' False m"
    using read_buffer [OF assms(2,3), of "int n" "four_bytes_mode f"] assms(5) geometry_fields(3) [OF g]
      geometry_fields(5) [OF g assms(5)] by auto
  ultimately show ?thesis
    by (auto simp: alt_epcs_flash_read_def geometry_fields(1) [OF g])
qed

lemma flash_erase:
  assumes g: "flash_geometry f base capacity sector" and "quiet h False m" and "0 \<le> off" "nat off < capacity"
  shows "\<exists>h'. alt_epcs_flash_erase_block bus f off h = Some (0, h')
    \<and> quiet h' False (\<lambda>x. if x div sector = nat off div sector then 0xFF else m x)"
proof -
  have "alt_epcs_test_address f off = 0"
    using test_address [OF g, of off] geometry_fields(3) [OF g] assms(3,4) by auto
  moreover have n: "unat (word_of_int off :: alt_u32) = nat off"
    using assms(3,4) geometry_fields(3) [OF g] by (simp add: unsigned_of_int take_bit_int_eq_self)
  ultimately show ?thesis
    using sector_erase [OF assms(2), of "word_of_int off" "four_bytes_mode f", unfolded n, OF assms(4)]
      geometry_fields(6) [OF g assms(4)]
    by (auto simp: alt_epcs_flash_erase_block_def geometry_fields(1) [OF g])
qed

lemma programmed_Nil [simp]: "programmed m a [] = m"
  by (auto simp: programmed_def fun_eq_iff)

lemma programmed_append:
  "programmed (programmed m a xs) (a + length xs) ys = programmed m a (xs @ ys)"
  by (auto simp: programmed_def fun_eq_iff nth_append)

lemma write_pages:
  assumes g: "flash_geometry f base capacity sector" and "quiet h False m" and "0 \<le> off" "nat off + length data \<le> capacity"
  shows "\<exists>h'. epcs_write_pages bus f off data h = Some h' \<and> quiet h' False (programmed m (nat off) data)"
  using assms(2-)
proof (induction "length data" arbitrary: data off h m rule: less_induct)
  case less
  show ?case
  proof (cases "data = []")
    case True
    then show ?thesis using less.prems by (simp add: epcs_write_pages.simps)
  next
    case False
    let ?nxt = "(off div 256 + 1) * 256"
    define n where "n = nat (min (int (length data)) (?nxt - off))"
    have small: "off < 1073741824" using less.prems(3) geometry_fields(3) [OF g] False by (cases data) auto
    have nx: "next_page_start f off = ?nxt"
      using page_boundary [OF geometry_fields(2) [OF g] less.prems(2) small] .
    have n: "0 < n" "n \<le> length data" "nat off mod 256 + n \<le> 256"
    proof -
      have "off < ?nxt" "?nxt - off + off mod 256 = 256" by presburger+
      moreover have "nat off mod 256 = nat (off mod 256)" "0 \<le> off mod 256"
        using less.prems(2) by (simp_all add: nat_mod_distrib)
      moreover have "0 < length data" using False by simp
      ultimately show "0 < n" "n \<le> length data" "nat off mod 256 + n \<le> 256" unfolding n_def by linarith+
    qed
    have lt: "length (drop n data) < length data" using n by simp
    have t: "take n data \<noteq> []" "length (take n data) = n" using n False by auto
    have step: "epcs_write_pages bus f off data h =
        Option.bind (epcs_write_buffer bus base off (take n data) (four_bytes_mode f) h)
          (\<lambda>r. epcs_write_pages bus f ?nxt (drop n data) (snd r))" for h
      using False by (subst epcs_write_pages.simps) (simp add: nx Let_def geometry_fields(1) [OF g] n_def)
    obtain h1 where h1: "epcs_write_buffer bus base off (take n data) (four_bytes_mode f) h = Some (int n, h1)"
        "quiet h1 False (programmed m (nat off) (take n data))"
      using write_buffer [OF less.prems(1,2) t(1), unfolded t(2), of "four_bytes_mode f"] n(2,3) less.prems(3)
        geometry_fields(3) [OF g] geometry_fields(5) [OF g, of "nat off + n"] by auto
    have nxt: "drop n data \<noteq> [] \<Longrightarrow> nat ?nxt = nat off + n"
      using less.prems(2) n(1) by (auto simp: n_def nat_eq_iff)
    show ?thesis
    proof (cases "drop n data = []")
      case True
      then show ?thesis
        using h1 by (simp add: step epcs_write_pages.simps [of _ _ _ "[]"])
    next
      case False
      obtain h2 where "epcs_write_pages bus f ?nxt (drop n data) h1 = Some h2"
        "quiet h2 False (programmed (programmed m (nat off) (take n data)) (nat ?nxt) (drop n data))"
        using less.hyps [OF lt h1(2), of ?nxt] n(2) less.prems(2,3) nxt [OF False] by auto
      then show ?thesis
        using h1(1) nxt [OF False] programmed_append [of m "nat off" "take n data" "drop n data"] t(2)
        by (simp add: step)
    qed
  qed
qed

lemma flash_memcmp:
  assumes g: "flash_geometry f base capacity sector" and "quiet h False m" and "0 \<le> off"
    and "nat off + length src \<le> capacity"
  shows "\<exists>c h'. alt_epcs_flash_memcmp bus f src off h = Some (c, h') \<and> quiet h' False m
    \<and> (c = 0 \<longleftrightarrow> map m [nat off..<nat off + length src] = src)"
  using assms(2-)
proof (induction "length src" arbitrary: src off h rule: less_induct)
  case less
  show ?case
  proof (cases "src = []")
    case True
    then show ?thesis using less.prems by (simp add: alt_epcs_flash_memcmp.simps)
  next
    case False
    define n where "n = (if length src > 32 then 32 else length src)"
    have n: "0 < n" "n \<le> length src" "nat (off + int n) = nat off + n"
      using False less.prems(2) by (auto simp: n_def)
    let ?chunk = "map m [nat off..<nat off + n]"
    obtain h1 where h1: "alt_epcs_flash_read bus f off (int n) h = Some (0, ?chunk, h1)" "quiet h1 False m"
      using flash_read [OF g less.prems(1,2), of n] n less.prems(3) by auto
    have cmp: "mem_compare (take n src) ?chunk = 0 \<longleftrightarrow> take n src = ?chunk"
      using n by (intro mem_compare_0_iff) simp
    have step: "alt_epcs_flash_memcmp bus f src off h =
        (if take n src \<noteq> ?chunk then Some (mem_compare (take n src) ?chunk, h1)
         else alt_epcs_flash_memcmp bus f (drop n src) (off + int n) h1)"
      using False h1(1) cmp by (subst alt_epcs_flash_memcmp.simps) (simp add: Let_def flip: n_def)
    have split: "map m [nat off..<nat off + length src] = ?chunk @ map m [nat off + n..<nat off + length src]"
      using n upt_add_eq_append [of "nat off" "nat off + n" "length src - n"] by simp
    have same: "map m [nat off..<nat off + length src] = src \<longleftrightarrow>
        take n src = ?chunk \<and> map m [nat off + n..<nat off + length src] = drop n src"
      unfolding split using n by (metis append_eq_conv_conj append_take_drop_id length_map length_upt add_diff_cancel_left')
    show ?thesis
    proof (cases "take n src = ?chunk")
      case True
      then show ?thesis
        using less.hyps [of "drop n src" h1 "off + int n"] h1(2) n less.prems(2,3) by (simp add: step same)
    next
      case False
      then show ?thesis using h1(2) cmp by (simp add: step same)
    qed
  qed
qed

lemma write_block:
  assumes g: "flash_geometry f base capacity sector" and "quiet h False m" and "0 \<le> off" "nat off < capacity"
    and "nat off + length data \<le> capacity"
  shows "\<exists>h'. alt_epcs_flash_write_block bus f blk off data h = Some (0, h')
    \<and> quiet h' False (programmed m (nat off) data)"
proof -
  have "alt_epcs_test_address f off = 0"
    using test_address [OF g, of off] geometry_fields(3) [OF g] assms(3,4) by auto
  then show ?thesis
    using write_pages [OF g assms(2,3,5)] by (auto simp: alt_epcs_flash_write_block_def)
qed

end

text \<open>
  What a write leaves behind: the data where they belong, and nothing changed in the sectors that
  they do not touch.
\<close>

definition written :: "nat \<Rightarrow> (nat \<Rightarrow> alt_u8) \<Rightarrow> (nat \<Rightarrow> alt_u8) \<Rightarrow> nat \<Rightarrow> alt_u8 list \<Rightarrow> bool" where
  "written sec m m' a bs \<longleftrightarrow> map m' [a..<a + length bs] = bs
     \<and> (\<forall>x. (\<forall>i<length bs. (a + i) div sec \<noteq> x div sec) \<longrightarrow> m' x = m x)"

lemma written_Nil [simp]: "written sec m m' a [] \<longleftrightarrow> m' = m"
  by (auto simp: written_def)

lemma written_append:
  assumes "written sec m m1 a xs" "written sec m1 m' (a + length xs) ys"
    and "\<And>i j. i < length xs \<Longrightarrow> j < length ys \<Longrightarrow> (a + i) div sec \<noteq> (a + length xs + j) div sec"
  shows "written sec m m' a (xs @ ys)"
proof -
  have "m' (a + i) = m1 (a + i)" if "i < length xs" for i
  proof -
    have "\<forall>j<length ys. (a + length xs + j) div sec \<noteq> (a + i) div sec"
      using assms(3) [OF that] by metis
    then show ?thesis using assms(2) by (simp add: written_def)
  qed
  then have "map m' [a..<a + length xs] = map m1 [a..<a + length xs]"
    by (intro nth_equalityI) simp_all
  also have "\<dots> = xs" using assms(1) by (simp add: written_def)
  finally have pre: "map m' [a..<a + length xs] = xs" .
  have "[a..<a + length (xs @ ys)] = [a..<a + length xs] @ [a + length xs..<a + length xs + length ys]"
    using upt_add_eq_append [of a "a + length xs" "length ys"] by (simp add: add.assoc)
  then have "map m' [a..<a + length (xs @ ys)] = xs @ ys"
    using assms(2) pre by (simp only: map_append written_def)
  moreover have "m' x = m x" if "\<forall>i<length (xs @ ys). (a + i) div sec \<noteq> x div sec" for x
  proof -
    have "(a + i) div sec \<noteq> x div sec" if "i < length xs" for i
      using that \<open>\<forall>i<length (xs @ ys). _\<close> by simp
    moreover have "(a + length xs + i) div sec \<noteq> x div sec" if "i < length ys" for i
      using that \<open>\<forall>i<length (xs @ ys). _\<close> by (simp add: add.assoc)
    ultimately show ?thesis using assms(1,2) by (auto simp: written_def)
  qed
  ultimately show ?thesis by (simp add: written_def)
qed

lemma map_eq_written:
  assumes "map m [a..<a + length bs] = bs"
  shows "written sec m m a bs"
  using assms by (simp add: written_def)

context epcs_device
begin

lemma write_one_block:
  assumes g: "flash_geometry f base capacity sector" and q: "quiet h False m"
    and off: "int (k * sector) \<le> off" "nat off + length d \<le> Suc k * sector" "nat off < capacity"
    and k: "Suc k * sector \<le> capacity"
  shows "\<exists>m' h'. Option.bind (alt_epcs_flash_memcmp bus f d off h) (\<lambda>(c, h1).
        if c \<noteq> 0 then
          Option.bind (alt_epcs_flash_erase_block bus f (int (k * sector)) h1) (\<lambda>(e, h'').
            if e = 0 then alt_epcs_flash_write_block bus f (int (k * sector)) off d h'' else Some (e, h''))
        else Some (0, h1)) = Some (0, h')
    \<and> quiet h' False m' \<and> written sector m m' (nat off) d"
proof -
  have s: "0 < sector" using geometry_fields(4) [OF g] .
  have o: "0 \<le> off" "nat off + length d \<le> capacity"
  proof -
    show "0 \<le> off" using off(1) by (meson of_nat_0_le_iff order_trans)
    show "nat off + length d \<le> capacity" using off(2) k by (rule order_trans)
  qed
  obtain c h1 where c: "alt_epcs_flash_memcmp bus f d off h = Some (c, h1)" "quiet h1 False m"
      "c = 0 \<longleftrightarrow> map m [nat off..<nat off + length d] = d"
    using flash_memcmp [OF g q o] by blast
  show ?thesis
  proof (cases "c = 0")
    case True
    then show ?thesis using c map_eq_written by auto
  next
    case False
    let ?m1 = "\<lambda>x. if x div sector = k then 0xFF else m x"
    have "nat (int (k * sector)) div sector = k" using s by (simp only: nat_int) simp
    moreover have "nat (int (k * sector)) < capacity" using off(1,3) by linarith
    ultimately obtain h2 where h2: "alt_epcs_flash_erase_block bus f (int (k * sector)) h1 = Some (0, h2)" "quiet h2 False ?m1"
      using flash_erase [OF g c(2), of "int (k * sector)"] by auto
    obtain h3 where h3: "alt_epcs_flash_write_block bus f (int (k * sector)) off d h2 = Some (0, h3)"
        "quiet h3 False (programmed ?m1 (nat off) d)"
      using write_block [OF g h2(2) o(1) off(3) o(2)] by blast
    have sec: "(nat off + i) div sector = k" if "i < length d" for i
    proof (rule div_nat_eqI)
      show "sector * k \<le> nat off + i" using off(1) by (subst mult.commute) linarith
      show "nat off + i < sector * Suc k" using that off(2) by (subst mult.commute) linarith
    qed
    have ff: "(0xFF :: alt_u8) AND b = b" for b
    proof -
      have "mask 8 AND b = b" by (rule bit_word_eqI) (auto simp: bit_simps)
      then show ?thesis by (simp add: mask_eq_exp_minus_1)
    qed
    have "map (programmed ?m1 (nat off) d) [nat off..<nat off + length d] = d"
      by (rule nth_equalityI) (simp_all add: programmed_def sec ff)
    moreover have "programmed ?m1 (nat off) d x = m x" if "\<forall>i<length d. (nat off + i) div sector \<noteq> x div sector" "d \<noteq> []" for x
    proof -
      have nk: "x div sector \<noteq> k" using that sec [of 0] by auto
      moreover have "\<not> (nat off \<le> x \<and> x < nat off + length d)"
      proof
        assume x: "nat off \<le> x \<and> x < nat off + length d"
        then have "x - nat off < length d" by linarith
        from sec [OF this] x nk show False by simp
      qed
      ultimately show ?thesis by (auto simp: programmed_def)
    qed
    moreover have "d \<noteq> []" using False c(3) by auto
    ultimately have "written sector m (programmed ?m1 (nat off) d) (nat off) d"
      by (simp add: written_def)
    then show ?thesis using c(1) False h2(1) h3 by auto
  qed
qed

lemma write_blocks:
  assumes g: "flash_geometry f base capacity sector" and "quiet h False m"
    and "(k + j) * sector = capacity" "int (k * sector) \<le> off"
  shows "\<exists>fin off' src' h' m'. epcs_write_blocks bus f (int sector) j (int (k * sector)) off src 0 h
      = Some (fin, off', src', 0, h') \<and> quiet h' False m'
    \<and> written sector m m' (nat off) (take (capacity - nat off) src)"
  using assms(2-)
proof (induction j arbitrary: k off src h m)
  case 0
  then show ?case by auto
next
  case (Suc j)
  have s: "0 < sector" using geometry_fields(4) [OF g] .
  have cap: "(Suc k + j) * sector = capacity" using Suc.prems(2) by simp
  then have le: "Suc k * sector \<le> capacity" by (metis le_add1 mult_le_mono1)
  have cur: "int (k * sector) + int sector = int (Suc k * sector)" by simp
  show ?case
  proof (cases "off < int (Suc k * sector)")
    case False
    then show ?thesis
      using Suc.IH [OF Suc.prems(1) cap, of off src] by (simp add: cur del: mult_Suc of_nat_mult)
  next
    case True
    define n where "n = nat (min (int (Suc k * sector) - off) (int (length src)))"
    have n: "n \<le> length src" "nat off + n \<le> Suc k * sector" "n < length src \<Longrightarrow> nat off + n = Suc k * sector"
    proof -
      have "0 \<le> off" using Suc.prems(3) by (meson of_nat_0_le_iff order_trans)
      then show "n \<le> length src" "nat off + n \<le> Suc k * sector" "n < length src \<Longrightarrow> nat off + n = Suc k * sector"
        using True unfolding n_def by linarith+
    qed
    have o: "nat off < capacity" using True le Suc.prems(3) by linarith
    have l: "length (take n src) = n" using n(1) by simp
    obtain m1 h1 where w: "Option.bind (alt_epcs_flash_memcmp bus f (take n src) off h) (\<lambda>(c, h1).
        if c \<noteq> 0 then
          Option.bind (alt_epcs_flash_erase_block bus f (int (k * sector)) h1) (\<lambda>(e, h'').
            if e = 0 then alt_epcs_flash_write_block bus f (int (k * sector)) off (take n src) h'' else Some (e, h''))
        else Some (0, h1)) = Some (0, h1)"
      "quiet h1 False m1" "written sector m m1 (nat off) (take n src)"
      using write_one_block [OF g Suc.prems(1,3) _ o le, of "take n src", unfolded l, OF n(2)] by blast
    have step: "epcs_write_blocks bus f (int sector) (Suc j) (int (k * sector)) off src 0 h =
        (if length src = n then Some (True, off, src, 0, h1)
         else epcs_write_blocks bus f (int sector) j (int (Suc k * sector)) (int (Suc k * sector)) (drop n src) 0 h1)"
      using w(1) True Suc.prems(3)
      by (auto simp: cur n_def [symmetric] simp del: mult_Suc of_nat_mult split: Option.bind_splits if_splits)
    show ?thesis
    proof (cases "length src = n")
      case True
      then show ?thesis using step w n(2) le by auto
    next
      case False
      then have nx: "nat off + n = Suc k * sector" using n by simp
      let ?rest = "take (capacity - Suc k * sector) (drop n src)"
      obtain fin off' src' h' m' where r: "epcs_write_blocks bus f (int sector) j (int (Suc k * sector))
            (int (Suc k * sector)) (drop n src) 0 h1 = Some (fin, off', src', 0, h')" "quiet h' False m'"
          "written sector m1 m' (Suc k * sector) ?rest"
        using Suc.IH [OF w(2) cap order_refl, of "drop n src", unfolded nat_int] by blast
      have apart: "(nat off + i) div sector \<noteq> (nat off + n + i') div sector" if "i < n" for i i'
      proof -
        have "(nat off + i) div sector < Suc k"
          using that nx s by (intro less_mult_imp_div_less) simp
        moreover have "Suc k \<le> (nat off + n + i') div sector"
          unfolding nx using s by (simp add: div_mult_self3 del: mult_Suc)
        ultimately show ?thesis by simp
      qed
      have "capacity - nat off = n + (capacity - Suc k * sector)" using nx le by linarith
      then have "take n src @ ?rest = take (capacity - nat off) src" by (simp only: take_add)
      moreover have "written sector m m' (nat off) (take n src @ ?rest)"
        using written_append [OF w(3), of m' ?rest] r(3) apart l nx by simp
      moreover have "epcs_write_blocks bus f (int sector) (Suc j) (int (k * sector)) off src 0 h = Some (fin, off', src', 0, h')"
        using step False r(1) by (simp only: if_False)
      ultimately show ?thesis using r(2) by auto
    qed
  qed
qed

text \<open>The driver's write: everything that lies on the chip is written, and success is reported.\<close>

lemma flash_write:
  assumes g: "flash_geometry f base capacity sector" and "quiet h False m"
  shows "\<exists>h' m'. alt_epcs_flash_write bus f off src h = Some (0, h') \<and> quiet h' False m'
    \<and> written sector m m' (nat off) (if off < 0 then [] else take (capacity - nat off) src)"
proof -
  obtain n rs where r: "region_info f = \<lparr>fr_offset = 0, region_size = int capacity,
      number_of_blocks = int n, block_size = int sector\<rparr> # rs" and n: "capacity = n * sector" and one: "number_of_regions f = 1"
    using g by (auto simp: flash_geometry_def)
  show ?thesis
  proof (cases "0 \<le> off \<and> off < int capacity")
    case True
    then obtain fin off' src' h' m' where w:
        "epcs_write_blocks bus f (int sector) n 0 off src 0 h = Some (fin, off', src', 0, h')" "quiet h' False m'"
        "written sector m m' (nat off) (take (capacity - nat off) src)"
      using write_blocks [OF g assms(2), of 0 n off src] n by auto
    have "alt_epcs_flash_write bus f off src h = Some (0, h')"
      using True w(1) by (simp add: alt_epcs_flash_write_def one r)
    then show ?thesis using w True by auto
  next
    case False
    have "alt_epcs_flash_write bus f off src h = Some (0, h)"
      using False by (auto simp: alt_epcs_flash_write_def one r)
    moreover have "(if off < 0 then [] else take (capacity - nat off) src) = []"
      using False by auto
    ultimately show ?thesis using assms(2) by (intro exI [of _ h] exI [of _ m]) simp
  qed
qed

end

end
