(* ===== verification/Epcs_System.thy ===== *)
theory Epcs_System
  imports Epcs_Flash
begin

text \<open>
  The flash driver put together: what recognising a chip establishes, a simulated EPCS1 on which
  everything can be run, and the properties of writing and reading.
\<close>

section \<open>Recognising a chip\<close>

lemma geometryI:
  assumes "register_base f = base" "number_of_regions f = 1" "page_size f = 256"
    and "region_info f = \<lparr>fr_offset = 0, region_size = int cap, number_of_blocks = int n, block_size = int sec\<rparr> # rs"
    and "cap = n * sec" "0 < sec" "0 < cap" "cap \<le> 1073741824" "size_in_bytes f = of_nat cap"
    and "four_bytes_mode f \<noteq> 0 \<longleftrightarrow> 16777216 < cap"
  shows "flash_geometry f base cap sec"
  using assms by (auto simp: flash_geometry_def)

text \<open>An entry of the query's table describes a chip of \<open>nb\<close> blocks of \<open>nc\<close> bytes.\<close>

lemma query_entry:
  assumes "region_info g \<noteq> []" "a = b * c" "0 < b" "0 < c" "a \<le> 1073741824"
    and "four_bytes_mode g \<noteq> 0 \<longleftrightarrow> 16777216 < a"
    and "register_base g = base" "cap = nat a" "sec = nat c"
  shows "flash_geometry (query_finish (set_region a b c g)) base cap sec"
proof -
  obtain r rs where r: "region_info g = r # rs" using assms(1) by (cases "region_info g") auto
  obtain nb nc where n: "b = int nb" "c = int nc" using assms(3,4) by (metis zero_less_imp_eq_int)
  have a: "a = int (nb * nc)" using assms(2) n by simp
  have "16777216 < a \<longleftrightarrow> 16777216 < nb * nc" unfolding a by linarith
  moreover have "nb * nc \<le> 1073741824" using assms(5) unfolding a by linarith
  ultimately have "flash_geometry (query_finish (set_region (int (nb * nc)) (int nb) (int nc) g)) (register_base g) (nb * nc) nc"
    using assms(3,4,6) n r
    by (intro geometryI [where n = nb and rs = rs]) (simp_all add: query_finish_def set_region_def)
  moreover have "cap = nb * nc" "sec = nc" using assms(8,9) n by (simp_all add: a del: of_nat_mult)
  ultimately show ?thesis using assms(7) n by (simp only: a)
qed

lemma query_finish_four [simp]:
  "four_bytes_mode (query_finish (set_region a b c g)) = four_bytes_mode g"
  by (simp add: query_finish_def set_region_def)

text \<open>
  What a chip is taken for, from its electronic signature and the bytes of its device id:
  the density in megabits and the size of a sector. The signature counts the density in powers of
  two; so does the device id up to 256 Mbit, and then goes on from 0x20.
\<close>

definition recognised :: "alt_u8 \<Rightarrow> alt_u8 list \<Rightarrow> (nat \<times> nat) option" where
  "recognised sig ids =
     (if sig \<in> {0x10, 0x12, 0x13, 0x14, 0x16}
      then Some (2 ^ (unat sig - 16), if sig = 0x10 then 32768 else 65536)
      else if take 2 ids = [0x20, 0xBA] \<and> ids ! 2 \<in> {0x15, 0x16, 0x17, 0x18}
      then Some (2 ^ (unat (ids ! 2) - 17), 65536)
      else map_of [(0x18, (128, 262144)), (0x19, (256, 65536)), (0x20, (512, 65536)), (0x21, (1024, 65536))]
             (ids ! 2))"

text \<open>The three bytes in the word that the driver compares.\<close>

definition id_word :: "alt_u8 \<Rightarrow> alt_u8 \<Rightarrow> alt_u8 \<Rightarrow> alt_u32" where
  "id_word m t d = push_bit 16 (ucast m) OR push_bit 8 (ucast t) OR ucast d"

lemma id_word_bytes:
  "ucast (id_word m t d) = d" "ucast (drop_bit 8 (id_word m t d)) = t" "ucast (drop_bit 16 (id_word m t d)) = m"
  "id_word m t d AND 0xFFFFFF = id_word m t d" "id_word m t d AND 0xFF = ucast d"
proof -
  have "x AND 0xFFFFFF = take_bit 24 x" for x :: alt_u32
    by (simp add: take_bit_eq_mask mask_eq_exp_minus_1)
  then show "id_word m t d AND 0xFFFFFF = id_word m t d"
    by (simp add: id_word_def) (rule bit_word_eqI, auto simp: bit_simps dest: bit_imp_le_length)
  show "ucast (id_word m t d) = d" "ucast (drop_bit 8 (id_word m t d)) = t"
    "ucast (drop_bit 16 (id_word m t d)) = m" "id_word m t d AND 0xFF = ucast d"
    unfolding id_word_def and_low_mask_32
    by (rule bit_word_eqI; auto simp: bit_simps dest: bit_imp_le_length)+
qed

lemma id_word_eq: "id_word m t d = id_word m' t' d' \<longleftrightarrow> m = m' \<and> t = t' \<and> d = d'"
  using id_word_bytes(1-3) by metis

lemma id_word_tests:
  "id_word m t d = 0x20BA15 \<longleftrightarrow> m = 0x20 \<and> t = 0xBA \<and> d = 0x15"
  "id_word m t d = 0x20BA16 \<longleftrightarrow> m = 0x20 \<and> t = 0xBA \<and> d = 0x16"
  "id_word m t d = 0x20BA17 \<longleftrightarrow> m = 0x20 \<and> t = 0xBA \<and> d = 0x17"
  "id_word m t d = 0x20BA18 \<longleftrightarrow> m = 0x20 \<and> t = 0xBA \<and> d = 0x18"
  using id_word_eq [of m t d "0x20" "0xBA" "0x15"] id_word_eq [of m t d "0x20" "0xBA" "0x16"]
    id_word_eq [of m t d "0x20" "0xBA" "0x17"] id_word_eq [of m t d "0x20" "0xBA" "0x18"]
  by (simp_all add: id_word_def [of "0x20"])

lemma set_region_four [simp]:
  "(set_region a b c g)\<lparr>four_bytes_mode := x\<rparr> = set_region a b c (g\<lparr>four_bytes_mode := x\<rparr>)"
  by (simp add: set_region_def)

lemma transact_length: "transact select deselect shift bs c = (rs, c') \<Longrightarrow> length rs = length bs"
  by (auto simp: transact_def split_beta)

text \<open>The two commands of the query, on any chip.\<close>

lemma query_command:
  assumes "spi_master bus base 0 chip select deselect shift inflight ready arrived delay"
    and "inflight h = None" "wdata \<noteq> []"
    and "transact select deselect shift (wdata @ replicate (unat rlen) 0) (chip h) = (rs, c)"
  shows "\<exists>h'. alt_avalon_spi_command bus base 0 wdata rlen 0 h = Some (sint rlen, drop (length wdata) rs, h')
    \<and> inflight h' = None \<and> chip h' = c"
proof -
  obtain c1 where "exchange shift (wdata @ replicate (unat rlen) 0) (select (chip h)) = (rs, c1)" "c = deselect c1"
    using assms(4) by (auto simp: transact_def split_beta prod_eq_iff)
  then show ?thesis
    using spi_master.command_exchanges [OF assms(1,2), of 0 wdata rlen rs c1] assms(3) by auto
qed

lemma query_signature:
  assumes "spi_master bus base 0 chip select deselect shift inflight ready arrived delay"
    and "inflight h = None" "transact select deselect shift [epcs_res, 0, 0, 0, 0] (chip h) = (rs, c)"
  shows "\<exists>h'. epcs_read_electronic_signature bus base h = Some (rs ! 4, h')
    \<and> inflight h' = None \<and> chip h' = c"
  using query_command [OF assms(1,2), of "[epcs_res, 0, 0, 0]" 1 rs c] assms(3) transact_length [OF assms(3)]
  by (auto simp: epcs_read_electronic_signature_def eval_nat_numeral)

lemma query_id:
  assumes "spi_master bus base 0 chip select deselect shift inflight ready arrived delay"
    and "inflight h = None" "transact select deselect shift [epcs_rdid, 0, 0, 0] (chip h) = (rs, c)"
  shows "\<exists>h'. epcs_read_device_id bus base h = Some (id_word (rs ! 1) (rs ! 2) (rs ! 3), h')"
proof -
  have "[epcs_rdid] @ replicate (unat (3 :: alt_u32)) 0 = [epcs_rdid, 0, 0, 0]"
  proof -
    have "unat (3 :: alt_u32) = Suc (Suc (Suc 0))" by simp
    then show ?thesis by (simp only: replicate.simps append.simps)
  qed
  then obtain h' where "alt_avalon_spi_command bus base 0 [epcs_rdid] 3 0 h = Some (3, drop 1 rs, h')"
    using query_command [OF assms(1,2), of "[epcs_rdid]" 3 rs c] assms(3) by auto
  then show ?thesis
    using transact_length [OF assms(3)] by (simp add: epcs_read_device_id_def id_word_def eval_nat_numeral)
qed

lemma ucast_byte_eq: "(ucast b :: alt_u32) = ucast c \<longleftrightarrow> b = c" for b c :: alt_u8
proof -
  have "(ucast (ucast x :: alt_u32) :: alt_u8) = x" for x :: alt_u8
    by (rule bit_word_eqI) (auto simp: bit_simps dest: bit_imp_le_length)
  then show ?thesis by metis
qed

lemmas byte_tests = ucast_byte_eq [of _ "0x10", simplified] ucast_byte_eq [of _ "0x12", simplified]
  ucast_byte_eq [of _ "0x13", simplified] ucast_byte_eq [of _ "0x14", simplified]
  ucast_byte_eq [of _ "0x16", simplified] ucast_byte_eq [of _ "0x18", simplified]
  ucast_byte_eq [of _ "0x19", simplified] ucast_byte_eq [of _ "0x20", simplified]
  ucast_byte_eq [of _ "0x21", simplified]

section \<open>A simulated chip\<close>

text \<open>
  An EPCS1: 128 KB in sectors of 32 KB. It collects the bytes of a transaction and acts when it is
  deselected; a program or erase command keeps it busy for one status read.
\<close>

record sim_epcs =
  se_in :: "alt_u8 list"
  se_wip :: nat
  se_wel :: bool
  se_four :: bool
  se_mem :: "nat \<Rightarrow> alt_u8"

definition se_address :: "alt_u8 list \<Rightarrow> nat" where
  "se_address bs = foldl (\<lambda>a b. a * 256 + unat b) 0 bs"

definition se_width :: "sim_epcs \<Rightarrow> nat" where
  "se_width c = (if se_four c then 4 else 3)"

definition se_answer :: "sim_epcs \<Rightarrow> alt_u8" where
  "se_answer c =
     (case se_in c of [] \<Rightarrow> 0
      | opc # args \<Rightarrow>
          if opc = epcs_rdsr then (if se_wip c > 0 then 1 else 0)
          else if opc = epcs_res then 0x10
          else if opc = epcs_read \<and> length args \<ge> se_width c then
            se_mem c (se_address (take (se_width c) args) + (length args - se_width c))
          else 0)"

definition se_shift :: "alt_u8 \<Rightarrow> sim_epcs \<Rightarrow> alt_u8 \<times> sim_epcs" where
  "se_shift b c = (se_answer c, c\<lparr>se_in := se_in c @ [b]\<rparr>)"

definition se_execute :: "alt_u8 \<Rightarrow> alt_u8 list \<Rightarrow> sim_epcs \<Rightarrow> sim_epcs" where
  "se_execute opc args c =
     (let a = se_address (take (se_width c) args); bs = drop (se_width c) args in
      if opc = epcs_rdsr then c\<lparr>se_wip := se_wip c - 1\<rparr>
      else if se_wip c > 0 then c
      else if opc = epcs_wren then c\<lparr>se_wel := True\<rparr>
      else if \<not> se_wel c then c
      else if opc = epcs_en4b then c\<lparr>se_four := True\<rparr>
      else if opc = epcs_dis4b then c\<lparr>se_four := False\<rparr>
      else if opc = epcs_pp then
        c\<lparr>se_mem := (\<lambda>x. if a \<le> x \<and> x < a + length bs then se_mem c x AND bs ! (x - a) else se_mem c x),
          se_wip := 1, se_wel := False\<rparr>
      else if opc = epcs_se then
        c\<lparr>se_mem := (\<lambda>x. if x div 32768 = a div 32768 then 0xFF else se_mem c x), se_wip := 1, se_wel := False\<rparr>
      else c)"

definition se_deselect :: "sim_epcs \<Rightarrow> sim_epcs" where
  "se_deselect c =
     (case se_in c of [] \<Rightarrow> c | opc # args \<Rightarrow> (se_execute opc args c)\<lparr>se_in := []\<rparr>)"

lemma se_exchange:
  "exchange se_shift bs c =
     (map (\<lambda>i. se_answer (c\<lparr>se_in := se_in c @ take i bs\<rparr>)) [0..<length bs], c\<lparr>se_in := se_in c @ bs\<rparr>)"
proof (induction bs arbitrary: c)
  case (Cons b bs)
  have upt: "[0..<Suc (length bs)] = 0 # map Suc [0..<length bs]"
    by (simp add: map_Suc_upt upt_conv_Cons del: upt_Suc)
  show ?case by (simp add: se_shift_def [of b c] Cons upt comp_def del: upt_Suc)
qed simp

lemma address_length [simp]: "length (address_bytes f a) = (if f then 4 else 3)"
  by (simp add: address_bytes_def)

lemma se_address_bytes:
  assumes "a < 16777216"
  shows "se_address (address_bytes f a) = a"
proof -
  have "a div 65536 < 256" "a div 16777216 = 0" using assms by auto
  then have "se_address (address_bytes f a) = (a div 65536 * 256 + a div 256 mod 256) * 256 + a mod 256"
    by (simp add: se_address_def address_bytes_def unat_of_nat)
  also have "a div 65536 = a div 256 div 256" by (simp add: div_mult2_eq [symmetric])
  also have "(a div 256 div 256 * 256 + a div 256 mod 256) * 256 + a mod 256 = a" by simp
  finally show ?thesis .
qed

interpretation se: epcs_chip "\<lambda>c. c" se_deselect se_shift "\<lambda>c. se_in c = []" se_wip se_wel se_four se_mem 131072 32768
proof (unfold_locales, goal_cases)
  case (1 c bs)
  show ?case ..
next
  case (2 c rs c')
  then show ?case
    by (auto simp: transact_def se_exchange se_deselect_def se_execute_def se_answer_def Let_def upt_rec simp del: exchange.simps split: if_splits)
next
  case (3 c rs c')
  then show ?case
    by (auto simp: transact_def se_exchange se_deselect_def se_execute_def Let_def opcode_defs simp del: exchange.simps)
next
  case (4 c rs c')
  then show ?case
    by (auto simp: transact_def se_exchange se_deselect_def se_execute_def Let_def opcode_defs simp del: exchange.simps)
next
  case (5 c rs c')
  then show ?case
    by (auto simp: transact_def se_exchange se_deselect_def se_execute_def Let_def opcode_defs simp del: exchange.simps)
next
  case (6 c a n rs c')
  let ?adr = "address_bytes (se_four c) a" and ?w = "length (address_bytes (se_four c) a)"
  have w: "se_width c = ?w" by (simp add: se_width_def)
  let ?cmd = "epcs_read # ?adr @ replicate n 0"
  have len: "length ?cmd = 1 + ?w + n" by simp
  have rs: "rs = map (\<lambda>i. se_answer (c\<lparr>se_in := take i ?cmd\<rparr>)) [0..<1 + ?w + n]"
    using 6(1,5) unfolding transact_def se_exchange len by simp
  have "drop (1 + ?w) rs = map (se_mem c) [a..<a + n]"
  proof (rule nth_equalityI)
    fix i assume "i < length (drop (1 + ?w) rs)"
    then have i: "i < n" by (simp add: rs del: upt_Suc)
    have "drop (1 + ?w) rs ! i = se_answer (c\<lparr>se_in := take (1 + ?w + i) ?cmd\<rparr>)"
      using i by (simp add: rs del: upt_Suc take_Suc_Cons)
    also have "take (1 + ?w + i) ?cmd = epcs_read # ?adr @ replicate i 0"
      using i by (simp add: min_def)
    also have "se_answer (c\<lparr>se_in := \<dots>\<rparr>) = se_mem c (a + i)"
    proof (cases "n = 0")
      case False
      then have "a < 16777216" using 6(3,4) by auto
      then show ?thesis
        by (simp add: se_answer_def opcode_defs se_width_def se_address_bytes)
    qed (use i in simp)
    finally show "drop (1 + ?w) rs ! i = map (se_mem c) [a..<a + n] ! i"
      using i by simp
  qed (simp add: rs del: upt_Suc)
  moreover have "c' = c"
    using 6 by (auto simp: transact_def se_exchange se_deselect_def se_execute_def Let_def opcode_defs simp del: exchange.simps)
  ultimately show ?case using 6 by simp
next
  case (7 c bs a rs c')
  have "a < 16777216" using 7(4,6) by (cases bs) auto
  then show ?case
    using 7 by (auto simp: transact_def se_exchange se_deselect_def se_execute_def Let_def opcode_defs
        se_width_def se_address_bytes simp del: exchange.simps)
next
  case (8 c a rs c')
  then show ?case
    by (auto simp: transact_def se_exchange se_deselect_def se_execute_def Let_def opcode_defs
        se_width_def se_address_bytes simp del: exchange.simps)
qed


text \<open>The simulated core in front of the simulated chip, at the address of the board's controller.\<close>

definition se_bus :: "sim_epcs sim_core bus" where
  "se_bus = sim_core_bus (\<lambda>c. c) se_deselect se_shift"

interpretation epcs1: epcs_device se_bus base sim_chip "\<lambda>c. c" se_deselect se_shift sim_rx "\<lambda>_. True" "\<lambda>_. True" "\<lambda>_. 0"
    "\<lambda>c. se_in c = []" se_wip se_wel se_four se_mem 131072 32768 for base
  unfolding epcs_device_def se_bus_def
  by (intro conjI sim_core.spi_master_axioms se.epcs_chip_axioms)

definition se_state :: "(nat \<Rightarrow> alt_u8) \<Rightarrow> sim_epcs sim_core" where
  "se_state m = \<lparr>sim_chip = \<lparr>se_in = [], se_wip = 1, se_wel = False, se_four = False, se_mem = m\<rparr>, sim_rx = None\<rparr>"

definition no_region :: flash_region where
  "no_region = \<lparr>fr_offset = 0, region_size = 0, number_of_blocks = 0, block_size = 0\<rparr>"

definition fresh_flash :: epcs_dev where
  "fresh_flash = \<lparr>number_of_regions = 0, region_info = no_region # replicate 7 no_region,
     register_base = 0x5001400, size_in_bytes = 0, silicon_id = 0, page_size = 0, four_bytes_mode = 0\<rparr>"

definition epcs1_flash :: epcs_dev where
  "epcs1_flash = fresh_flash\<lparr>number_of_regions := 1,
     region_info := \<lparr>fr_offset = 0, region_size = 131072, number_of_blocks = 4, block_size = 32768\<rparr>
       # replicate 7 no_region,
     size_in_bytes := 131072, silicon_id := 0x10, page_size := 256\<rparr>"

lemma epcs1_geometry: "flash_geometry epcs1_flash 0x5001400 131072 32768"
  by (rule geometryI [where n = 4 and rs = "replicate 7 no_region"])
    (simp_all add: epcs1_flash_def fresh_flash_def)

section \<open>Properties\<close>

text \<open>Property C37: whatever chip is on the bus, the query returns. From the electronic signature that
  the chip answers, or else from its device id, it recognises exactly the parts of the table
  \<open>recognised\<close>, and describes each as one region of equal sectors of the part's size that fill
  the part's density, with pages of 256 bytes, and with four address bytes for the parts of more
  than 128 Mbit (which three do not reach). Any other chip is answered by ENODEV.\<close>

theorem alt_epcs_flash_query_geometry:
  assumes "spi_master bus base 0 chip select deselect shift inflight ready arrived delay"
    and "inflight h = None" and "register_base flash = base" and "region_info flash \<noteq> []"
    and "transact select deselect shift [epcs_res, 0, 0, 0, 0] (chip h) = (rs, c)"
    and "transact select deselect shift [epcs_rdid, 0, 0, 0] c = (js, c')"
  shows "\<exists>rc f h'. alt_epcs_flash_query bus flash h = Some (rc, f, h')
    \<and> (case recognised (rs ! 4) (drop 1 js) of
         Some (mbit, sec) \<Rightarrow> rc = 0 \<and> flash_geometry f base (mbit * 131072) sec
           \<and> (four_bytes_mode f \<noteq> 0 \<longleftrightarrow> 128 < mbit)
       | None \<Rightarrow> rc = - ENODEV)"
proof -
  obtain h1 where sig: "epcs_read_electronic_signature bus base h = Some (rs ! 4, h1)"
    and h1: "inflight h1 = None" "chip h1 = c"
    using query_signature [OF assms(1,2,5)] by blast
  obtain h2 where id: "epcs_read_device_id bus base h1 = Some (id_word (js ! 1) (js ! 2) (js ! 3), h2)"
    using query_id [OF assms(1) h1(1) assms(6) [folded h1(2)]] by blast
  have ids: "drop 1 js = [js ! 1, js ! 2, js ! 3]"
    using transact_length [OF assms(6)] by (auto simp: length_Suc_conv eval_nat_numeral)
  define m t d where mtd: "m = js ! 1" "t = js ! 2" "d = js ! 3"
  note facts = assms(3,4) sig id [folded mtd]
    and tests = id_word_tests id_word_bytes byte_tests
  show ?thesis
  proof (cases "rs ! 4 \<in> {0x10, 0x12, 0x13, 0x14, 0x16}")
    case True
    then show ?thesis
      using facts
      by - (elim insertE emptyE,
        simp_all add: alt_epcs_flash_query_def tests split del: if_split cong: if_weak_cong,
        simp_all add: recognised_def, (rule query_entry; simp)+)
  next
    case False
    consider "m = 0x20 \<and> t = 0xBA \<and> d = 0x15" | "m = 0x20 \<and> t = 0xBA \<and> d = 0x16"
      | "m = 0x20 \<and> t = 0xBA \<and> d = 0x17" | "m = 0x20 \<and> t = 0xBA \<and> d = 0x18"
      | "d = 0x18 \<and> m \<noteq> 0x20" | "d = 0x18 \<and> t \<noteq> 0xBA" | "d = 0x19" | "d = 0x20" | "d = 0x21"
      | "d \<notin> {0x18, 0x19, 0x20, 0x21} \<and> m \<noteq> 0x20" | "d \<notin> {0x18, 0x19, 0x20, 0x21} \<and> t \<noteq> 0xBA"
      | "d \<notin> {0x15, 0x16, 0x17, 0x18, 0x19, 0x20, 0x21}"
      by blast
    then show ?thesis
    proof cases
    qed (insert facts False,
      simp_all add: alt_epcs_flash_query_def tests split del: if_split cong: if_weak_cong,
      simp_all add: recognised_def ids [folded mtd, unfolded One_nat_def] tests, (rule query_entry; simp)+)
  qed
qed

text \<open>The query finds the simulated EPCS1.\<close>

theorem alt_epcs_flash_query_geometry_witness:
  "\<exists>f h'. alt_epcs_flash_query se_bus fresh_flash (se_state (\<lambda>_. 0)) = Some (0, f, h')
     \<and> flash_geometry f 0x5001400 131072 32768 \<and> four_bytes_mode f = 0"
proof -
  let ?h = "se_state (\<lambda>_. 0)" and ?c = "sim_chip (se_state (\<lambda>_. 0))"
  have master: "spi_master se_bus base 0 sim_chip (\<lambda>c. c) se_deselect se_shift sim_rx (\<lambda>_. True) (\<lambda>_. True) (\<lambda>_. 0)"
    for base unfolding se_bus_def by (rule sim_core.spi_master_axioms)
  obtain rs c where sig: "transact (\<lambda>c. c) se_deselect se_shift [epcs_res, 0, 0, 0, 0] ?c = (rs, c)"
    by fastforce
  then have "rs ! 4 = 0x10"
    by (auto simp: transact_def se_exchange se_state_def se_answer_def opcode_defs upt_rec simp del: exchange.simps)
  moreover obtain js c' where "transact (\<lambda>c. c) se_deselect se_shift [epcs_rdid, 0, 0, 0] c = (js, c')" by fastforce
  moreover have "sim_rx ?h = None" "register_base fresh_flash = 0x5001400" "region_info fresh_flash \<noteq> []"
    by (simp_all add: se_state_def fresh_flash_def)
  ultimately show ?thesis
    using alt_epcs_flash_query_geometry [OF master _ _ _ sig] by (fastforce simp: recognised_def)
qed

text \<open>Property C5: on any SPI core and serial flash chip that keep their contracts, a write of data that
  fit on the chip succeeds, reading the same range back returns the data, and the contents of all
  sectors that the data do not touch are unchanged.\<close>

theorem flash_write_then_read:
  assumes "epcs_device bus base chip select deselect shift inflight ready arrived delay idle wip wel four mem cap sec"
    and "flash_geometry f base cap sec"
    and "inflight h = None" "idle (chip h)" "wip (chip h) = 0" "\<not> four (chip h)"
    and "0 \<le> off" "nat off + length src \<le> cap" "nat off < cap"
  shows "\<exists>h1 h2. alt_write_flash (epcs_funs bus) f off src h = Some (0, h1)
    \<and> alt_read_flash (epcs_funs bus) f off (int (length src)) h1 = Some (0, src, h2)
    \<and> (\<forall>x. (\<forall>i<length src. (nat off + i) div sec \<noteq> x div sec) \<longrightarrow> mem (chip h1) x = mem (chip h) x)"
proof -
  note ax = assms(1)
  note q = epcs_device.quiet_def [OF ax] epcs_device.between_def [OF ax]
  have h: "epcs_device.quiet chip inflight idle wip four mem h False (mem (chip h))"
    using assms(3-6) by (simp add: q)
  obtain h1 m' where w: "alt_epcs_flash_write bus f off src h = Some (0, h1)"
      "epcs_device.quiet chip inflight idle wip four mem h1 False m'" "written sec (mem (chip h)) m' (nat off) src"
    using epcs_device.flash_write [OF ax assms(2) h, of off src] assms(7,8) by auto
  obtain h2 where "alt_epcs_flash_read bus f off (int (length src)) h1
      = Some (0, map m' [nat off..<nat off + length src], h2)"
    using epcs_device.flash_read [OF ax assms(2) w(2) assms(7,9,8)] by blast
  then show ?thesis
    using w by (auto simp: written_def q)
qed

definition se_ready :: "(nat \<Rightarrow> alt_u8) \<Rightarrow> sim_epcs sim_core" where
  "se_ready m = \<lparr>sim_chip = \<lparr>se_in = [], se_wip = 0, se_wel = False, se_four = False, se_mem = m\<rparr>, sim_rx = None\<rparr>"

theorem flash_write_then_read_witness:
  "\<exists>h1 h2. alt_write_flash (epcs_funs se_bus) epcs1_flash 32766 [1, 2, 3, 4] (se_ready (\<lambda>_. 7)) = Some (0, h1)
    \<and> alt_read_flash (epcs_funs se_bus) epcs1_flash 32766 4 h1 = Some (0, [1, 2, 3, 4], h2)
    \<and> se_mem (sim_chip h1) 65536 = 7"
proof -
  have h: "sim_rx (se_ready m) = None" "se_in (sim_chip (se_ready m)) = []" "se_wip (sim_chip (se_ready m)) = 0"
    "\<not> se_four (sim_chip (se_ready m))" for m
    by (simp_all add: se_ready_def)
  have apart: "\<forall>i<length [1, 2, 3, 4 :: alt_u8]. (nat 32766 + i) div 32768 \<noteq> 65536 div 32768"
    by auto
  obtain h1 h2 where "alt_epcs_flash_write se_bus epcs1_flash 32766 [1, 2, 3, 4] (se_ready (\<lambda>_. 7)) = Some (0, h1)"
    "alt_epcs_flash_read se_bus epcs1_flash 32766 (int (length [1, 2, 3, 4 :: alt_u8])) h1 = Some (0, [1, 2, 3, 4], h2)"
    "se_mem (sim_chip h1) 65536 = se_mem (sim_chip (se_ready (\<lambda>_. 7))) 65536"
    using flash_write_then_read [OF epcs1.epcs_device_axioms epcs1_geometry h, of 32766 "[1, 2, 3, 4]" "\<lambda>_. 7"] apart by auto
  then show ?thesis by (auto simp: se_ready_def)
qed

text \<open>Property C36: a write reports success wherever it starts and however long it is. What does not lie
  on the chip is silently dropped; only a read from there is refused.\<close>

theorem flash_write_off_chip_succeeds:
  assumes "epcs_device bus base chip select deselect shift inflight ready arrived delay idle wip wel four mem cap sec"
    and "flash_geometry f base cap sec"
    and "inflight h = None" "idle (chip h)" "wip (chip h) = 0" "\<not> four (chip h)"
  shows "\<exists>h1. alt_epcs_flash_write bus f off src h = Some (0, h1)
    \<and> written sec (mem (chip h)) (mem (chip h1)) (nat off) (if off < 0 then [] else take (cap - nat off) src)"
proof -
  note q = epcs_device.quiet_def [OF assms(1)] epcs_device.between_def [OF assms(1)]
  have h: "epcs_device.quiet chip inflight idle wip four mem h False (mem (chip h))"
    using assms(3-6) by (simp add: q)
  show ?thesis
    using epcs_device.flash_write [OF assms(1,2) h, of off src] by (auto simp: q)
qed

theorem flash_write_off_chip_succeeds_witness:
  "\<exists>h1. alt_epcs_flash_write se_bus epcs1_flash 200000 [1, 2] (se_ready (\<lambda>_. 7)) = Some (0, h1)
    \<and> se_mem (sim_chip h1) = (\<lambda>_. 7)"
proof -
  have h: "sim_rx (se_ready m) = None" "se_in (sim_chip (se_ready m)) = []" "se_wip (sim_chip (se_ready m)) = 0"
    "\<not> se_four (sim_chip (se_ready m))" for m
    by (simp_all add: se_ready_def)
  show ?thesis
    using flash_write_off_chip_succeeds [OF epcs1.epcs_device_axioms epcs1_geometry h, of 200000 "[1, 2]" "\<lambda>_. 7"]
    by (auto simp: se_ready_def)
qed

end
