(* ===== verification/I2c.thy ===== *)
theory I2c
  imports Hal_Prelude
begin

text \<open>
  The bit-banged I2C master of \<^verbatim>\<open>LT24/I2C.c\<close>: two parallel ports drive the clock and the data
  line. What the pins do is a list of events; a monitor reads it the way the devices on the bus
  do. The properties say which frames the driver's transactions are. \<^verbatim>\<open>SCL_DELAY\<close> and the
  debug messages do not touch the pins and are left out.
\<close>

section \<open>The driver\<close>

text \<open>Registers of \<^verbatim>\<open>altera_avalon_pio_regs.h\<close>.\<close>

definition PIO_DATA :: nat where "PIO_DATA = 0"
definition PIO_DIRECTION :: nat where "PIO_DIRECTION = 1"

text \<open>The macros for the two lines; the clock and data ports are named by their addresses.\<close>

definition SDA_DIR_IN :: "'h bus \<Rightarrow> addr \<Rightarrow> 'h \<Rightarrow> 'h" where
  "SDA_DIR_IN bus data_base h = iowr bus data_base PIO_DIRECTION 0 h"
definition SDA_DIR_OUT :: "'h bus \<Rightarrow> addr \<Rightarrow> 'h \<Rightarrow> 'h" where
  "SDA_DIR_OUT bus data_base h = iowr bus data_base PIO_DIRECTION 1 h"
definition SDA_HIGH :: "'h bus \<Rightarrow> addr \<Rightarrow> 'h \<Rightarrow> 'h" where
  "SDA_HIGH bus data_base h = iowr bus data_base PIO_DATA 1 h"
definition SDA_LOW :: "'h bus \<Rightarrow> addr \<Rightarrow> 'h \<Rightarrow> 'h" where
  "SDA_LOW bus data_base h = iowr bus data_base PIO_DATA 0 h"
definition SDA_READ :: "'h bus \<Rightarrow> addr \<Rightarrow> 'h \<Rightarrow> bool \<times> 'h" where
  "SDA_READ bus data_base h = (let (v, h1) = iord bus data_base PIO_DATA h in (v \<noteq> 0, h1))"
definition SCL_HIGH :: "'h bus \<Rightarrow> addr \<Rightarrow> 'h \<Rightarrow> 'h" where
  "SCL_HIGH bus clk_base h = iowr bus clk_base PIO_DATA 1 h"
definition SCL_LOW :: "'h bus \<Rightarrow> addr \<Rightarrow> 'h \<Rightarrow> 'h" where
  "SCL_LOW bus clk_base h = iowr bus clk_base PIO_DATA 0 h"

text \<open>The delay loop; its result is the final value of the counter.\<close>

function my_wait_loop :: "int \<Rightarrow> int \<Rightarrow> int" where
  "my_wait_loop nWait i = (if i < nWait then my_wait_loop nWait (i + 1) else i)"
  by pat_completeness auto
termination by (relation "measure (\<lambda>(nWait, i). nat (nWait - i))") auto

definition my_wait :: "int \<Rightarrow> int" where "my_wait nWait = my_wait_loop nWait 0"

definition i2c_start :: "'h bus \<Rightarrow> addr \<Rightarrow> addr \<Rightarrow> 'h \<Rightarrow> 'h" where
  "i2c_start bus clk dat h =
     (let h1 = SDA_DIR_OUT bus dat h;
          h2 = SDA_HIGH bus dat h1;
          h3 = SCL_HIGH bus clk h2;
          h4 = SDA_LOW bus dat h3
      in SCL_LOW bus clk h4)"

definition i2c_stop :: "'h bus \<Rightarrow> addr \<Rightarrow> addr \<Rightarrow> 'h \<Rightarrow> 'h" where
  "i2c_stop bus clk dat h =
     (let h1 = SDA_DIR_OUT bus dat h;
          h2 = SDA_LOW bus dat h1;
          h3 = SCL_HIGH bus clk h2
      in SDA_HIGH bus dat h3)"

text \<open>The loop over the bits of a byte: \<open>i\<close> rounds are left.\<close>

fun i2c_write_bits :: "'h bus \<Rightarrow> addr \<Rightarrow> addr \<Rightarrow> nat \<Rightarrow> alt_u8 \<Rightarrow> alt_u8 \<Rightarrow> 'h \<Rightarrow> 'h" where
  "i2c_write_bits bus clk dat 0 Data Mask h = h"
| "i2c_write_bits bus clk dat (Suc i) Data Mask h =
     (let h1 = SCL_LOW bus clk h;
          h2 = (if Data AND Mask \<noteq> 0 then SDA_HIGH bus dat h1 else SDA_LOW bus dat h1);
          h3 = SCL_HIGH bus clk h2;
          h4 = SCL_LOW bus clk h3
      in i2c_write_bits bus clk dat i Data (drop_bit 1 Mask) h4)"

text \<open>Waiting for the acknowledge: \<open>left\<close> more reads are allowed after the next one.\<close>

fun i2c_wait_ack :: "'h bus \<Rightarrow> addr \<Rightarrow> nat \<Rightarrow> 'h \<Rightarrow> 'h" where
  "i2c_wait_ack bus dat left h =
     (let (level, h1) = SDA_READ bus dat h in
      if level then (case left of 0 \<Rightarrow> h1 | Suc n \<Rightarrow> i2c_wait_ack bus dat n h1) else h1)"

declare i2c_wait_ack.simps [simp del]

definition i2c_write :: "'h bus \<Rightarrow> addr \<Rightarrow> addr \<Rightarrow> alt_u8 \<Rightarrow> 'h \<Rightarrow> bool \<times> 'h" where
  "i2c_write bus clk dat Data h =
     (let h1 = SDA_DIR_OUT bus dat h;
          h2 = i2c_write_bits bus clk dat 8 Data 0x80 h1;
          h3 = SDA_DIR_IN bus dat h2;
          h4 = i2c_wait_ack bus dat 1000000 h3;
          h5 = SCL_HIGH bus clk h4;
          (level, h6) = SDA_READ bus dat h5
      in (\<not> level, SCL_LOW bus clk h6))"

fun i2c_read_bits :: "'h bus \<Rightarrow> addr \<Rightarrow> addr \<Rightarrow> nat \<Rightarrow> alt_u8 \<Rightarrow> 'h \<Rightarrow> alt_u8 \<times> 'h" where
  "i2c_read_bits bus clk dat 0 Data h = (Data, h)"
| "i2c_read_bits bus clk dat (Suc i) Data h =
     (let Data1 = push_bit 1 Data;
          h1 = SCL_HIGH bus clk h;
          (level, h2) = SDA_READ bus dat h1;
          Data2 = (if level then Data1 OR 1 else Data1);
          h3 = SCL_LOW bus clk h2
      in i2c_read_bits bus clk dat i Data2 h3)"

definition i2c_read :: "'h bus \<Rightarrow> addr \<Rightarrow> addr \<Rightarrow> bool \<Rightarrow> 'h \<Rightarrow> alt_u8 \<times> 'h" where
  "i2c_read bus clk dat bAck h =
     (let h1 = SDA_DIR_IN bus dat h;
          h2 = SCL_LOW bus clk h1;
          (Data, h3) = i2c_read_bits bus clk dat 8 0 h2;
          h4 = SCL_LOW bus clk h3;
          h5 = SDA_DIR_OUT bus dat h4;
          h6 = (if bAck then SDA_LOW bus dat h5 else SDA_HIGH bus dat h5);
          h7 = SCL_HIGH bus clk h6;
          h8 = SCL_LOW bus clk h7
      in (Data, SDA_LOW bus dat h8))"

section \<open>Transactions\<close>

text \<open>
  \<^verbatim>\<open>if (bSuccess && !i2c_write(...)) bSuccess = FALSE\<close>: the next byte goes out if all went well
  so far.
\<close>

definition i2c_try :: "'h bus \<Rightarrow> addr \<Rightarrow> addr \<Rightarrow> alt_u8 \<Rightarrow> bool \<times> 'h \<Rightarrow> bool \<times> 'h" where
  "i2c_try bus clk dat Data s =
     (if fst s then i2c_write bus clk dat Data (snd s) else s)"

text \<open>\<open>usleep\<close> is the HAL's delay, in microseconds.\<close>

definition I2C_Write ::
  "'h bus \<Rightarrow> (nat \<Rightarrow> 'h \<Rightarrow> 'h) \<Rightarrow> addr \<Rightarrow> addr \<Rightarrow> alt_u8 \<Rightarrow> alt_u8 \<Rightarrow> alt_u8 \<Rightarrow> 'h \<Rightarrow> bool \<times> 'h" where
  "I2C_Write bus usleep clk dat DeviceAddr ControlAddr ControlData h =
     (let h1 = i2c_start bus clk dat h;
          s1 = i2c_try bus clk dat DeviceAddr (True, h1);
          s2 = i2c_try bus clk dat ControlAddr s1;
          s3 = i2c_try bus clk dat ControlData s2
      in (fst s3, usleep (7 * 1000) (i2c_stop bus clk dat (snd s3))))"

definition I2C_Write16 ::
  "'h bus \<Rightarrow> (nat \<Rightarrow> 'h \<Rightarrow> 'h) \<Rightarrow> addr \<Rightarrow> addr \<Rightarrow> alt_u8 \<Rightarrow> alt_u8 \<Rightarrow> alt_u16 \<Rightarrow> 'h \<Rightarrow> bool \<times> 'h" where
  "I2C_Write16 bus usleep clk dat DeviceAddr ControlAddr ControlData h =
     (let HighByte = ucast (drop_bit 8 ControlData AND 0xFF);
          LowByte = ucast (ControlData AND 0xFF);
          h1 = i2c_start bus clk dat h;
          s1 = i2c_try bus clk dat DeviceAddr (True, h1);
          s2 = i2c_try bus clk dat ControlAddr s1;
          s3 = i2c_try bus clk dat HighByte s2;
          s4 = i2c_try bus clk dat LowByte s3
      in (fst s4, usleep (7 * 1000) (i2c_stop bus clk dat (snd s4))))"

text \<open>A read returns the byte stored, if one was.\<close>

definition I2C_Read ::
  "'h bus \<Rightarrow> addr \<Rightarrow> addr \<Rightarrow> alt_u8 \<Rightarrow> alt_u8 \<Rightarrow> 'h \<Rightarrow> (bool \<times> alt_u8 option) \<times> 'h" where
  "I2C_Read bus clk dat DeviceAddr ControlAddr h =
     (let h1 = i2c_start bus clk dat h;
          s1 = i2c_try bus clk dat DeviceAddr (True, h1);
          s2 = i2c_try bus clk dat ControlAddr s1;
          h2 = i2c_start bus clk dat (snd s2);
          s3 = i2c_try bus clk dat (DeviceAddr OR 1) (fst s2, h2);
          (d, h3) = (if fst s3 then (let (b, t) = i2c_read bus clk dat False (snd s3) in (Some b, t))
                     else (None, snd s3))
      in ((fst s3, d), i2c_stop bus clk dat h3))"

definition I2C_Read16 ::
  "'h bus \<Rightarrow> addr \<Rightarrow> addr \<Rightarrow> alt_u8 \<Rightarrow> alt_u8 \<Rightarrow> 'h \<Rightarrow> (bool \<times> alt_u16 option) \<times> 'h" where
  "I2C_Read16 bus clk dat DeviceAddr ControlAddr h =
     (let h1 = i2c_start bus clk dat h;
          s1 = i2c_try bus clk dat DeviceAddr (True, h1);
          s2 = i2c_try bus clk dat ControlAddr s1;
          h2 = i2c_start bus clk dat (snd s2);
          s3 = i2c_try bus clk dat (DeviceAddr OR 1) (fst s2, h2);
          (d, h3) = (if fst s3 then
                       (let (HighByte, t) = i2c_read bus clk dat True (snd s3);
                            (LowByte, u) = i2c_read bus clk dat False t
                        in (Some (push_bit 8 (ucast HighByte) OR ucast LowByte), u))
                     else (None, snd s3))
      in ((fst s3, d), i2c_stop bus clk dat h3))"

text \<open>The loop of the multiple reads; the last byte is not acknowledged.\<close>

fun i2c_read_all :: "'h bus \<Rightarrow> addr \<Rightarrow> addr \<Rightarrow> nat \<Rightarrow> 'h \<Rightarrow> alt_u8 list \<times> 'h" where
  "i2c_read_all bus clk dat 0 h = ([], h)"
| "i2c_read_all bus clk dat (Suc n) h =
     (let (b, h1) = i2c_read bus clk dat (n \<noteq> 0) h;
          (bs, h2) = i2c_read_all bus clk dat n h1
      in (b # bs, h2))"

definition I2C_MultipleRead ::
  "'h bus \<Rightarrow> addr \<Rightarrow> addr \<Rightarrow> alt_u8 \<Rightarrow> alt_u8 \<Rightarrow> alt_u16 \<Rightarrow> 'h \<Rightarrow> (bool \<times> alt_u8 list) \<times> 'h" where
  "I2C_MultipleRead bus clk dat DeviceAddr ControlAddr len h =
     (let h1 = i2c_start bus clk dat h;
          s1 = i2c_try bus clk dat DeviceAddr (True, h1);
          s2 = i2c_try bus clk dat ControlAddr s1;
          h2 = (if fst s2 then i2c_start bus clk dat (snd s2) else snd s2);
          s3 = i2c_try bus clk dat (DeviceAddr OR 1) (fst s2, h2);
          (bs, h3) = (if fst s3 then i2c_read_all bus clk dat (unat len) (snd s3) else ([], snd s3))
      in ((fst s3, bs), i2c_stop bus clk dat h3))"

text \<open>The variants for devices with two address bytes.\<close>

definition addr_high :: "alt_u16 \<Rightarrow> alt_u8" where "addr_high a = ucast (drop_bit 8 a AND 0xFF)"
definition addr_low :: "alt_u16 \<Rightarrow> alt_u8" where "addr_low a = ucast (a AND 0xFF)"

lemma addr_bytes: "addr_high a = ucast (drop_bit 8 a)" "addr_low a = ucast a"
proof -
  have "ucast (x AND mask 8) = (ucast x :: alt_u8)" for x :: alt_u16
    by (rule bit_word_eqI) (simp add: bit_simps)
  then have "ucast (x AND 0xFF) = (ucast x :: alt_u8)" for x :: alt_u16
    by (simp add: mask_eq_exp_minus_1)
  then show "addr_high a = ucast (drop_bit 8 a)" "addr_low a = ucast a"
    by (simp_all add: addr_high_def addr_low_def)
qed

definition I2CL_Write ::
  "'h bus \<Rightarrow> (nat \<Rightarrow> 'h \<Rightarrow> 'h) \<Rightarrow> addr \<Rightarrow> addr \<Rightarrow> alt_u8 \<Rightarrow> alt_u16 \<Rightarrow> alt_u8 \<Rightarrow> 'h \<Rightarrow> bool \<times> 'h" where
  "I2CL_Write bus usleep clk dat DeviceAddr ControlAddr ControlData h =
     (let h1 = i2c_start bus clk dat h;
          s1 = i2c_try bus clk dat DeviceAddr (True, h1);
          s2 = i2c_try bus clk dat (addr_high ControlAddr) s1;
          s3 = i2c_try bus clk dat (addr_low ControlAddr) s2;
          s4 = i2c_try bus clk dat ControlData s3
      in (fst s4, usleep (7 * 1000) (i2c_stop bus clk dat (snd s4))))"

definition I2CL_Read ::
  "'h bus \<Rightarrow> addr \<Rightarrow> addr \<Rightarrow> alt_u8 \<Rightarrow> alt_u16 \<Rightarrow> 'h \<Rightarrow> (bool \<times> alt_u8 option) \<times> 'h" where
  "I2CL_Read bus clk dat DeviceAddr ControlAddr h =
     (let h1 = i2c_start bus clk dat h;
          s1 = i2c_try bus clk dat DeviceAddr (True, h1);
          s2 = i2c_try bus clk dat (addr_high ControlAddr) s1;
          s3 = i2c_try bus clk dat (addr_low ControlAddr) s2;
          h2 = i2c_start bus clk dat (snd s3);
          s4 = i2c_try bus clk dat (DeviceAddr OR 1) (fst s3, h2);
          (d, h3) = (if fst s4 then (let (b, t) = i2c_read bus clk dat False (snd s4) in (Some b, t))
                     else (None, snd s4))
      in ((fst s4, d), i2c_stop bus clk dat h3))"

definition I2CL_MultipleRead ::
  "'h bus \<Rightarrow> addr \<Rightarrow> addr \<Rightarrow> alt_u8 \<Rightarrow> alt_u16 \<Rightarrow> alt_u16 \<Rightarrow> 'h \<Rightarrow> (bool \<times> alt_u8 list) \<times> 'h" where
  "I2CL_MultipleRead bus clk dat DeviceAddr ControlAddr len h =
     (let h1 = i2c_start bus clk dat h;
          s1 = i2c_try bus clk dat DeviceAddr (True, h1);
          s2 = i2c_try bus clk dat (addr_high ControlAddr) s1;
          s3 = i2c_try bus clk dat (addr_low ControlAddr) s2;
          h2 = (if fst s3 then i2c_start bus clk dat (snd s3) else snd s3);
          s4 = i2c_try bus clk dat (DeviceAddr OR 1) (fst s3, h2);
          (bs, h3) = (if fst s4 then i2c_read_all bus clk dat (unat len) (snd s4) else ([], snd s4))
      in ((fst s4, bs), i2c_stop bus clk dat h3))"

text \<open>The loop of the multiple write: it stops at the first byte that is not acknowledged.\<close>

fun i2c_write_all :: "'h bus \<Rightarrow> addr \<Rightarrow> addr \<Rightarrow> alt_u8 list \<Rightarrow> bool \<times> 'h \<Rightarrow> bool \<times> 'h" where
  "i2c_write_all bus clk dat [] s = s"
| "i2c_write_all bus clk dat (b # bs) s =
     (if fst s then i2c_write_all bus clk dat bs (i2c_write bus clk dat b (snd s)) else s)"

text \<open>The \<open>len\<close> bytes at \<^verbatim>\<open>szData\<close> are a list.\<close>

definition I2CL_MultipleWrite ::
  "'h bus \<Rightarrow> (nat \<Rightarrow> 'h \<Rightarrow> 'h) \<Rightarrow> addr \<Rightarrow> addr \<Rightarrow> alt_u8 \<Rightarrow> alt_u16 \<Rightarrow> alt_u8 list \<Rightarrow> 'h \<Rightarrow> bool \<times> 'h" where
  "I2CL_MultipleWrite bus usleep clk dat DeviceAddr ControlAddr szData h =
     (let h1 = i2c_start bus clk dat h;
          s1 = i2c_try bus clk dat DeviceAddr (True, h1);
          s2 = i2c_try bus clk dat (addr_high ControlAddr) s1;
          s3 = i2c_try bus clk dat (addr_low ControlAddr) s2;
          s4 = (if fst s3 then i2c_write_all bus clk dat szData s3 else s3)
      in (fst s4, usleep (7 * 1000) (i2c_stop bus clk dat (snd s4))))"

definition I2CL_Read16 ::
  "'h bus \<Rightarrow> addr \<Rightarrow> addr \<Rightarrow> alt_u8 \<Rightarrow> alt_u16 \<Rightarrow> 'h \<Rightarrow> (bool \<times> alt_u16 option) \<times> 'h" where
  "I2CL_Read16 bus clk dat DeviceAddr ControlAddr h =
     (let ((ok, szData), h1) = I2CL_MultipleRead bus clk dat DeviceAddr ControlAddr 2 h
      in ((ok, if ok then Some (push_bit 8 (ucast (szData ! 0)) OR ucast (szData ! 1)) else None), h1))"

definition I2CL_Write16 ::
  "'h bus \<Rightarrow> (nat \<Rightarrow> 'h \<Rightarrow> 'h) \<Rightarrow> addr \<Rightarrow> addr \<Rightarrow> alt_u8 \<Rightarrow> alt_u16 \<Rightarrow> alt_u16 \<Rightarrow> 'h \<Rightarrow> bool \<times> 'h" where
  "I2CL_Write16 bus usleep clk dat DeviceAddr ControlAddr ControlData h =
     I2CL_MultipleWrite bus usleep clk dat DeviceAddr ControlAddr
       [ucast (drop_bit 8 ControlData AND 0xFF), ucast (ControlData AND 0xFF)] h"

section \<open>What the devices on the bus see\<close>

text \<open>
  The two lines as far as the master drives them: levels and direction. A device sees a start
  or stop condition when the data line moves while the clock is high, and a bit when the clock
  rises; a bit of the device is what the master reads while the clock is high. \<open>Glitch\<close> is a
  change of direction under a high clock, which nobody could interpret.
\<close>

datatype pin_event = Scl bool | Sda bool | Dir bool | Rd bool

datatype bus_symbol = Start | Stop | Sent bool | Got bool | Glitch

record wires =
  w_scl :: bool
  w_sda :: bool
  w_out :: bool

fun observe :: "pin_event \<Rightarrow> bus_symbol list \<times> wires \<Rightarrow> bus_symbol list \<times> wires" where
  "observe (Scl b) (ss, w) =
     (ss @ (if b \<and> \<not> w_scl w \<and> w_out w then [Sent (w_sda w)] else []), w\<lparr>w_scl := b\<rparr>)"
| "observe (Sda b) (ss, w) =
     (ss @ (if w_scl w \<and> w_out w \<and> b \<noteq> w_sda w then [if b then Stop else Start] else []), w\<lparr>w_sda := b\<rparr>)"
| "observe (Dir b) (ss, w) = (ss @ (if w_scl w \<and> b \<noteq> w_out w then [Glitch] else []), w\<lparr>w_out := b\<rparr>)"
| "observe (Rd v) (ss, w) = (ss @ (if w_scl w \<and> \<not> w_out w then [Got v] else []), w)"

text \<open>A byte on the line, most significant bit first, and back.\<close>

definition msb_bits :: "alt_u8 \<Rightarrow> bool list" where
  "msb_bits b = map (bit b) [7, 6, 5, 4, 3, 2, 1, 0]"

definition byte_of :: "bool list \<Rightarrow> alt_u8" where
  "byte_of bs = foldl (\<lambda>a b. push_bit 1 a OR of_bool b) 0 bs"

lemma bit_shift_in:
  "bit (push_bit 1 a OR of_bool b :: alt_u8) n \<longleftrightarrow> (if n = 0 then b else n < 8 \<and> bit a (n - 1))"
  unfolding bit_or_iff bit_push_bit_iff bit_of_bool_iff by (auto simp: possible_bit_word)

lemma bits_of_byte: "byte_of (msb_bits b) = b"
proof (rule bit_word_eqI)
  fix n assume "n < LENGTH(8)"
  then consider "n = 0" | "n = 1" | "n = 2" | "n = 3" | "n = 4" | "n = 5" | "n = 6" | "n = 7"
    by fastforce
  then show "bit (byte_of (msb_bits b)) n \<longleftrightarrow> bit b n"
    unfolding byte_of_def msb_bits_def by cases (simp_all only: foldl_Cons foldl_Nil list.map bit_shift_in, simp_all)
qed

lemma byte_of_bits:
  assumes "length vs = 8"
  shows "msb_bits (byte_of vs) = vs"
proof -
  obtain a b c d e f g h where "vs = [a, b, c, d, e, f, g, h]"
    using assms by (auto simp: eval_nat_numeral length_Suc_conv)
  then show ?thesis
    unfolding byte_of_def msb_bits_def by (simp only: foldl_Cons foldl_Nil list.map bit_shift_in) simp
qed

text \<open>A byte sent and its acknowledge (a low level), and a byte received.\<close>

definition sent_frame :: "alt_u8 \<Rightarrow> bool \<Rightarrow> bus_symbol list" where
  "sent_frame b ack = map Sent (msb_bits b) @ [Got (\<not> ack)]"

definition got_frame :: "alt_u8 \<Rightarrow> bool \<Rightarrow> bus_symbol list" where
  "got_frame b ack = map Got (msb_bits b) @ [Sent (\<not> ack)]"

fun sent_frames :: "alt_u8 list \<Rightarrow> bool list \<Rightarrow> bus_symbol list" where
  "sent_frames (b # bs) (a # as) = sent_frame b a @ sent_frames bs as"
| "sent_frames _ _ = []"

fun got_frames :: "alt_u8 list \<Rightarrow> bus_symbol list" where
  "got_frames [] = []"
| "got_frames (b # bs) = got_frame b (bs \<noteq> []) @ got_frames bs"

text \<open>Acknowledges that a sequence of bytes can get: sending stops at the first that is missing.\<close>

fun ack_run :: "alt_u8 list \<Rightarrow> bool list \<Rightarrow> bool" where
  "ack_run [] as \<longleftrightarrow> as = []"
| "ack_run (b # bs) as \<longleftrightarrow> as = [False] \<or> (\<exists>as'. as = True # as' \<and> ack_run bs as')"

lemma ack_run_length: "ack_run bs as \<Longrightarrow> length as \<le> length bs"
  by (induction bs arbitrary: as) auto

lemma ack_run_all: "ack_run bs as \<Longrightarrow> (\<forall>a\<in>set as. a) \<longleftrightarrow> as = replicate (length bs) True"
  by (induction bs arbitrary: as) auto

definition idle_wires :: wires where
  "idle_wires = \<lparr>w_scl = True, w_sda = True, w_out = True\<rparr>"

lemma and_push_bit_8:
  assumes "k < 8"
  shows "Data AND push_bit k 1 \<noteq> 0 \<longleftrightarrow> bit (Data :: alt_u8) k"
proof -
  have "bit (Data AND push_bit k 1) n \<longleftrightarrow> n = k \<and> bit Data k" for n
    using assms by (auto simp: bit_simps)
  then show ?thesis by (metis bit_0_eq bot2E bot_apply bit_eq_iff)
qed

locale i2c_pins =
  fixes bus :: "'h bus" and clk :: addr and dat :: addr
    and pins :: "'h \<Rightarrow> bus_symbol list \<times> wires"
  assumes scl: "pins (iowr bus clk PIO_DATA v h) = observe (Scl (v \<noteq> 0)) (pins h)"
    and sda: "pins (iowr bus dat PIO_DATA v h) = observe (Sda (v \<noteq> 0)) (pins h)"
    and dir: "pins (iowr bus dat PIO_DIRECTION v h) = observe (Dir (v \<noteq> 0)) (pins h)"
    and rd: "iord bus dat PIO_DATA h = (v, h') \<Longrightarrow> pins h' = observe (Rd (v \<noteq> 0)) (pins h)"
begin

lemma lines [simp]:
  "pins (SDA_DIR_IN bus dat h) = observe (Dir False) (pins h)"
  "pins (SDA_DIR_OUT bus dat h) = observe (Dir True) (pins h)"
  "pins (SDA_HIGH bus dat h) = observe (Sda True) (pins h)"
  "pins (SDA_LOW bus dat h) = observe (Sda False) (pins h)"
  "pins (SCL_HIGH bus clk h) = observe (Scl True) (pins h)"
  "pins (SCL_LOW bus clk h) = observe (Scl False) (pins h)"
  by (simp_all add: SDA_DIR_IN_def SDA_DIR_OUT_def SDA_HIGH_def SDA_LOW_def SCL_HIGH_def SCL_LOW_def scl sda dir)

lemma read_pin: "SDA_READ bus dat h = (v, h') \<Longrightarrow> pins h' = observe (Rd v) (pins h)"
  by (auto simp: SDA_READ_def split: prod.splits dest: rd)

text \<open>Start and stop; \<open>held\<close> is a low clock, which nobody else can raise.\<close>

lemma start_idle:
  "pins h = (ss, idle_wires) \<Longrightarrow> \<exists>w. pins (i2c_start bus clk dat h) = (ss @ [Start], w) \<and> \<not> w_scl w"
  by (simp add: i2c_start_def idle_wires_def)

lemma start_held:
  "pins h = (ss, w) \<Longrightarrow> \<not> w_scl w \<Longrightarrow>
    \<exists>w'. pins (i2c_start bus clk dat h) = (ss @ [Sent True, Start], w') \<and> \<not> w_scl w'"
  by (simp add: i2c_start_def)

lemma stop_held:
  "pins h = (ss, w) \<Longrightarrow> \<not> w_scl w \<Longrightarrow> pins (i2c_stop bus clk dat h) = (ss @ [Sent False, Stop], idle_wires)"
  by (simp add: i2c_stop_def idle_wires_def)

text \<open>A byte out.\<close>

lemma write_bits_step:
  assumes "pins h = (ss, w)" "\<not> w_scl w" "w_out w" "k < 8"
  shows "\<exists>h' w'. i2c_write_bits bus clk dat (Suc i) Data (push_bit k 1) h
        = i2c_write_bits bus clk dat i Data (drop_bit 1 (push_bit k 1)) h'
    \<and> pins h' = (ss @ [Sent (bit Data k)], w') \<and> \<not> w_scl w' \<and> w_out w'"
proof -
  have "Data AND push_bit k 1 \<noteq> 0 \<longleftrightarrow> bit Data k"
    using assms(4) by (metis and_push_bit_8)
  then have "pins (SCL_LOW bus clk (SCL_HIGH bus clk (if Data AND push_bit k 1 \<noteq> 0 then SDA_HIGH bus dat (SCL_LOW bus clk h)
      else SDA_LOW bus dat (SCL_LOW bus clk h)))) = (ss @ [Sent (bit Data k)], w\<lparr>w_scl := False, w_sda := bit Data k\<rparr>)"
    using assms by (simp del: push_bit_of_1)
  moreover have "\<not> w_scl (w\<lparr>w_scl := False, w_sda := bit Data k\<rparr>)" "w_out (w\<lparr>w_scl := False, w_sda := bit Data k\<rparr>)"
    using assms by simp_all
  ultimately show ?thesis
    unfolding i2c_write_bits.simps Let_def by blast
qed

lemma write_bits:
  assumes "pins h = (ss, w)" "\<not> w_scl w" "w_out w" "k < 8"
  shows "\<exists>w'. pins (i2c_write_bits bus clk dat (Suc k) Data (push_bit k 1) h)
      = (ss @ map (\<lambda>i. Sent (bit Data i)) (rev [0..<Suc k]), w') \<and> \<not> w_scl w' \<and> w_out w'"
  using assms
proof (induction k arbitrary: h ss w)
  case 0
  then show ?case using write_bits_step [of h ss w 0 0 Data] by fastforce
next
  case (Suc k)
  have "drop_bit 1 (push_bit (Suc k) 1 :: alt_u8) = push_bit k 1"
  proof (rule bit_word_eqI)
    fix n assume "n < LENGTH(8)"
    then show "bit (drop_bit 1 (push_bit (Suc k) 1 :: alt_u8)) n \<longleftrightarrow> bit (push_bit k 1 :: alt_u8) n"
      using Suc.prems(4) unfolding bit_drop_bit_eq comp_def bit_push_bit_iff bit_1_iff
      by (auto simp: possible_bit_word)
  qed
  then obtain h' w' where "i2c_write_bits bus clk dat (Suc (Suc k)) Data (push_bit (Suc k) 1) h
        = i2c_write_bits bus clk dat (Suc k) Data (push_bit k 1) h'"
      "pins h' = (ss @ [Sent (bit Data (Suc k))], w')" "\<not> w_scl w'" "w_out w'"
    using write_bits_step [OF Suc.prems, of "Suc k" Data] by metis
  moreover have "rev [0..<Suc (Suc k)] = Suc k # rev [0..<Suc k]" by simp
  ultimately show ?case
    using Suc.IH [of h' "ss @ [Sent (bit Data (Suc k))]" w'] Suc.prems(4) by (simp del: upt_Suc)
qed

lemma wait_ack:
  assumes "pins h = (ss, w)" "\<not> w_scl w"
  shows "pins (i2c_wait_ack bus dat n h) = (ss, w)"
  using assms
proof (induction n arbitrary: h)
  case 0
  then show ?case using read_pin [of h] by (auto simp: i2c_wait_ack.simps split: prod.splits)
next
  case (Suc n)
  obtain v h1 where r: "SDA_READ bus dat h = (v, h1)" by fastforce
  then have "pins h1 = (ss, w)" using read_pin [OF r] Suc.prems by simp
  then show ?case using Suc.IH [of h1] Suc.prems(2) by (simp add: i2c_wait_ack.simps [of _ _ "Suc n"] r)
qed

lemma write_frame:
  assumes "pins h = (ss, w)" "\<not> w_scl w"
  shows "\<exists>ack h' w'. i2c_write bus clk dat Data h = (ack, h') \<and> pins h' = (ss @ sent_frame Data ack, w') \<and> \<not> w_scl w'"
proof -
  let ?h1 = "SDA_DIR_OUT bus dat h"
  have m: "(0x80 :: alt_u8) = push_bit 7 1" by simp
  have "pins ?h1 = (ss, w\<lparr>w_out := True\<rparr>)" using assms by simp
  then obtain w2 where w2: "pins (i2c_write_bits bus clk dat 8 Data 0x80 ?h1)
      = (ss @ map (\<lambda>i. Sent (bit Data i)) (rev [0..<8]), w2)" "\<not> w_scl w2"
    using write_bits [of ?h1 ss "w\<lparr>w_out := True\<rparr>" 7 Data] assms(2) unfolding m by auto
  have bits: "map (\<lambda>i. Sent (bit Data i)) (rev [0..<8]) = map Sent (msb_bits Data)"
    by (simp add: msb_bits_def upt_rec eval_nat_numeral)
  let ?h4 = "i2c_wait_ack bus dat 1000000 (SDA_DIR_IN bus dat (i2c_write_bits bus clk dat 8 Data 0x80 ?h1))"
  have h4: "pins ?h4 = (ss @ map Sent (msb_bits Data), w2\<lparr>w_out := False\<rparr>)"
    using w2 by (intro wait_ack) (simp_all add: bits)
  obtain v h6 where r: "SDA_READ bus dat (SCL_HIGH bus clk ?h4) = (v, h6)" by fastforce
  have "pins h6 = (ss @ map Sent (msb_bits Data) @ [Got v], w2\<lparr>w_out := False, w_scl := True\<rparr>)"
    using read_pin [OF r] h4 by simp
  then show ?thesis
    by (simp add: i2c_write_def r sent_frame_def)
qed

lemma write_all_frames:
  assumes "pins h = (ss, w)" "\<not> w_scl w"
  shows "\<exists>acks h' w'. i2c_write_all bus clk dat bs (True, h) = (\<forall>a\<in>set acks. a, h') \<and> ack_run bs acks
    \<and> pins h' = (ss @ sent_frames bs acks, w') \<and> \<not> w_scl w'"
  using assms
proof (induction bs arbitrary: h ss w)
  case Nil
  then show ?case by auto
next
  case (Cons b bs)
  obtain ack h1 w1 where b: "i2c_write bus clk dat b h = (ack, h1)" "pins h1 = (ss @ sent_frame b ack, w1)" "\<not> w_scl w1"
    using write_frame [OF Cons.prems] by blast
  show ?case
  proof (cases ack)
    case True
    obtain acks h' w' where "i2c_write_all bus clk dat bs (True, h1) = (\<forall>a\<in>set acks. a, h')" "ack_run bs acks"
      "pins h' = ((ss @ sent_frame b ack) @ sent_frames bs acks, w')" "\<not> w_scl w'"
      using Cons.IH [OF b(2,3)] by blast
    then show ?thesis
      using True b(1) by (intro exI [of _ "True # acks"]) simp
  next
    case False
    have "i2c_write_all bus clk dat bs (False, h1) = (False, h1)" by (cases bs) simp_all
    then show ?thesis
      using False b by (intro exI [of _ "[False]"]) simp
  qed
qed

text \<open>A byte in.\<close>

lemma read_bits:
  assumes "pins h = (ss, w)" "\<not> w_scl w" "\<not> w_out w"
  shows "\<exists>vs h'. i2c_read_bits bus clk dat n Data h = (foldl (\<lambda>a b. push_bit 1 a OR of_bool b) Data vs, h') \<and> length vs = n
    \<and> pins h' = (ss @ map Got vs, w)"
  using assms
proof (induction n arbitrary: h ss Data)
  case (Suc n)
  obtain v h2 where r: "SDA_READ bus dat (SCL_HIGH bus clk h) = (v, h2)" by fastforce
  let ?h3 = "SCL_LOW bus clk h2" and ?d = "push_bit 1 Data OR of_bool v"
  have "pins h2 = (ss @ [Got v], w\<lparr>w_scl := True\<rparr>)"
    using read_pin [OF r] Suc.prems by simp
  then have "pins ?h3 = (ss @ [Got v], w)" using Suc.prems(2) by simp
  then obtain vs h' where "i2c_read_bits bus clk dat n ?d ?h3 = (foldl (\<lambda>a b. push_bit 1 a OR of_bool b) ?d vs, h')"
      "length vs = n" "pins h' = (ss @ map Got (v # vs), w)"
    using Suc.IH [of ?h3 "ss @ [Got v]" ?d] Suc.prems by auto
  then show ?case
    by (intro exI [of _ "v # vs"]) (cases v; simp add: r Let_def)
qed simp

lemma read_frame:
  assumes "pins h = (ss, w)" "\<not> w_scl w"
  shows "\<exists>b h' w'. i2c_read bus clk dat ack h = (b, h') \<and> pins h' = (ss @ got_frame b ack, w') \<and> \<not> w_scl w'"
proof -
  let ?h2 = "SCL_LOW bus clk (SDA_DIR_IN bus dat h)"
  have "pins ?h2 = (ss, w\<lparr>w_out := False\<rparr>)" using assms by simp
  then obtain vs h3 where r: "i2c_read_bits bus clk dat 8 0 ?h2 = (byte_of vs, h3)" "length vs = 8"
      "pins h3 = (ss @ map Got vs, w\<lparr>w_out := False\<rparr>)"
    using read_bits [of ?h2 ss "w\<lparr>w_out := False\<rparr>" 8 0] assms(2) by (auto simp: byte_of_def)
  then show ?thesis
    using assms(2) by (cases ack; simp add: i2c_read_def got_frame_def byte_of_bits Let_def)
qed

lemma read_all_frames:
  assumes "pins h = (ss, w)" "\<not> w_scl w"
  shows "\<exists>bs h' w'. i2c_read_all bus clk dat n h = (bs, h') \<and> length bs = n
    \<and> pins h' = (ss @ got_frames bs, w') \<and> \<not> w_scl w'"
  using assms
proof (induction n arbitrary: h ss w)
  case (Suc n)
  obtain b h1 w1 where b: "i2c_read bus clk dat (n \<noteq> 0) h = (b, h1)" "pins h1 = (ss @ got_frame b (n \<noteq> 0), w1)" "\<not> w_scl w1"
    using read_frame [OF Suc.prems] by blast
  obtain bs h' w' where "i2c_read_all bus clk dat n h1 = (bs, h')" "length bs = n"
      "pins h' = ((ss @ got_frame b (n \<noteq> 0)) @ got_frames bs, w')" "\<not> w_scl w'"
    using Suc.IH [OF b(2,3)] by blast
  then show ?case using b(1) by (intro exI [of _ "b # bs"]) auto
qed simp

end

text \<open>The transactions that write all have one form.\<close>

lemma i2c_write_all_stop: "\<not> fst s \<Longrightarrow> i2c_write_all bus clk dat bs s = s"
  by (cases bs) simp_all

lemma i2c_try_write_all: "i2c_try bus clk dat b s = i2c_write_all bus clk dat [b] s"
  by (cases "fst s") (simp_all add: i2c_try_def)

lemma i2c_write_all_append:
  "i2c_write_all bus clk dat (as @ bs) s = i2c_write_all bus clk dat bs (i2c_write_all bus clk dat as s)"
  by (induction as arbitrary: s) (auto simp: i2c_write_all_stop)

definition i2c_send_frame ::
  "'h bus \<Rightarrow> (nat \<Rightarrow> 'h \<Rightarrow> 'h) \<Rightarrow> addr \<Rightarrow> addr \<Rightarrow> alt_u8 list \<Rightarrow> 'h \<Rightarrow> bool \<times> 'h" where
  "i2c_send_frame bus usleep clk dat bs h =
     (let s = i2c_write_all bus clk dat bs (True, i2c_start bus clk dat h)
      in (fst s, usleep (7 * 1000) (i2c_stop bus clk dat (snd s))))"

lemma writes_are_frames:
  "I2C_Write bus us clk dat dev a d h = i2c_send_frame bus us clk dat [dev, a, d] h"
  "I2C_Write16 bus us clk dat dev a v h =
     i2c_send_frame bus us clk dat [dev, a, addr_high v, addr_low v] h"
  "I2CL_Write bus us clk dat dev ad d h =
     i2c_send_frame bus us clk dat [dev, addr_high ad, addr_low ad, d] h"
  "I2CL_MultipleWrite bus us clk dat dev ad ds h =
     i2c_send_frame bus us clk dat (dev # addr_high ad # addr_low ad # ds) h"
  "I2CL_Write16 bus us clk dat dev ad v h =
     i2c_send_frame bus us clk dat [dev, addr_high ad, addr_low ad, addr_high v, addr_low v] h"
proof -
  have app: "i2c_write_all bus clk dat (x # y # ys) s = i2c_write_all bus clk dat (y # ys) (i2c_write_all bus clk dat [x] s)" for x y ys s
    using i2c_write_all_append [of bus clk dat "[x]" "y # ys" s] by simp
  have stop: "(if fst s then i2c_write_all bus clk dat ds s else s) = i2c_write_all bus clk dat ds s" for s ds
    by (simp add: i2c_write_all_stop)
  show "I2CL_MultipleWrite bus us clk dat dev ad ds h =
     i2c_send_frame bus us clk dat (dev # addr_high ad # addr_low ad # ds) h" for ds
    using i2c_write_all_append [of bus clk dat "[dev, addr_high ad, addr_low ad]" ds]
    by (simp add: I2CL_MultipleWrite_def i2c_send_frame_def i2c_try_write_all Let_def stop app del: i2c_write_all.simps(2))
  then show "I2CL_Write16 bus us clk dat dev ad v h =
     i2c_send_frame bus us clk dat [dev, addr_high ad, addr_low ad, addr_high v, addr_low v] h"
    by (simp add: I2CL_Write16_def addr_high_def addr_low_def)
qed (simp_all add: I2C_Write_def I2C_Write16_def I2CL_Write_def i2c_send_frame_def
    i2c_try_write_all Let_def addr_high_def addr_low_def i2c_write_all_stop)


context i2c_pins
begin

lemma send_frame:
  assumes "pins h = (ss, idle_wires)" "\<And>t. pins (us 7000 t) = pins t"
  shows "\<exists>acks h'. i2c_send_frame bus us clk dat bs h = (\<forall>a\<in>set acks. a, h') \<and> ack_run bs acks
    \<and> pins h' = (ss @ Start # sent_frames bs acks @ [Sent False, Stop], idle_wires)"
proof -
  obtain w where w: "pins (i2c_start bus clk dat h) = (ss @ [Start], w)" "\<not> w_scl w"
    using start_idle [OF assms(1)] by blast
  obtain acks h1 w1 where a: "i2c_write_all bus clk dat bs (True, i2c_start bus clk dat h) = (\<forall>a\<in>set acks. a, h1)"
      "ack_run bs acks" "pins h1 = ((ss @ [Start]) @ sent_frames bs acks, w1)" "\<not> w_scl w1"
    using write_all_frames [OF w] by blast
  then show ?thesis
    using stop_held [OF a(3,4)] assms(2) by (intro exI [of _ acks]) (simp add: i2c_send_frame_def)
qed

lemma multiple_read_frames:
  assumes "pins h = (ss, idle_wires)"
  shows "\<exists>acks1 acks2 bs h'. ack_run [dev, addr_high ad, addr_low ad] acks1
    \<and> I2CL_MultipleRead bus clk dat dev ad len h = ((acks1 = [True, True, True] \<and> acks2 = [True], bs), h')
    \<and> (if acks1 = [True, True, True] then
         ack_run [dev OR 1] acks2 \<and> length bs = (if acks2 = [True] then unat len else 0)
         \<and> pins h' = (ss @ Start # sent_frames [dev, addr_high ad, addr_low ad] acks1 @ Sent True # Start
             # sent_frames [dev OR 1] acks2 @ got_frames bs @ [Sent False, Stop], idle_wires)
       else bs = []
         \<and> pins h' = (ss @ Start # sent_frames [dev, addr_high ad, addr_low ad] acks1 @ [Sent False, Stop], idle_wires))"
proof -
  let ?ds = "[dev, addr_high ad, addr_low ad]"
  obtain w where w: "pins (i2c_start bus clk dat h) = (ss @ [Start], w)" "\<not> w_scl w"
    using start_idle [OF assms] by blast
  obtain acks h1 w1 where a: "i2c_write_all bus clk dat ?ds (True, i2c_start bus clk dat h) = (\<forall>a\<in>set acks. a, h1)"
      "ack_run ?ds acks" "pins h1 = ((ss @ [Start]) @ sent_frames ?ds acks, w1)" "\<not> w_scl w1"
    using write_all_frames [OF w] by blast
  have all: "(\<forall>a\<in>set acks. a) \<longleftrightarrow> acks = [True, True, True]"
    using ack_run_all [OF a(2)] by (simp add: numeral_3_eq_3)
  let ?s = "i2c_try bus clk dat (addr_low ad) (i2c_try bus clk dat (addr_high ad) (i2c_try bus clk dat dev (True, i2c_start bus clk dat h)))"
  have s: "?s = (acks = [True, True, True], h1)"
    using a(1) all i2c_write_all_append [of bus clk dat "[dev]" "[addr_high ad, addr_low ad]"]
      i2c_write_all_append [of bus clk dat "[addr_high ad]" "[addr_low ad]"]
    by (simp add: i2c_try_write_all del: i2c_write_all.simps(2))
  show ?thesis
  proof (cases "acks = [True, True, True]")
    case False
    then show ?thesis
      using stop_held [OF a(3,4)] a(2) s
      by (intro exI [of _ acks]) (simp add: I2CL_MultipleRead_def Let_def i2c_try_def [of _ _ _ "dev OR 1"])
  next
    case True
    obtain w2 where w2: "pins (i2c_start bus clk dat h1) = (((ss @ [Start]) @ sent_frames ?ds acks) @ [Sent True, Start], w2)" "\<not> w_scl w2"
      using start_held [OF a(3,4)] by blast
    obtain ack h2 w3 where b: "i2c_write bus clk dat (dev OR 1) (i2c_start bus clk dat h1) = (ack, h2)"
        "pins h2 = ((((ss @ [Start]) @ sent_frames ?ds acks) @ [Sent True, Start]) @ sent_frame (dev OR 1) ack, w3)" "\<not> w_scl w3"
      using write_frame [OF w2] by blast
    show ?thesis
    proof (cases ack)
      case False
      then show ?thesis
        using stop_held [OF b(2,3)] a(2) s b(1) True
        by (intro exI [of _ acks] exI [of _ "[False]"]) (simp add: I2CL_MultipleRead_def Let_def i2c_try_def [of _ _ _ "dev OR 1"])
    next
      case ok: True
      obtain bs h3 w4 where r: "i2c_read_all bus clk dat (unat len) h2 = (bs, h3)" "length bs = unat len"
          "pins h3 = (((((ss @ [Start]) @ sent_frames ?ds acks) @ [Sent True, Start]) @ sent_frame (dev OR 1) ack) @ got_frames bs, w4)"
          "\<not> w_scl w4"
        using read_all_frames [OF b(2,3)] by blast
      show ?thesis
        using stop_held [OF r(3,4)] a(2) s b(1) True ok r(1,2)
        by (intro exI [of _ acks] exI [of _ "[True]"] exI [of _ bs])
          (simp add: I2CL_MultipleRead_def Let_def i2c_try_def [of _ _ _ "dev OR 1"])
    qed
  qed
qed

end

section \<open>A simulated bus\<close>

text \<open>Ports that log what happens and answer reads from a list.\<close>

record sim_i2c =
  si_pins :: "bus_symbol list \<times> wires"
  si_input :: "bool list"

definition sim_i2c_bus :: "sim_i2c bus" where
  "sim_i2c_bus = \<lparr>
     iord = (\<lambda>b reg h. let v = (case si_input h of [] \<Rightarrow> False | x # _ \<Rightarrow> x)
       in (of_bool v, h\<lparr>si_pins := observe (Rd v) (si_pins h), si_input := tl (si_input h)\<rparr>)),
     iowr = (\<lambda>b reg v h. h\<lparr>si_pins := observe (if b = 0 then Scl (v \<noteq> 0)
       else if reg = PIO_DATA then Sda (v \<noteq> 0) else Dir (v \<noteq> 0)) (si_pins h)\<rparr>)\<rparr>"

interpretation sim_i2c: i2c_pins sim_i2c_bus 0 1 si_pins
  by unfold_locales (auto simp: sim_i2c_bus_def PIO_DATA_def PIO_DIRECTION_def Let_def)

section \<open>Properties\<close>

text \<open>Property C23: on an idle bus a multiple write puts exactly one frame on the wires: a start condition,
  the device address, the two address bytes and the data, each most significant bit first and followed
  by its acknowledge, and a stop condition that leaves the bus idle. It stops at the first byte that is
  not acknowledged, and reports success exactly when every byte was.\<close>

theorem i2c_multiple_write_is_a_frame:
  assumes "i2c_pins bus clk dat pins" and "\<And>t. pins (us 7000 t) = pins t" and "pins h = (ss, idle_wires)"
  shows "\<exists>acks h'. I2CL_MultipleWrite bus us clk dat dev ad ds h = (\<forall>a\<in>set acks. a, h')
    \<and> ack_run (dev # addr_high ad # addr_low ad # ds) acks
    \<and> pins h' = (ss @ Start # sent_frames (dev # addr_high ad # addr_low ad # ds) acks @ [Sent False, Stop], idle_wires)"
  unfolding writes_are_frames by (rule i2c_pins.send_frame [where us = us, OF assms(1,3) assms(2)])

theorem i2c_multiple_write_is_a_frame_witness:
  "\<exists>acks h'. I2CL_MultipleWrite sim_i2c_bus (\<lambda>_ t. t) 0 1 0xA0 0x0102 [7] \<lparr>si_pins = ([], idle_wires), si_input = []\<rparr>
      = (\<forall>a\<in>set acks. a, h')
    \<and> si_pins h' = (Start # sent_frames [0xA0, addr_high 0x0102, addr_low 0x0102, 7] acks @ [Sent False, Stop], idle_wires)"
  using i2c_multiple_write_is_a_frame [OF sim_i2c.i2c_pins_axioms, of "\<lambda>_ t. t"
      "\<lparr>si_pins = ([], idle_wires), si_input = []\<rparr>" "[]" "0xA0" "0x0102" "[7]"]
  by auto

text \<open>Property C25: on an idle bus a multiple read addresses the device for writing, repeats the start
  condition, addresses it for reading and takes exactly the number of bytes asked for; the bytes stored
  are those on the wires, all but the last are acknowledged, and the bus is idle afterwards. When an
  address byte is not acknowledged it stores nothing and reports failure.\<close>

theorem i2c_multiple_read_is_a_frame:
  assumes "i2c_pins bus clk dat pins" and "pins h = (ss, idle_wires)"
  shows "\<exists>acks1 acks2 bs h'. ack_run [dev, addr_high ad, addr_low ad] acks1
    \<and> I2CL_MultipleRead bus clk dat dev ad len h = ((acks1 = [True, True, True] \<and> acks2 = [True], bs), h')
    \<and> (if acks1 = [True, True, True] then
         ack_run [dev OR 1] acks2 \<and> length bs = (if acks2 = [True] then unat len else 0)
         \<and> pins h' = (ss @ Start # sent_frames [dev, addr_high ad, addr_low ad] acks1 @ Sent True # Start
             # sent_frames [dev OR 1] acks2 @ got_frames bs @ [Sent False, Stop], idle_wires)
       else bs = []
         \<and> pins h' = (ss @ Start # sent_frames [dev, addr_high ad, addr_low ad] acks1 @ [Sent False, Stop], idle_wires))"
  by (rule i2c_pins.multiple_read_frames [OF assms])

theorem i2c_multiple_read_is_a_frame_witness:
  "\<exists>acks acks2 bs h'. I2CL_MultipleRead sim_i2c_bus 0 1 0xA0 0 2 \<lparr>si_pins = ([], idle_wires), si_input = []\<rparr>
      = ((acks = [True, True, True] \<and> acks2 = [True], bs), h') \<and> ack_run [0xA0, addr_high 0, addr_low 0] acks
    \<and> snd (si_pins h') = idle_wires"
proof -
  have "si_pins \<lparr>si_pins = ([], idle_wires), si_input = []\<rparr> = ([], idle_wires)" by simp
  then obtain acks1 acks2 bs h' where r: "ack_run [0xA0, addr_high 0, addr_low 0] acks1"
      "I2CL_MultipleRead sim_i2c_bus 0 1 0xA0 0 2 \<lparr>si_pins = ([], idle_wires), si_input = []\<rparr>
        = ((acks1 = [True, True, True] \<and> acks2 = [True], bs), h')"
      "snd (si_pins h') = idle_wires"
    using i2c_multiple_read_is_a_frame [OF sim_i2c.i2c_pins_axioms, of _ _ "0xA0" 0 2]
    by (metis snd_conv)
  then show ?thesis by (intro exI conjI)
qed

text \<open>The single-byte and 16-bit writes are special cases of the multiple write: the same
  result and the same state of the pins, whatever the device does.\<close>

theorem i2cl_writes_agree:
  "I2CL_Write bus us clk dat dev ad d h = I2CL_MultipleWrite bus us clk dat dev ad [d] h
    \<and> I2CL_Write16 bus us clk dat dev ad v h = I2CL_MultipleWrite bus us clk dat dev ad [addr_high v, addr_low v] h
    \<and> I2C_Write16 bus us clk dat dev a v h = I2CL_Write bus us clk dat dev (push_bit 8 (ucast a) OR ucast (addr_high v)) (addr_low v) h"
proof -
  have "addr_high (push_bit 8 (ucast a) OR ucast (addr_high v)) = a"
    by (rule bit_word_eqI) (auto simp: addr_bytes bit_simps)
  moreover have "addr_low (push_bit 8 (ucast a) OR ucast (addr_high v)) = addr_high v"
    by (rule bit_word_eqI) (auto simp: addr_bytes bit_simps)
  ultimately show ?thesis by (simp add: writes_are_frames)
qed

end
