(* ===== verification/Lcd.thy ===== *)
theory Lcd
  imports Hal_Prelude
begin

text \<open>
  The display driver \<^verbatim>\<open>LT24/ILI9341.c\<close>: commands and data for the ILI9341 panel, written to
  the two registers of its controller. The panel is hardware: what the driver relies on is a
  reference model of the part of the panel's command interface that addresses the frame memory.
\<close>

section \<open>The driver\<close>

text \<open>Addresses of \<^verbatim>\<open>system.h\<close>.\<close>

definition LT24_CONTROLLER_0_BASE :: addr where "LT24_CONTROLLER_0_BASE = 0x5002060"
definition LCD_RESET_N_BASE :: addr where "LCD_RESET_N_BASE = 0x5002040"

definition LCD_WR_REG :: "'h bus \<Rightarrow> alt_u32 \<Rightarrow> 'h \<Rightarrow> 'h" where
  "LCD_WR_REG bus v h = iowr bus LT24_CONTROLLER_0_BASE 0 v h"
definition LCD_WR_DATA :: "'h bus \<Rightarrow> alt_u32 \<Rightarrow> 'h \<Rightarrow> 'h" where
  "LCD_WR_DATA bus v h = iowr bus LT24_CONTROLLER_0_BASE 1 v h"

definition Set_LCD_RST :: "'h bus \<Rightarrow> 'h \<Rightarrow> 'h" where
  "Set_LCD_RST bus h = iowr bus LCD_RESET_N_BASE 0 1 h"
definition Clr_LCD_RST :: "'h bus \<Rightarrow> 'h \<Rightarrow> 'h" where
  "Clr_LCD_RST bus h = iowr bus LCD_RESET_N_BASE 0 0 h"

definition RED :: alt_u16 where "RED = 0xf800"
definition GREEN :: alt_u16 where "GREEN = 0x07e0"
definition BLUE :: alt_u16 where "BLUE = 0x001f"
definition WHITE :: alt_u16 where "WHITE = 0xffff"

text \<open>\<open>usleep\<close> is the HAL's delay, in microseconds.\<close>

fun Delay_Ms :: "(nat \<Rightarrow> 'h \<Rightarrow> 'h) \<Rightarrow> nat \<Rightarrow> 'h \<Rightarrow> 'h" where
  "Delay_Ms usleep 0 h = h"
| "Delay_Ms usleep (Suc count_ms) h = Delay_Ms usleep count_ms (usleep 1000 h)"

definition LCD_SetCursor :: "'h bus \<Rightarrow> alt_u16 \<Rightarrow> alt_u16 \<Rightarrow> 'h \<Rightarrow> 'h" where
  "LCD_SetCursor bus Xpos Ypos h =
     (let h1 = LCD_WR_REG bus 0x002A h;
          h2 = LCD_WR_DATA bus (ucast (drop_bit 8 Xpos)) h1;
          h3 = LCD_WR_DATA bus (ucast (Xpos AND 0xFF)) h2;
          h4 = LCD_WR_REG bus 0x002B h3;
          h5 = LCD_WR_DATA bus (ucast (drop_bit 8 Ypos)) h4;
          h6 = LCD_WR_DATA bus (ucast (Ypos AND 0xFF)) h5
      in LCD_WR_REG bus 0x002C h6)"

text \<open>\<^verbatim>\<open>for (index = 0; index < n; index++) LCD_WR_DATA(f(index))\<close>\<close>

definition lcd_write_loop :: "'h bus \<Rightarrow> (nat \<Rightarrow> alt_u32) \<Rightarrow> nat \<Rightarrow> 'h \<Rightarrow> 'h" where
  "lcd_write_loop bus f n h = fold (\<lambda>index. LCD_WR_DATA bus (f index)) [0..<n] h"

definition LCD_Clear :: "'h bus \<Rightarrow> alt_u16 \<Rightarrow> 'h \<Rightarrow> 'h" where
  "LCD_Clear bus Color h =
     (let h1 = LCD_SetCursor bus 0 0 h;
          h2 = LCD_WR_REG bus 0x002C h1
      in lcd_write_loop bus (\<lambda>_. ucast Color) 76800 h2)"

text \<open>\<open>rand i\<close> is what the \<open>i\<close>-th call of the library's \<^verbatim>\<open>rand()\<close> in the loop returns.\<close>

definition LCD_ClearRnd :: "'h bus \<Rightarrow> (nat \<Rightarrow> alt_u32) \<Rightarrow> 'h \<Rightarrow> 'h" where
  "LCD_ClearRnd bus rand h =
     (let h1 = LCD_SetCursor bus 0 0 h;
          h2 = LCD_WR_REG bus 0x002C h1
      in lcd_write_loop bus rand 76800 h2)"

text \<open>The pixels from the pointer \<open>img\<close> on are a list; reading beyond it is undefined.\<close>

definition LCD_DrawImg240x320 :: "'h bus \<Rightarrow> alt_u16 list \<Rightarrow> 'h \<Rightarrow> 'h c_result" where
  "LCD_DrawImg240x320 bus img h =
     (if length img < 76800 then Inl Out_Of_Bounds
      else
        (let h1 = LCD_SetCursor bus 0 0 h;
             h2 = LCD_WR_REG bus 0x002C h1
         in Inr (lcd_write_loop bus (\<lambda>index. ucast (img ! index)) 76800 h2)))"

definition LCD_DrawPoint :: "'h bus \<Rightarrow> alt_u16 \<Rightarrow> alt_u16 \<Rightarrow> alt_u16 \<Rightarrow> 'h \<Rightarrow> 'h" where
  "LCD_DrawPoint bus x y color h =
     (let h1 = LCD_SetCursor bus x y h;
          h2 = LCD_WR_REG bus 0x002C h1
      in LCD_WR_DATA bus (ucast color) h2)"

text \<open>The initialisation, as the table of what is written after the reset.\<close>

datatype lcd_op = REG alt_u32 | DATA alt_u32

definition LCD_Init_table :: "lcd_op list" where
  "LCD_Init_table =
    [REG 0x0011,
     REG 0x00CF, DATA 0x0000, DATA 0x0081, DATA 0x00c0,
     REG 0x00ED, DATA 0x0064, DATA 0x0003, DATA 0x0012, DATA 0x0081,
     REG 0x00E8, DATA 0x0085, DATA 0x0001, DATA 0x00798,
     REG 0x00CB, DATA 0x0039, DATA 0x002C, DATA 0x0000, DATA 0x0034, DATA 0x0002,
     REG 0x00F7, DATA 0x0020,
     REG 0x00EA, DATA 0x0000, DATA 0x0000,
     REG 0x00B1, DATA 0x0000, DATA 0x001b,
     REG 0x00B6, DATA 0x000A, DATA 0x00A2,
     REG 0x00C0, DATA 0x0005,
     REG 0x00C1, DATA 0x0011,
     REG 0x00C5, DATA 0x0045, DATA 0x0045,
     REG 0x00C7, DATA 0x00a2,
     REG 0x0036, DATA 0x0008,
     REG 0x00F2, DATA 0x0000,
     REG 0x0026, DATA 0x0001,
     REG 0x00E0, DATA 0x000F, DATA 0x0026, DATA 0x0024, DATA 0x000b, DATA 0x000E, DATA 0x0008,
       DATA 0x004b, DATA 0x00a8, DATA 0x003b, DATA 0x000a, DATA 0x0014, DATA 0x0006, DATA 0x0010,
       DATA 0x0009, DATA 0x0000,
     REG 0x00E1, DATA 0x0000, DATA 0x001c, DATA 0x0020, DATA 0x0004, DATA 0x0010, DATA 0x0008,
       DATA 0x0034, DATA 0x0047, DATA 0x0044, DATA 0x0005, DATA 0x000b, DATA 0x0009, DATA 0x002f,
       DATA 0x0036, DATA 0x000f,
     REG 0x002A, DATA 0x0000, DATA 0x0000, DATA 0x0000, DATA 0x00ef,
     REG 0x002B, DATA 0x0000, DATA 0x0000, DATA 0x0001, DATA 0x003f,
     REG 0x003A, DATA 0x0055,
     REG 0x00f6, DATA 0x0001, DATA 0x0030, DATA 0x0000,
     REG 0x0029,
     REG 0x002c]"

fun lcd_do :: "'h bus \<Rightarrow> lcd_op \<Rightarrow> 'h \<Rightarrow> 'h" where
  "lcd_do bus (REG v) h = LCD_WR_REG bus v h"
| "lcd_do bus (DATA v) h = LCD_WR_DATA bus v h"

definition LCD_Init :: "'h bus \<Rightarrow> (nat \<Rightarrow> 'h \<Rightarrow> 'h) \<Rightarrow> 'h \<Rightarrow> 'h" where
  "LCD_Init bus usleep h =
     (let h1 = Set_LCD_RST bus h;
          h2 = Delay_Ms usleep 1 h1;
          h3 = Clr_LCD_RST bus h2;
          h4 = Delay_Ms usleep 10 h3;
          h5 = Set_LCD_RST bus h4;
          h6 = Delay_Ms usleep 120 h5
      in fold (lcd_do bus) LCD_Init_table h6)"

definition LCD_Pattern_Horizon :: "'h bus \<Rightarrow> 'h \<Rightarrow> 'h" where
  "LCD_Pattern_Horizon bus h =
     (let h1 = lcd_write_loop bus (\<lambda>_. 0) (240 * 80) (LCD_SetCursor bus 0 0 h);
          h2 = lcd_write_loop bus (\<lambda>_. ucast RED) (240 * 80) (LCD_SetCursor bus 0 80 h1);
          h3 = lcd_write_loop bus (\<lambda>_. ucast GREEN) (240 * 80) (LCD_SetCursor bus 0 160 h2)
      in lcd_write_loop bus (\<lambda>_. ucast BLUE) (240 * 80) (LCD_SetCursor bus 0 240 h3))"

definition LCD_Pattern_Vertical :: "'h bus \<Rightarrow> 'h \<Rightarrow> 'h" where
  "LCD_Pattern_Vertical bus h =
     fold (\<lambda>m. fold (\<lambda>i. fold (\<lambda>j. LCD_WR_DATA bus (ucast ([WHITE, BLUE, GREEN, RED] ! i))) [0..<60]) [0..<4])
       [0..<320] (LCD_SetCursor bus 0 0 h)"

section \<open>The panel\<close>

text \<open>
  The last command, the number of its parameters so far, the window of columns and rows, the
  pointer into it and the frame memory. A memory write command moves the pointer to the corner
  of the window; each pixel advances it along the row, then to the next row.
\<close>

record panel =
  p_cmd :: alt_u16
  p_args :: nat
  p_sc :: nat
  p_ec :: nat
  p_sp :: nat
  p_ep :: nat
  p_col :: nat
  p_row :: nat
  gram :: "nat \<Rightarrow> nat \<Rightarrow> alt_u16"

definition panel_command :: "alt_u16 \<Rightarrow> panel \<Rightarrow> panel" where
  "panel_command v p =
     (let p1 = p\<lparr>p_cmd := v, p_args := 0\<rparr>
      in if v = 0x2C then p1\<lparr>p_col := p_sc p, p_row := p_sp p\<rparr> else p1)"

definition set_high :: "alt_u16 \<Rightarrow> nat \<Rightarrow> nat" where
  "set_high v x = unat (v AND 0xFF) * 256 + x mod 256"
definition set_low :: "alt_u16 \<Rightarrow> nat \<Rightarrow> nat" where
  "set_low v x = x div 256 * 256 + unat (v AND 0xFF)"

definition panel_pixel :: "alt_u16 \<Rightarrow> panel \<Rightarrow> panel" where
  "panel_pixel v p =
     (let p1 = p\<lparr>gram := (gram p)(p_col p := (gram p (p_col p))(p_row p := v))\<rparr> in
      if p_col p = p_ec p then
        p1\<lparr>p_col := p_sc p, p_row := (if p_row p = p_ep p then p_sp p else p_row p + 1)\<rparr>
      else p1\<lparr>p_col := p_col p + 1\<rparr>)"

definition panel_data :: "alt_u16 \<Rightarrow> panel \<Rightarrow> panel" where
  "panel_data v p =
     (let q = p\<lparr>p_args := p_args p + 1\<rparr>; n = p_args p in
      if p_cmd p = 0x2A then
        (if n = 0 then q\<lparr>p_sc := set_high v (p_sc p)\<rparr> else if n = 1 then q\<lparr>p_sc := set_low v (p_sc p)\<rparr>
         else if n = 2 then q\<lparr>p_ec := set_high v (p_ec p)\<rparr> else if n = 3 then q\<lparr>p_ec := set_low v (p_ec p)\<rparr> else q)
      else if p_cmd p = 0x2B then
        (if n = 0 then q\<lparr>p_sp := set_high v (p_sp p)\<rparr> else if n = 1 then q\<lparr>p_sp := set_low v (p_sp p)\<rparr>
         else if n = 2 then q\<lparr>p_ep := set_high v (p_ep p)\<rparr> else if n = 3 then q\<lparr>p_ep := set_low v (p_ep p)\<rparr> else q)
      else if p_cmd p = 0x2C then panel_pixel v q
      else q)"

locale lcd_panel =
  fixes bus :: "'h bus" and panel :: "'h \<Rightarrow> panel"
  assumes command: "panel (iowr bus LT24_CONTROLLER_0_BASE 0 v h) = panel_command (ucast v) (panel h)"
    and data: "panel (iowr bus LT24_CONTROLLER_0_BASE 1 v h) = panel_data (ucast v) (panel h)"

section \<open>Painting\<close>

lemma word16_bytes:
  "set_low (ucast (ucast (x AND 0xFF :: alt_u16) :: alt_u32)) (set_high (ucast (ucast (drop_bit 8 x) :: alt_u32)) y) = unat x"
  for x :: alt_u16
proof -
  have m: "unat (v AND 0xFF :: alt_u16) = unat v mod 256" for v
  proof -
    have "v AND 0xFF = take_bit 8 v" by (simp add: take_bit_eq_mask mask_eq_exp_minus_1)
    then show ?thesis by (simp add: take_bit_eq_mod unat_mod)
  qed
  have "ucast (ucast v :: alt_u32) = v" for v :: alt_u16
    by (rule bit_word_eqI) (simp add: bit_simps)
  moreover have "unat (drop_bit 8 x) = unat x div 256"
    by (simp add: drop_bit_eq_div unat_div)
  moreover have "unat x < 65536" using unsigned_less [of x, where 'a = nat] by simp
  ultimately show ?thesis by (simp add: set_low_def set_high_def m)
qed

text \<open>
  What \<open>n\<close> pixels make of the frame memory when they start at the corner of the window: the
  \<open>i\<close>-th goes to column \<open>i mod w\<close> and row \<open>i div w\<close> of it.
\<close>

definition painted :: "(nat \<Rightarrow> alt_u16) \<Rightarrow> nat \<Rightarrow> panel \<Rightarrow> nat \<Rightarrow> nat \<Rightarrow> alt_u16" where
  "painted f n p = (\<lambda>c r.
     let w = p_ec p - p_sc p + 1; i = (r - p_sp p) * w + (c - p_sc p) in
     if p_sc p \<le> c \<and> c \<le> p_ec p \<and> p_sp p \<le> r \<and> i < n then f i else gram p c r)"

text \<open>The state in which \<open>n\<close> pixels have been written.\<close>

definition after_pixels :: "(nat \<Rightarrow> alt_u16) \<Rightarrow> nat \<Rightarrow> panel \<Rightarrow> panel" where
  "after_pixels f n p =
     (let w = p_ec p - p_sc p + 1 in
      p\<lparr>p_args := p_args p + n, gram := painted f n p, p_col := p_sc p + n mod w,
        p_row := (if n = w * (p_ep p - p_sp p + 1) then p_sp p else p_sp p + n div w)\<rparr>)"

lemma position_unique:
  fixes c c' r r' w :: nat
  assumes "c < w" "c' < w"
  shows "r * w + c = r' * w + c' \<longleftrightarrow> r = r' \<and> c = c'"
proof
  assume eq: "r * w + c = r' * w + c'"
  have "(r * w + c) div w = r" "(r' * w + c') div w = r'" "(r * w + c) mod w = c" "(r' * w + c') mod w = c'"
    using assms by simp_all
  with eq show "r = r' \<and> c = c'" by simp
qed simp

lemma update_at: "(F(a := (F a)(b := v))) c r = (if c = a \<and> r = b then v else F c r)"
  by simp

lemma painted_at:
  "painted f n p c r =
    (if p_sc p \<le> c \<and> c \<le> p_ec p \<and> p_sp p \<le> r \<and> (r - p_sp p) * (p_ec p - p_sc p + 1) + (c - p_sc p) < n
     then f ((r - p_sp p) * (p_ec p - p_sc p + 1) + (c - p_sc p)) else gram p c r)"
  unfolding painted_def Let_def by (rule refl)

lemma painted_Suc:
  assumes "p_sc p \<le> p_ec p"
  shows "painted f (Suc n) p = (painted f n p)
    (p_sc p + n mod (p_ec p - p_sc p + 1) := (painted f n p (p_sc p + n mod (p_ec p - p_sc p + 1)))
      (p_sp p + n div (p_ec p - p_sc p + 1) := f n))"
proof (intro ext)
  fix c r
  define w where "w = p_ec p - p_sc p + 1"
  define i where "i = (r - p_sp p) * w + (c - p_sc p)"
  have w: "0 < w" by (simp add: w_def)
  have n: "n div w * w + n mod w = n" by simp
  have pos: "p_sc p \<le> c \<and> c \<le> p_ec p \<and> p_sp p \<le> r \<and> i = n \<longleftrightarrow> c = p_sc p + n mod w \<and> r = p_sp p + n div w"
  proof
    assume a: "p_sc p \<le> c \<and> c \<le> p_ec p \<and> p_sp p \<le> r \<and> i = n"
    then have "c - p_sc p < w" by (simp add: w_def) linarith
    have "(r - p_sp p) * w + (c - p_sc p) = n div w * w + n mod w" using a n by (simp only: i_def)
    then have "r - p_sp p = n div w \<and> c - p_sc p = n mod w"
      using position_unique [of "c - p_sc p" w "n mod w" "r - p_sp p" "n div w"] w \<open>c - p_sc p < w\<close> by simp
    then show "c = p_sc p + n mod w \<and> r = p_sp p + n div w" using a by linarith
  next
    assume a: "c = p_sc p + n mod w \<and> r = p_sp p + n div w"
    moreover have "n mod w \<le> p_ec p - p_sc p" using mod_less_divisor [OF w, of n] by (simp add: w_def)
    ultimately show "p_sc p \<le> c \<and> c \<le> p_ec p \<and> p_sp p \<le> r \<and> i = n"
      using assms n by (simp add: i_def)
  qed
  show "painted f (Suc n) p c r = ((painted f n p)
      (p_sc p + n mod (p_ec p - p_sc p + 1) := (painted f n p (p_sc p + n mod (p_ec p - p_sc p + 1)))
        (p_sp p + n div (p_ec p - p_sc p + 1) := f n))) c r"
    unfolding update_at painted_at w_def [symmetric] i_def [symmetric] pos [symmetric] by (auto simp: less_Suc_eq)
qed

lemma pixel_step:
  assumes "p_cmd p = 0x2C" "p_sc p \<le> p_ec p" "p_sp p \<le> p_ep p"
    and "n < (p_ec p - p_sc p + 1) * (p_ep p - p_sp p + 1)"
  shows "panel_data (f n) (after_pixels f n p) = after_pixels f (Suc n) p"
proof -
  define w where "w = p_ec p - p_sc p + 1"
  define k where "k = p_ep p - p_sp p + 1"
  have w: "0 < w" "0 < k" "n < w * k" using assms(4) by (simp_all add: w_def k_def)
  have row: "n div w < k" using w by (simp add: div_less_iff_less_mult mult.commute)
  have last: "p_sc p + n mod w = p_ec p \<longleftrightarrow> Suc (n mod w) = w" using assms(2) by (auto simp: w_def)
  have bottom: "p_sp p + n div w = p_ep p \<longleftrightarrow> Suc (n div w) = k" using assms(3) by (auto simp: k_def)
  have full: "Suc n = w * k \<longleftrightarrow> Suc (n mod w) = w \<and> Suc (n div w) = k"
  proof
    assume "Suc n = w * k"
    then have "Suc n mod w = 0" "Suc n div w = k" using w by simp_all
    then show "Suc (n mod w) = w \<and> Suc (n div w) = k" by (auto simp: mod_Suc div_Suc split: if_splits)
  next
    assume "Suc (n mod w) = w \<and> Suc (n div w) = k"
    then have "n = (k - 1) * w + (w - 1)" by (metis div_mult_mod_eq diff_Suc_1)
    then show "Suc n = w * k" using w by (cases k) (simp_all add: mult.commute)
  qed
  have q: "after_pixels f n p = p\<lparr>p_args := p_args p + n, gram := painted f n p, p_col := p_sc p + n mod w,
      p_row := p_sp p + n div w\<rparr>"
    using w(3) unfolding after_pixels_def Let_def w_def [symmetric] k_def [symmetric] by simp
  have ps: "painted f (Suc n) p = (painted f n p)(p_sc p + n mod w := (painted f n p (p_sc p + n mod w))(p_sp p + n div w := f n))"
    unfolding w_def by (rule painted_Suc [OF assms(2)])
  have S: "panel_pixel (f n) (after_pixels f n p) = (let q = p\<lparr>p_args := p_args p + n, gram := painted f (Suc n) p\<rparr> in
      if Suc (n mod w) = w then q\<lparr>p_col := p_sc p, p_row := (if Suc (n div w) = k then p_sp p else p_sp p + n div w + 1)\<rparr>
      else q\<lparr>p_col := p_sc p + n mod w + 1, p_row := p_sp p + n div w\<rparr>)"
    unfolding q panel_pixel_def Let_def ps using last bottom by simp
  have A: "after_pixels f (Suc n) p = p\<lparr>p_args := p_args p + Suc n, gram := painted f (Suc n) p,
      p_col := p_sc p + (if Suc (n mod w) = w then 0 else Suc (n mod w)),
      p_row := (if Suc (n mod w) = w \<and> Suc (n div w) = k then p_sp p
                else p_sp p + (if Suc (n mod w) = w then Suc (n div w) else n div w))\<rparr>"
    unfolding after_pixels_def Let_def w_def [symmetric] k_def [symmetric] full
    by (simp add: mod_Suc div_Suc)
  have "panel_data (f n) (after_pixels f n p) = panel_pixel (f n) ((after_pixels f n p)\<lparr>p_args := p_args p + Suc n\<rparr>)"
    using assms(1) unfolding panel_data_def Let_def q
    by simp
  also have "\<dots> = (panel_pixel (f n) (after_pixels f n p))\<lparr>p_args := p_args p + Suc n\<rparr>"
    by (simp add: panel_pixel_def Let_def)
  finally show ?thesis unfolding S A by (simp add: Let_def)
qed


text \<open>A window that covers the lower right part of the screen.\<close>

definition window_set :: "panel \<Rightarrow> bool" where
  "window_set p \<longleftrightarrow> p_ec p = 239 \<and> p_ep p = 319"

context lcd_panel
begin

lemma wr [simp]:
  "panel (LCD_WR_REG bus v h) = panel_command (ucast v) (panel h)"
  "panel (LCD_WR_DATA bus v h) = panel_data (ucast v) (panel h)"
  unfolding LCD_WR_REG_def LCD_WR_DATA_def by (rule command, rule data)

lemma write_loop:
  assumes "p_cmd (panel h) = 0x2C" "p_sc (panel h) \<le> p_ec (panel h)" "p_sp (panel h) \<le> p_ep (panel h)"
    and "p_col (panel h) = p_sc (panel h)" "p_row (panel h) = p_sp (panel h)"
    and "n \<le> (p_ec (panel h) - p_sc (panel h) + 1) * (p_ep (panel h) - p_sp (panel h) + 1)"
  shows "panel (lcd_write_loop bus f n h) = after_pixels (\<lambda>i. ucast (f i)) n (panel h)"
  using assms(6)
proof (induction n)
  case 0
  have "painted g 0 (panel h) = gram (panel h)" for g by (simp add: painted_def Let_def)
  then show ?case using assms(4,5) by (simp add: lcd_write_loop_def after_pixels_def Let_def)
next
  case (Suc n)
  then show ?case
    using pixel_step [OF assms(1-3), of n "\<lambda>i. ucast (f i)"] by (simp add: lcd_write_loop_def)
qed

lemma set_cursor:
  "panel (LCD_SetCursor bus x y h) = (panel h)\<lparr>p_cmd := 0x2C, p_args := 0, p_sc := unat x, p_sp := unat y,
     p_col := unat x, p_row := unat y\<rparr>"
  by (simp add: LCD_SetCursor_def panel_command_def panel_data_def Let_def word16_bytes)

lemma again:
  "panel (LCD_WR_REG bus 0x2C (LCD_SetCursor bus x y h)) = panel (LCD_SetCursor bus x y h)"
  by (simp add: set_cursor panel_command_def Let_def)

text \<open>A screen of pixels, from the top left corner on.\<close>

lemma paint_from_corner:
  assumes "p_cmd (panel h) = 0x2C" "p_sc (panel h) = 0" "p_ec (panel h) = 239" "p_sp (panel h) = 0"
      "p_ep (panel h) = 319" "p_col (panel h) = 0" "p_row (panel h) = 0"
  shows "window_set (panel (lcd_write_loop bus f 76800 h))"
    and "c < 240 \<Longrightarrow> r < 320 \<Longrightarrow> gram (panel (lcd_write_loop bus f 76800 h)) c r = ucast (f (r * 240 + c))"
proof -
  have p: "panel (lcd_write_loop bus f 76800 h) = after_pixels (\<lambda>i. ucast (f i)) 76800 (panel h)"
    by (rule write_loop) (simp_all add: assms)
  then show "window_set (panel (lcd_write_loop bus f 76800 h))"
    using assms(3,5) by (simp add: after_pixels_def Let_def window_set_def)
  show "gram (panel (lcd_write_loop bus f 76800 h)) c r = ucast (f (r * 240 + c))" if "c < 240" "r < 320"
  proof -
    have "r * 240 + c < 76800" using that by linarith
    then show ?thesis using that unfolding p after_pixels_def Let_def by (simp add: painted_at assms)
  qed
qed

lemma paint_screen:
  fixes f :: "nat \<Rightarrow> alt_u32" and h :: 'h
  assumes "window_set (panel h)"
  defines "t \<equiv> lcd_write_loop bus f 76800 (LCD_WR_REG bus 0x2C (LCD_SetCursor bus 0 0 h))"
  shows "window_set (panel t)" and "c < 240 \<Longrightarrow> r < 320 \<Longrightarrow> gram (panel t) c r = ucast (f (r * 240 + c))"
proof -
  let ?k = "LCD_WR_REG bus 0x2C (LCD_SetCursor bus 0 0 h)"
  have p: "p_cmd (panel ?k) = 0x2C" "p_sc (panel ?k) = 0" "p_ec (panel ?k) = 239" "p_sp (panel ?k) = 0"
      "p_ep (panel ?k) = 319" "p_col (panel ?k) = 0" "p_row (panel ?k) = 0"
    using assms(1) unfolding again set_cursor window_set_def by simp_all
  show "window_set (panel t)" and "c < 240 \<Longrightarrow> r < 320 \<Longrightarrow> gram (panel t) c r = ucast (f (r * 240 + c))"
    unfolding t_def by (rule paint_from_corner [OF p], rule paint_from_corner(2) [OF p])
qed

lemma draw_point:
  assumes "window_set (panel h)" "unat x < 240" "unat y < 320"
  shows "window_set (panel (LCD_DrawPoint bus x y color h))
    \<and> gram (panel (LCD_DrawPoint bus x y color h))
        = (gram (panel h))(unat x := (gram (panel h) (unat x))(unat y := color))"
proof -
  have "ucast (ucast color :: alt_u32) = color"
    by (rule bit_word_eqI) (simp add: bit_simps)
  then show ?thesis
    using assms(1) unfolding LCD_DrawPoint_def Let_def wr(2) again set_cursor
    by (simp add: panel_data_def panel_pixel_def window_set_def Let_def)
qed

fun panel_do :: "lcd_op \<Rightarrow> panel \<Rightarrow> panel" where
  "panel_do (REG v) p = panel_command (ucast v) p"
| "panel_do (DATA v) p = panel_data (ucast v) p"

lemma panel_fold: "panel (fold (lcd_do bus) ops h) = fold panel_do ops (panel h)"
proof (induction ops arbitrary: h)
  case (Cons a ops)
  then show ?case by (cases a) simp_all
qed simp

lemma init_window: "window_set (panel (LCD_Init bus us h))"
  unfolding LCD_Init_def Let_def panel_fold LCD_Init_table_def
  by (simp add: panel_command_def panel_data_def window_set_def set_high_def set_low_def)

end

section \<open>A simulated panel\<close>

definition sim_panel_bus :: "panel bus" where
  "sim_panel_bus = \<lparr>
     iord = (\<lambda>_ _ p. (0, p)),
     iowr = (\<lambda>b reg v p.
       if b = LT24_CONTROLLER_0_BASE then (if reg = 0 then panel_command (ucast v) p else panel_data (ucast v) p)
       else p)\<rparr>"

interpretation sim_panel: lcd_panel sim_panel_bus "\<lambda>p. p"
  by unfold_locales (simp_all add: sim_panel_bus_def)

definition blank_panel :: panel where
  "blank_panel = \<lparr>p_cmd = 0, p_args = 0, p_sc = 0, p_ec = 239, p_sp = 0, p_ep = 319, p_col = 0, p_row = 0,
     gram = (\<lambda>_ _. 0)\<rparr>"

lemma draw_image:
  assumes "lcd_panel bus panel" "window_set (panel h)" "76800 \<le> length img"
  shows "\<exists>h'. LCD_DrawImg240x320 bus img h = Inr h' \<and> window_set (panel h')
    \<and> (\<forall>c r. c < 240 \<and> r < 320 \<longrightarrow> gram (panel h') c r = img ! (r * 240 + c))"
proof -
  have u: "ucast (ucast v :: alt_u32) = v" for v :: alt_u16
    by (rule bit_word_eqI) (simp add: bit_simps)
  show ?thesis
    using assms(3) lcd_panel.paint_screen [OF assms(1,2)]
    by (simp add: LCD_DrawImg240x320_def Let_def u)
qed

section \<open>Properties\<close>

text \<open>Property C11: the initialisation opens the whole screen as the window, and from then on drawing an
  image puts its pixel \<open>240 * r + c\<close> at column \<open>c\<close> of row \<open>r\<close>, for every place on the screen, and
  leaves the window open for the next one.\<close>

theorem lcd_image_on_screen:
  assumes "lcd_panel bus panel" and "window_set (panel h)" and "76800 \<le> length img"
  shows "window_set (panel (LCD_Init bus us h0))
    \<and> (\<exists>h'. LCD_DrawImg240x320 bus img h = Inr h' \<and> window_set (panel h')
        \<and> (\<forall>c r. c < 240 \<and> r < 320 \<longrightarrow> gram (panel h') c r = img ! (r * 240 + c)))"
  using lcd_panel.init_window [OF assms(1)] draw_image [OF assms] by blast

theorem lcd_image_on_screen_witness:
  "\<exists>h'. LCD_DrawImg240x320 sim_panel_bus (replicate 76800 0xf800) blank_panel = Inr h' \<and> gram h' 239 319 = 0xf800"
proof -
  have "window_set blank_panel" "76800 \<le> length (replicate 76800 (0xf800 :: alt_u16))"
    by (simp_all only: window_set_def blank_panel_def panel.simps length_replicate)
  from lcd_image_on_screen [OF sim_panel.lcd_panel_axioms this]
  obtain h' where h': "LCD_DrawImg240x320 sim_panel_bus (replicate 76800 0xf800) blank_panel = Inr h'"
    "\<forall>c r. c < 240 \<and> r < 320 \<longrightarrow> gram h' c r = replicate 76800 0xf800 ! (r * 240 + c)"
    by blast
  have "gram h' 239 319 = replicate 76800 0xf800 ! (319 * 240 + 239)"
    using h'(2) [rule_format, of 239 319] by linarith
  also have "\<dots> = 0xf800" by (rule nth_replicate) simp
  finally show ?thesis using h'(1) by blast
qed

text \<open>With the window of the initialisation, drawing a point changes exactly one pixel of the
  frame memory, the one at its coordinates, and keeps the window usable.\<close>

theorem lcd_point_is_one_pixel:
  assumes "lcd_panel bus panel" and "window_set (panel h)" and "unat x < 240" and "unat y < 320"
  shows "gram (panel (LCD_DrawPoint bus x y color h)) = (gram (panel h))(unat x := (gram (panel h) (unat x))(unat y := color))
    \<and> window_set (panel (LCD_DrawPoint bus x y color h))"
  using lcd_panel.draw_point [OF assms] by simp

theorem lcd_point_is_one_pixel_witness:
  "gram (LCD_DrawPoint sim_panel_bus 239 319 7 blank_panel) 239 319 = 7
   \<and> gram (LCD_DrawPoint sim_panel_bus 239 319 7 blank_panel) 0 319 = 0"
proof -
  have "window_set blank_panel" by (simp add: window_set_def blank_panel_def)
  from lcd_point_is_one_pixel [OF sim_panel.lcd_panel_axioms this, of 239 319 7] show ?thesis
    by (simp add: blank_panel_def)
qed

end
