(* ===== verification/App_Main.thy ===== *)
theory App_Main
  imports Lcd
begin

text \<open>
  The application \<^verbatim>\<open>LT24/main.c\<close>: two buttons choose between a still image and an animation,
  and between the original and the copy that the custom instruction has filtered. The custom
  instruction and the image data are parameters: the one is hardware, the others are tables.
\<close>

section \<open>State\<close>

text \<open>The local variables of \<^verbatim>\<open>main()\<close>, and the hardware.\<close>

record 'h app =
  b0 :: bool
  b0_prev :: bool
  b1 :: bool
  b1_prev :: bool
  state_filter :: bool
  state_video :: bool
  count :: int
  img_cpy :: "alt_u16 list"
  gif_frame_cpy :: "alt_u16 list"
  app_hw :: 'h

definition KEY_BASE :: addr where "KEY_BASE = 0x4000040"

text \<open>A button reads 0 while it is pressed.\<close>

definition button :: "'h bus \<Rightarrow> alt_u32 \<Rightarrow> 'h \<Rightarrow> bool \<times> 'h" where
  "button bus msk h = (let (v, h1) = iord bus KEY_BASE 0 h in (v AND msk = 0, h1))"

text \<open>
  \<^verbatim>\<open>ALT_CI_NEW_COMPONENT_0(src + 240 * i, dst + 240 * i)\<close> for \<open>i\<close> from 0 to 317: \<open>ci src k dst\<close> is
  what the instruction makes of the destination array.
\<close>

type_synonym custom_instruction = "alt_u16 list \<Rightarrow> nat \<Rightarrow> alt_u16 list \<Rightarrow> alt_u16 list"

definition filter_image :: "custom_instruction \<Rightarrow> alt_u16 list \<Rightarrow> alt_u16 list \<Rightarrow> alt_u16 list" where
  "filter_image ci src dst = fold (\<lambda>i. ci src (240 * i)) [0..<318] dst"

section \<open>The program\<close>

text \<open>Up to the loop. \<^verbatim>\<open>calloc()\<close> gives zeroed arrays; that it succeeds is assumed, as in the code.\<close>

definition main_init ::
  "'h bus \<Rightarrow> (nat \<Rightarrow> 'h \<Rightarrow> 'h) \<Rightarrow> (nat \<Rightarrow> alt_u32) \<Rightarrow> custom_instruction \<Rightarrow> alt_u16 list \<Rightarrow> 'h \<Rightarrow> 'h app" where
  "main_init bus usleep rand ci staticimg h =
     (let (k0, h1) = button bus 1 h;
          (k1, h2) = button bus 2 h1;
          cpy = filter_image ci staticimg (replicate 78000 0);
          h3 = LCD_Init bus usleep h2;
          h4 = LCD_Clear bus 0xFF00 h3;
          h5 = LCD_ClearRnd bus rand h4
      in \<lparr>b0 = k0, b0_prev = k0, b1 = k1, b1_prev = k1, state_filter = False, state_video = False,
          count = 0, img_cpy = cpy, gif_frame_cpy = replicate 78000 0, app_hw = h5\<rparr>)"

text \<open>The two button checks.\<close>

definition check_b0 :: "'h bus \<Rightarrow> 'h app \<Rightarrow> 'h app" where
  "check_b0 bus s =
     (let s1 = s\<lparr>b0_prev := b0 s\<rparr>;
          (k, h1) = button bus 1 (app_hw s1);
          s2 = s1\<lparr>b0 := k, app_hw := h1\<rparr>
      in if b0 s2 \<and> b0_prev s2 = False then s2\<lparr>state_filter := \<not> state_filter s2, count := 0\<rparr> else s2)"

definition check_b1 :: "'h bus \<Rightarrow> 'h app \<Rightarrow> 'h app" where
  "check_b1 bus s =
     (let s1 = s\<lparr>b1_prev := b1 s\<rparr>;
          (k, h1) = button bus 2 (app_hw s1);
          s2 = s1\<lparr>b1 := k, app_hw := h1\<rparr>
      in if b1 s2 \<and> b1_prev s2 = False then s2\<lparr>state_video := \<not> state_video s2, count := 0\<rparr> else s2)"

definition draw :: "'h bus \<Rightarrow> alt_u16 list \<Rightarrow> 'h app \<Rightarrow> 'h app c_result" where
  "draw bus img s =
     (case LCD_DrawImg240x320 bus img (app_hw s) of Inl e \<Rightarrow> Inl e | Inr h \<Rightarrow> Inr (s\<lparr>app_hw := h\<rparr>))"

definition next_frame :: "'h app \<Rightarrow> 'h app" where
  "next_frame s =
     (let s1 = s\<lparr>count := count s + 1\<rparr> in if count s1 > 29 then s1\<lparr>count := 0\<rparr> else s1)"

text \<open>One round of the endless loop. Indexing the table of frames beyond its end is undefined.\<close>

definition main_step ::
  "'h bus \<Rightarrow> custom_instruction \<Rightarrow> alt_u16 list \<Rightarrow> alt_u16 list list \<Rightarrow> 'h app \<Rightarrow> 'h app c_result" where
  "main_step bus ci staticimg gif s =
     (let t = check_b1 bus (check_b0 bus s) in
      if state_filter t then
        if \<not> state_video t then draw bus staticimg t
        else if count t < 0 \<or> int (length gif) \<le> count t then Inl Out_Of_Bounds
        else map_sum id next_frame (draw bus (gif ! nat (count t)) t)
      else
        if \<not> state_video t then draw bus (img_cpy t) t
        else if count t < 0 \<or> int (length gif) \<le> count t then Inl Out_Of_Bounds
        else
          (let u = t\<lparr>gif_frame_cpy := filter_image ci (gif ! nat (count t)) (gif_frame_cpy t)\<rparr>
           in map_sum id next_frame (draw bus (gif_frame_cpy u) u)))"

section \<open>Runs\<close>

text \<open>The states the program gets to, with the button readings on the way.\<close>

inductive main_runs ::
  "'h bus \<Rightarrow> custom_instruction \<Rightarrow> alt_u16 list \<Rightarrow> alt_u16 list list \<Rightarrow> 'h app \<Rightarrow> (bool \<times> bool) list \<Rightarrow> 'h app \<Rightarrow> bool"
  for bus ci staticimg gif s0 where
  start: "main_runs bus ci staticimg gif s0 [] s0"
| round: "main_runs bus ci staticimg gif s0 ks s \<Longrightarrow> main_step bus ci staticimg gif s = Inr t \<Longrightarrow>
    main_runs bus ci staticimg gif s0 (ks @ [(b0 t, b1 t)]) t"

text \<open>The number of times a reading goes from released to pressed.\<close>

fun presses :: "bool \<Rightarrow> bool list \<Rightarrow> nat" where
  "presses prev [] = 0"
| "presses prev (k # ks) = (if k \<and> \<not> prev then 1 else 0) + presses k ks"

lemma presses_snoc:
  "presses prev (ks @ [k]) = presses prev ks + (if k \<and> \<not> last (prev # ks) then 1 else 0)"
  by (induction ks arbitrary: prev) auto

text \<open>The tables fit: what the code relies on when it indexes them.\<close>

definition tables_ok :: "alt_u16 list \<Rightarrow> alt_u16 list list \<Rightarrow> bool" where
  "tables_ok staticimg gif \<longleftrightarrow> 76800 \<le> length staticimg \<and> length gif = 30 \<and> (\<forall>f\<in>set gif. 76800 \<le> length f)"

definition ci_ok :: "custom_instruction \<Rightarrow> bool" where
  "ci_ok ci \<longleftrightarrow> (\<forall>src k dst. length (ci src k dst) = length dst)"

definition app_wf :: "'h app \<Rightarrow> bool" where
  "app_wf s \<longleftrightarrow> 0 \<le> count s \<and> count s \<le> 29 \<and> length (img_cpy s) = 78000 \<and> length (gif_frame_cpy s) = 78000"

lemma filter_length: "ci_ok ci \<Longrightarrow> length (filter_image ci src dst) = length dst"
proof -
  assume "ci_ok ci"
  then have "length (fold (\<lambda>i. ci src (240 * i)) is dst) = length dst" for "is" :: "nat list"
    by (induction "is" arbitrary: dst) (simp_all add: ci_ok_def)
  then show ?thesis by (simp add: filter_image_def)
qed

lemma check_b0_simps [simp]:
  "b1 (check_b0 bus s) = b1 s" "b1_prev (check_b0 bus s) = b1_prev s"
  "state_video (check_b0 bus s) = state_video s"
  "state_filter (check_b0 bus s) = (state_filter s \<noteq> (b0 (check_b0 bus s) \<and> \<not> b0 s))"
  "img_cpy (check_b0 bus s) = img_cpy s"
  by (auto simp: check_b0_def Let_def app_wf_def split: prod.splits)

lemma check_b1_simps [simp]:
  "b0 (check_b1 bus s) = b0 s" "b0_prev (check_b1 bus s) = b0_prev s"
  "state_filter (check_b1 bus s) = state_filter s"
  "state_video (check_b1 bus s) = (state_video s \<noteq> (b1 (check_b1 bus s) \<and> \<not> b1 s))"
  "img_cpy (check_b1 bus s) = img_cpy s"
  by (auto simp: check_b1_def Let_def split: prod.splits)

lemma checks_wf: "app_wf s \<Longrightarrow> app_wf (check_b1 bus (check_b0 bus s))"
  by (auto simp: check_b0_def check_b1_def Let_def app_wf_def split: prod.splits)

text \<open>The hardware after an image was drawn.\<close>

definition drawn :: "'h bus \<Rightarrow> alt_u16 list \<Rightarrow> 'h \<Rightarrow> 'h" where
  "drawn bus img h = (case LCD_DrawImg240x320 bus img h of Inl _ \<Rightarrow> h | Inr h' \<Rightarrow> h')"

lemma draw_Inr: "76800 \<le> length img \<Longrightarrow> draw bus img s = Inr (s\<lparr>app_hw := drawn bus img (app_hw s)\<rparr>)"
  by (simp add: draw_def drawn_def LCD_DrawImg240x320_def Let_def)

text \<open>The image that a mode selects.\<close>

definition selected_image ::
  "custom_instruction \<Rightarrow> alt_u16 list \<Rightarrow> alt_u16 list list \<Rightarrow> 'h app \<Rightarrow> alt_u16 list" where
  "selected_image ci staticimg gif s =
     (if state_filter s then (if state_video s then gif ! nat (count s) else staticimg)
      else if state_video s then filter_image ci (gif ! nat (count s)) (gif_frame_cpy s)
      else img_cpy s)"

lemma next_frame_fields [simp]:
  "b0 (next_frame s) = b0 s" "b1 (next_frame s) = b1 s" "state_filter (next_frame s) = state_filter s"
  "state_video (next_frame s) = state_video s" "app_hw (next_frame s) = app_hw s"
  by (simp_all add: next_frame_def Let_def)

lemma next_frame_wf: "app_wf s \<Longrightarrow> app_wf (next_frame s)"
  by (simp add: next_frame_def app_wf_def Let_def)

text \<open>One round from a well-formed state: no fault, and only the variables that the code touches.\<close>

lemma selected_length:
  assumes "tables_ok staticimg gif" "ci_ok ci" "app_wf s"
  shows "76800 \<le> length (selected_image ci staticimg gif s)" "nat (count s) < length gif"
    "\<not> (count s < 0 \<or> int (length gif) \<le> count s)"
proof -
  show n: "nat (count s) < length gif" "\<not> (count s < 0 \<or> int (length gif) \<le> count s)"
    using assms(1,3) by (auto simp: app_wf_def tables_ok_def)
  then show "76800 \<le> length (selected_image ci staticimg gif s)"
    using assms(1,3) filter_length [OF assms(2)] by (auto simp: selected_image_def tables_ok_def app_wf_def)
qed

lemma step_ok:
  assumes "tables_ok staticimg gif" "ci_ok ci" "app_wf s"
  shows "\<exists>t. main_step bus ci staticimg gif s = Inr t \<and> app_wf t
    \<and> b0 t = b0 (check_b0 bus s) \<and> b1 t = b1 (check_b1 bus (check_b0 bus s))
    \<and> state_filter t = state_filter (check_b0 bus s)
    \<and> state_video t = state_video (check_b1 bus (check_b0 bus s))
    \<and> app_hw t = drawn bus (selected_image ci staticimg gif (check_b1 bus (check_b0 bus s)))
         (app_hw (check_b1 bus (check_b0 bus s)))"
proof -
  define u where "u = check_b1 bus (check_b0 bus s)"
  have wf: "app_wf u" unfolding u_def by (rule checks_wf [OF assms(3)])
  note sel = selected_length [OF assms(1,2) wf]
  have wf': "app_wf (u\<lparr>app_hw := h\<rparr>)"
    "app_wf (u\<lparr>gif_frame_cpy := filter_image ci (gif ! nat (count u)) (gif_frame_cpy u), app_hw := h\<rparr>)" for h
    using wf by (simp_all add: app_wf_def filter_length [OF assms(2)])
  have "\<exists>t. main_step bus ci staticimg gif s = Inr t \<and> app_wf t \<and> b0 t = b0 u \<and> b1 t = b1 u
      \<and> state_filter t = state_filter u \<and> state_video t = state_video u
      \<and> app_hw t = drawn bus (selected_image ci staticimg gif u) (app_hw u)"
    using sel wf' unfolding main_step_def Let_def u_def [symmetric]
    by (cases "state_filter u"; cases "state_video u"; simp add: selected_image_def draw_Inr next_frame_wf)
  then show ?thesis by (simp add: u_def)
qed

lemma runs_wf:
  assumes "main_runs bus ci staticimg gif s0 ks s" "tables_ok staticimg gif" "ci_ok ci" "app_wf s0"
  shows "app_wf s"
  using assms(1)
proof (induction rule: main_runs.induct)
  case (round ks s t)
  then show ?case using step_ok [OF assms(2,3), of s bus] by auto
qed (rule assms(4))

lemma runs_last:
  assumes "main_runs bus ci staticimg gif s0 ks s"
  shows "b0 s = last (b0 s0 # map fst ks)" "b1 s = last (b1 s0 # map snd ks)"
  using assms by (induction rule: main_runs.induct) auto

lemma init_wf: "ci_ok ci \<Longrightarrow> app_wf (main_init bus us rand ci staticimg h)"
  by (simp add: main_init_def app_wf_def filter_length Let_def split: prod.splits)

section \<open>Properties\<close>

text \<open>Property C14: however the buttons are pressed, the program never reads outside an image or outside
  the table of 30 frames: from the initial state every reachable state can make another round, and its
  frame counter is in range.\<close>

theorem main_never_out_of_bounds:
  assumes "main_runs bus ci staticimg gif (main_init bus us rand ci staticimg h) ks s"
    and "tables_ok staticimg gif" and "ci_ok ci"
  shows "0 \<le> count s \<and> count s \<le> 29 \<and> (\<exists>t. main_step bus ci staticimg gif s = Inr t)"
proof -
  have "app_wf s" by (rule runs_wf [OF assms init_wf [OF assms(3)]])
  then show ?thesis using step_ok [OF assms(2,3), of s bus] by (auto simp: app_wf_def)
qed

definition demo_image :: "alt_u16 list" where "demo_image = replicate 76800 5"

definition demo_gif :: "alt_u16 list list" where "demo_gif = replicate 30 demo_image"

definition demo_ci :: custom_instruction where "demo_ci src k dst = dst"

lemma demo_ok: "tables_ok demo_image demo_gif" "ci_ok demo_ci"
  by (simp_all add: tables_ok_def demo_gif_def demo_image_def ci_ok_def demo_ci_def)

definition demo_start :: "panel app" where
  "demo_start = main_init sim_panel_bus (\<lambda>_ h. h) (\<lambda>_. 0) demo_ci demo_image blank_panel"

text \<open>The first round of the demonstration: a round is possible, and it is a run.\<close>

lemma demo_round:
  obtains t where "main_runs sim_panel_bus demo_ci demo_image demo_gif demo_start [(b0 t, b1 t)] t"
proof -
  have "app_wf demo_start" unfolding demo_start_def by (rule init_wf [OF demo_ok(2)])
  then obtain t where "main_step sim_panel_bus demo_ci demo_image demo_gif demo_start = Inr t"
    using step_ok [OF demo_ok] by blast
  then have "main_runs sim_panel_bus demo_ci demo_image demo_gif demo_start ([] @ [(b0 t, b1 t)]) t"
    by (rule main_runs.round [OF main_runs.start])
  then show ?thesis using that by simp
qed

theorem main_never_out_of_bounds_witness:
  "\<exists>s t. main_runs sim_panel_bus demo_ci demo_image demo_gif demo_start [(b0 s, b1 s)] s
    \<and> count s \<le> 29 \<and> main_step sim_panel_bus demo_ci demo_image demo_gif s = Inr t"
proof -
  obtain s where s: "main_runs sim_panel_bus demo_ci demo_image demo_gif demo_start [(b0 s, b1 s)] s"
    by (rule demo_round)
  from main_never_out_of_bounds [OF this [unfolded demo_start_def] demo_ok] show ?thesis using s by blast
qed

text \<open>Property C20: each button is a toggle that acts when it goes down and not while it is held: after any
  run the filter mode has changed once for every press of the first button seen so far, and the video
  mode once for every press of the second.\<close>

theorem main_buttons_toggle:
  assumes "main_runs bus ci staticimg gif (main_init bus us rand ci staticimg h) ks s"
    and "tables_ok staticimg gif" and "ci_ok ci"
  shows "(state_filter s \<longleftrightarrow> odd (presses (b0 (main_init bus us rand ci staticimg h)) (map fst ks)))
    \<and> (state_video s \<longleftrightarrow> odd (presses (b1 (main_init bus us rand ci staticimg h)) (map snd ks)))"
  using assms(1)
proof (induction rule: main_runs.induct)
  case start
  then show ?case by (simp add: main_init_def Let_def split: prod.splits)
next
  case (round ks s t)
  have "app_wf s" using runs_wf [OF round.hyps(1) assms(2,3) init_wf [OF assms(3)]] .
  then show ?case
    using round.IH step_ok [OF assms(2,3), of s bus] round.hyps(2) runs_last [OF round.hyps(1)]
    by (auto simp: presses_snoc simp del: presses.simps last.simps)
qed


theorem main_buttons_toggle_witness:
  "\<exists>s. main_runs sim_panel_bus demo_ci demo_image demo_gif demo_start [(b0 s, b1 s)] s
    \<and> (state_filter s \<longleftrightarrow> b0 s \<and> \<not> b0 demo_start)"
proof -
  obtain s where s: "main_runs sim_panel_bus demo_ci demo_image demo_gif demo_start [(b0 s, b1 s)] s"
    by (rule demo_round)
  from main_buttons_toggle [OF this [unfolded demo_start_def] demo_ok, folded demo_start_def] s show ?thesis
    by (intro exI [of _ s]) (auto split: if_splits)
qed

text \<open>Property C16: on a panel that keeps its contract and a key port that does not disturb it, every round
  ends with the image on the screen that the two modes select: the original or the filtered still image,
  or the current frame of the animation, unfiltered or filtered.\<close>

theorem main_round_shows_selected_image:
  assumes "lcd_panel bus panel" and "\<And>h v h'. iord bus KEY_BASE 0 h = (v, h') \<Longrightarrow> panel h' = panel h"
    and "tables_ok staticimg gif" and "ci_ok ci" and "app_wf s" and "window_set (panel (app_hw s))"
  shows "\<exists>t. main_step bus ci staticimg gif s = Inr t \<and> app_wf t \<and> window_set (panel (app_hw t))
    \<and> (\<forall>c r. c < 240 \<and> r < 320 \<longrightarrow> gram (panel (app_hw t)) c r
        = selected_image ci staticimg gif (check_b1 bus (check_b0 bus s)) ! (r * 240 + c))"
proof -
  define u where "u = check_b1 bus (check_b0 bus s)"
  have wf: "app_wf u" unfolding u_def by (rule checks_wf [OF assms(5)])
  have "panel (app_hw (check_b1 bus x)) = panel (app_hw x)" "panel (app_hw (check_b0 bus x)) = panel (app_hw x)" for x :: "'a app"
    using assms(2) by (auto simp: check_b1_def check_b0_def button_def Let_def split: prod.splits)
  then have win: "window_set (panel (app_hw u))" using assms(6) by (simp add: u_def)
  let ?img = "selected_image ci staticimg gif u"
  obtain h' where h': "LCD_DrawImg240x320 bus ?img (app_hw u) = Inr h'" "window_set (panel h')"
      "\<forall>c r. c < 240 \<and> r < 320 \<longrightarrow> gram (panel h') c r = ?img ! (r * 240 + c)"
    using draw_image [OF assms(1) win selected_length(1) [OF assms(3,4) wf]] by blast
  have "drawn bus ?img (app_hw u) = h'" by (simp add: drawn_def h'(1))
  then show ?thesis
    using step_ok [OF assms(3-5), of bus] h'(2,3) unfolding u_def [symmetric] by auto
qed

theorem main_round_shows_selected_image_witness:
  "\<exists>t. main_step sim_panel_bus demo_ci demo_image demo_gif demo_start = Inr t \<and> window_set (app_hw t)"
proof -
  have k: "iord sim_panel_bus KEY_BASE 0 h = (v, h') \<Longrightarrow> h' = h" for h v h'
    by (simp add: sim_panel_bus_def)
  have wf: "app_wf demo_start" unfolding demo_start_def by (rule init_wf [OF demo_ok(2)])
  have win: "window_set (app_hw demo_start)"
    unfolding demo_start_def main_init_def Let_def LCD_Clear_def LCD_ClearRnd_def split_beta app.simps
    by (intro sim_panel.paint_screen(1) sim_panel.init_window)
  from main_round_shows_selected_image [where bus = sim_panel_bus and panel = "\<lambda>p. p", OF sim_panel.lcd_panel_axioms _ demo_ok wf win] k
  show ?thesis by blast
qed

end
