(* ===== verification/Geometry.thy ===== *)
theory Geometry
  imports Hal_Prelude
begin

text \<open>
  Points and rectangles of the application's library: \<^verbatim>\<open>LT24/geometry.c\<close>. Overflow of an \<^verbatim>\<open>int\<close> is
  undefined in C: such a call is a fault. The square root of the C library is a parameter; what
  the code relies on is that it is exact up to the truncation to an integer. It is shown when the
  operations are defined and how they interact.
\<close>

section \<open>Types\<close>

record RECT =
  rc_left :: int
  rc_right :: int
  rc_top :: int
  rc_bottom :: int

record POINT =
  pt_x :: int
  pt_y :: int

definition fits :: "int \<Rightarrow> bool" where
  "fits v \<longleftrightarrow> - 2147483648 \<le> v \<and> v \<le> INT_MAX"

definition rect_fits :: "RECT \<Rightarrow> bool" where
  "rect_fits rc \<longleftrightarrow> fits (rc_left rc) \<and> fits (rc_right rc) \<and> fits (rc_top rc) \<and> fits (rc_bottom rc)"

abbreviation checked :: "('a \<Rightarrow> bool) \<Rightarrow> 'a \<Rightarrow> 'a c_result" where
  "checked ok v \<equiv> (if ok v then Inr v else Inl Overflow)"

section \<open>Operations\<close>

definition IsPtInRect :: "POINT \<Rightarrow> RECT \<Rightarrow> bool" where
  "IsPtInRect pt rc \<longleftrightarrow> pt_x pt \<ge> rc_left rc \<and> pt_x pt \<le> rc_right rc \<and> pt_y pt \<ge> rc_top rc \<and> pt_y pt \<le> rc_bottom rc"

definition PtSet :: "int \<Rightarrow> int \<Rightarrow> POINT \<Rightarrow> POINT" where
  "PtSet x y pt = pt\<lparr>pt_x := x, pt_y := y\<rparr>"

definition RectSet :: "int \<Rightarrow> int \<Rightarrow> int \<Rightarrow> int \<Rightarrow> RECT \<Rightarrow> RECT" where
  "RectSet l r t b rc =
     rc\<lparr>rc_left := l, rc_right := r, rc_top := t, rc_bottom := b\<rparr>"

definition RectInflate :: "int \<Rightarrow> int \<Rightarrow> RECT \<Rightarrow> RECT c_result" where
  "RectInflate x y rc = checked rect_fits (rc\<lparr>rc_left := rc_left rc - x, rc_right := rc_right rc + x,
     rc_top := rc_top rc - y, rc_bottom := rc_bottom rc + y\<rparr>)"

definition RectOffset :: "int \<Rightarrow> int \<Rightarrow> RECT \<Rightarrow> RECT c_result" where
  "RectOffset x y rc = checked rect_fits (rc\<lparr>rc_left := rc_left rc + x, rc_right := rc_right rc + x,
     rc_top := rc_top rc + y, rc_bottom := rc_bottom rc + y\<rparr>)"

definition RectCopy :: "RECT \<Rightarrow> RECT \<Rightarrow> RECT" where
  "RectCopy rcDes rcSrc = rcDes\<lparr>rc_left := rc_left rcSrc, rc_right := rc_right rcSrc,
     rc_top := rc_top rcSrc, rc_bottom := rc_bottom rcSrc\<rparr>"

definition RectWidth :: "RECT \<Rightarrow> int c_result" where
  "RectWidth rc = checked fits (rc_right rc - rc_left rc)"

definition RectHeight :: "RECT \<Rightarrow> int c_result" where
  "RectHeight rc = checked fits (rc_bottom rc - rc_top rc)"

text \<open>\<open>c_sqrt\<close> is \<^verbatim>\<open>sqrt()\<close> of a \<^verbatim>\<open>double\<close>, its result assigned to an \<^verbatim>\<open>int\<close>.\<close>

definition PtDistance :: "(int \<Rightarrow> int) \<Rightarrow> POINT \<Rightarrow> POINT \<Rightarrow> int c_result" where
  "PtDistance c_sqrt pt1 pt2 =
     (let a = pt_x pt1 - pt_x pt2; b = pt_y pt1 - pt_y pt2 in
      if fits a \<and> fits b \<and> fits (a * a) \<and> fits (b * b) \<and> fits (a * a + b * b)
      then Inr (c_sqrt (a * a + b * b)) else Inl Overflow)"

definition PtCopy :: "POINT \<Rightarrow> POINT \<Rightarrow> POINT" where
  "PtCopy ptDes ptSrc = ptDes\<lparr>pt_x := pt_x ptSrc, pt_y := pt_y ptSrc\<rparr>"

section \<open>Rectangles\<close>

lemma offset_moves_points:
  "RectOffset x y rc = Inr rc' \<Longrightarrow>
     IsPtInRect (PtSet (pt_x pt + x) (pt_y pt + y) pt) rc' \<longleftrightarrow> IsPtInRect pt rc"
  by (auto simp: RectOffset_def IsPtInRect_def PtSet_def split: if_splits)

lemma offset_keeps_size:
  "RectOffset x y rc = Inr rc' \<Longrightarrow> RectWidth rc' = RectWidth rc \<and> RectHeight rc' = RectHeight rc"
  by (auto simp: RectOffset_def RectWidth_def RectHeight_def split: if_splits)

lemma inflate_back:
  "rect_fits rc \<Longrightarrow> RectInflate x y rc = Inr rc' \<Longrightarrow> RectInflate (- x) (- y) rc' = Inr rc"
  by (auto simp: RectInflate_def split: if_splits)

lemma inflate_contains:
  "RectInflate x y rc = Inr rc' \<Longrightarrow> 0 \<le> x \<Longrightarrow> 0 \<le> y \<Longrightarrow> IsPtInRect pt rc \<Longrightarrow> IsPtInRect pt rc'"
  by (auto simp: RectInflate_def IsPtInRect_def split: if_splits)

section \<open>Distances\<close>

text \<open>What the code relies on: the square root, rounded down.\<close>

definition rounds_down :: "(int \<Rightarrow> int) \<Rightarrow> bool" where
  "rounds_down c_sqrt \<longleftrightarrow> (\<forall>n\<ge>0. 0 \<le> c_sqrt n \<and> c_sqrt n * c_sqrt n \<le> n \<and> n < (c_sqrt n + 1) * (c_sqrt n + 1))"

lemma square_fits: "fits (a * a + b * b) \<Longrightarrow> fits a \<and> fits b \<and> fits (a * a) \<and> fits (b * b)" for a b :: int
proof -
  assume f: "fits (a * a + b * b)"
  have sq: "0 \<le> a * a" "0 \<le> b * b" by simp_all
  have le: "abs c \<le> c * c" for c :: int
    using mult_left_mono [of 1 "abs c" "abs c"] by (cases "c = 0") (auto simp flip: abs_mult)
  show ?thesis using f sq le [of a] le [of b] by (auto simp: fits_def INT_MAX_def)
qed

text \<open>
  The distance is defined as long as the sum of the squares is an \<^verbatim>\<open>int\<close> (so not for points
  46341 apart, although that distance is one); it is then the Euclidean distance rounded down.
\<close>

theorem PtDistance_correct:
  assumes "rounds_down c_sqrt"
  shows "let dx = pt_x p - pt_x q; dy = pt_y p - pt_y q; n = dx * dx + dy * dy in
    if n \<le> INT_MAX then \<exists>d\<ge>0. PtDistance c_sqrt p q = Inr d \<and> d * d \<le> n \<and> n < (d + 1) * (d + 1)
    else PtDistance c_sqrt p q = Inl Overflow"
proof -
  define n where "n = (pt_x p - pt_x q) * (pt_x p - pt_x q) + (pt_y p - pt_y q) * (pt_y p - pt_y q)"
  have "0 \<le> n" by (simp add: n_def)
  then have "fits n \<longleftrightarrow> n \<le> INT_MAX" by (simp add: fits_def)
  with \<open>0 \<le> n\<close> show ?thesis
    using assms square_fits [of "pt_x p - pt_x q" "pt_y p - pt_y q"]
    by (auto simp: PtDistance_def Let_def rounds_down_def simp flip: n_def)
qed

text \<open>A square root to try it on.\<close>

fun nat_sqrt :: "nat \<Rightarrow> nat" where
  "nat_sqrt 0 = 0"
| "nat_sqrt (Suc n) = (let r = nat_sqrt n in if Suc r * Suc r \<le> Suc n then Suc r else r)"

lemma nat_sqrt: "nat_sqrt n * nat_sqrt n \<le> n \<and> n < Suc (nat_sqrt n) * Suc (nat_sqrt n)"
  by (induction n) (auto simp: Let_def)

lemma nat_sqrt_rounds_down: "rounds_down (\<lambda>n. int (nat_sqrt (nat n)))"
proof -
  have "int (nat_sqrt k) * int (nat_sqrt k) \<le> int k \<and> int k < (int (nat_sqrt k) + 1) * (int (nat_sqrt k) + 1)" for k
    using nat_sqrt [of k] by (simp flip: of_nat_mult of_nat_Suc add: algebra_simps)
  then have "0 \<le> n \<Longrightarrow> int (nat_sqrt (nat n)) * int (nat_sqrt (nat n)) \<le> n
      \<and> n < (int (nat_sqrt (nat n)) + 1) * (int (nat_sqrt (nat n)) + 1)" for n
    by (metis int_nat_eq)
  then show ?thesis by (simp add: rounds_down_def)
qed

lemma distance_3_4_5: "PtDistance (\<lambda>n. int (nat_sqrt (nat n))) \<lparr>pt_x = 1, pt_y = 2\<rparr> \<lparr>pt_x = 4, pt_y = 6\<rparr> = Inr 5"
  by (simp add: PtDistance_def fits_def INT_MAX_def eval_nat_numeral Let_def)

end
