(* ===== verification/Numerals.thy ===== *)
theory Numerals
  imports Hal_Prelude
begin

text \<open>
  Numbers as text in a base: the reference that the two \<^verbatim>\<open>printf\<close> functions of the HAL are
  compared with. The digits of a number are given by division, by position, and by reading them
  back.
\<close>

definition digit_of :: "bool \<Rightarrow> nat \<Rightarrow> alt_u8" where
  "digit_of upper n = of_nat (if n \<le> 9 then 48 + n else (if upper then 55 else 87) + n)"

definition digit_value :: "alt_u8 \<Rightarrow> nat" where
  "digit_value c = (if unat c < 58 then unat c - 48 else if unat c < 91 then unat c - 55 else unat c - 87)"

function digits :: "nat \<Rightarrow> bool \<Rightarrow> nat \<Rightarrow> alt_u8 list" where
  "digits b upper n = (if n < b \<or> b < 2 then [digit_of upper n] else digits b upper (n div b) @ [digit_of upper (n mod b)])"
  by pat_completeness auto
termination by (relation "measure (\<lambda>(b, u, n). n)") auto

declare digits.simps [simp del]

definition read_digits :: "nat \<Rightarrow> alt_u8 list \<Rightarrow> nat" where
  "read_digits b = foldl (\<lambda>n c. b * n + digit_value c) 0"

lemma digit_value_digit: "n < 36 \<Longrightarrow> digit_value (digit_of upper n) = n"
  by (simp add: digit_value_def digit_of_def unat_of_nat)

lemma read_digits: "2 \<le> b \<Longrightarrow> b \<le> 36 \<Longrightarrow> read_digits b (digits b upper n) = n"
proof (induction b upper n rule: digits.induct)
  case (1 b upper n)
  show ?case
  proof (cases "n < b")
    case True
    with 1 show ?thesis by (subst digits.simps) (simp add: read_digits_def digit_value_digit)
  next
    case False
    have "n mod b < b" using 1(2) by simp
    then have "n mod b < 36" using 1(3) by linarith
    with False 1 show ?thesis
      by (subst digits.simps) (simp add: read_digits_def digit_value_digit)
  qed
qed

lemma digits_positions:
  assumes "2 \<le> b" "n < b ^ Suc k" "k = 0 \<or> b ^ k \<le> n"
  shows "digits b upper n = map (\<lambda>i. digit_of upper (n div b ^ i mod b)) (rev [0..<Suc k])"
  using assms(2,3)
proof (induction k arbitrary: n)
  case (Suc k)
  have "1 \<le> b ^ k" using assms(1) by (intro one_le_power) simp
  then have "b * 1 \<le> b * b ^ k" by (rule mult_le_mono2)
  moreover have "b * b ^ k \<le> n" using Suc.prems(2) by simp
  ultimately have "b \<le> n" by linarith
  have "n div b < b ^ Suc k" using Suc.prems(1) by (simp add: less_mult_imp_div_less mult.commute)
  moreover have "b ^ k \<le> n div b"
    using Suc.prems(2) assms(1) by (simp add: less_eq_div_iff_mult_less_eq mult.commute)
  ultimately have IH: "digits b upper (n div b) = map (\<lambda>i. digit_of upper (n div b div b ^ i mod b)) (rev [0..<Suc k])"
    using Suc.IH [of "n div b"] by simp
  have "[0..<Suc (Suc k)] = 0 # map Suc [0..<Suc k]"
    by (simp only: map_Suc_upt upt_conv_Cons [of 0 "Suc (Suc k)"] zero_less_Suc)
  then have "rev [0..<Suc (Suc k)] = map Suc (rev [0..<Suc k]) @ [0]"
    by (simp only: rev.simps rev_map)
  then show ?case
    using \<open>b \<le> n\<close> assms(1) by (subst digits.simps) (simp add: IH div_mult2_eq del: upt_Suc)
qed (use assms(1) in \<open>simp add: digits.simps\<close>)

lemma digits_length:
  assumes "2 \<le> b" "n < b ^ Suc k" "k = 0 \<or> b ^ k \<le> n"
  shows "length (digits b upper n) = Suc k"
  using digits_positions [OF assms] by simp

text \<open>The position of a digit survives the removal of the digits above it.\<close>

lemma digit_below:
  fixes b :: nat
  assumes "i < k" "0 < b"
  shows "(n mod b ^ k) div b ^ i mod b = n div b ^ i mod b"
proof -
  have k: "b ^ k = b ^ i * b ^ (k - i)" using assms(1) by (simp flip: power_add)
  have "n mod b ^ k = b ^ i * (n div b ^ i mod b ^ (k - i)) + n mod b ^ i"
    unfolding k by (rule mod_mult2_eq)
  then have "(n mod b ^ k) div b ^ i = n div b ^ i mod b ^ (k - i)" using assms(2) by simp
  moreover have "b dvd b ^ (k - i)" using assms(1) by simp
  ultimately show ?thesis by (simp add: mod_mod_cancel)
qed

end
