(* ===== verification/Console.thy ===== *)
theory Console
  imports Numerals
begin

text \<open>
  Console output of the HAL: \<^verbatim>\<open>alt_printf.c\<close>, \<^verbatim>\<open>alt_putchar.c\<close>, \<^verbatim>\<open>alt_putstr.c\<close> and
  \<^verbatim>\<open>alt_getchar.c\<close>, in the configuration of this system (neither semihosting nor direct drivers).
  The C library's \<^verbatim>\<open>putchar\<close>, \<^verbatim>\<open>fputs\<close> and \<^verbatim>\<open>getchar\<close> are parameters. The property is that
  \<open>alt_printf\<close> renders its format: what it writes is the concatenation of the renderings of the
  pieces, and a number printed in hexadecimal reads back as itself.
\<close>

section \<open>The code\<close>

text \<open>
  A function that writes a character returns a result and the new state, or never returns
  (\<open>None\<close>, when it waits for a device that is never ready).
\<close>

type_synonym 'h putc = "int \<Rightarrow> 'h \<Rightarrow> (int \<times> 'h) option"

definition alt_putchar :: "'h putc \<Rightarrow> int \<Rightarrow> 'h \<Rightarrow> (int \<times> 'h) option" where
  "alt_putchar putchar c h = putchar c h"

definition alt_putstr :: "(alt_u8 list \<Rightarrow> 'h \<Rightarrow> int \<times> 'h) \<Rightarrow> alt_u8 list \<Rightarrow> 'h \<Rightarrow> int \<times> 'h" where
  "alt_putstr fputs_stdout str h = fputs_stdout str h"

definition alt_getchar :: "('h \<Rightarrow> int \<times> 'h) \<Rightarrow> 'h \<Rightarrow> int \<times> 'h" where
  "alt_getchar getchar h = getchar h"

text \<open>
  \<^verbatim>\<open>alt_printf()\<close> takes the function it prints with as a parameter, for the build decides what
  \<^verbatim>\<open>alt_putchar\<close> means there. It ignores the results: \<open>emit\<close> is a call as a statement.
\<close>

definition emit :: "'h putc \<Rightarrow> int \<Rightarrow> 'h \<Rightarrow> 'h option" where
  "emit putchar c h = map_option snd (putchar c h)"

text \<open>\<^verbatim>\<open>while(*s) alt_putchar(*s++)\<close>: without a zero byte in memory it does not end.\<close>

partial_function (option) printf_string :: "'h putc \<Rightarrow> (addr \<Rightarrow> alt_u8) \<Rightarrow> addr \<Rightarrow> 'h \<Rightarrow> 'h option" where
  "printf_string putchar mem s h =
     (if mem s = 0 then Some h
      else Option.bind (emit putchar (sint (mem s)) h) (printf_string putchar mem (s + 1)))"

text \<open>
  The search for the first digit. A shift by a negative amount is undefined; it is made a fault,
  which the test for zero before the loop keeps out.
\<close>

function printf_shift :: "alt_u32 \<Rightarrow> int \<Rightarrow> int c_result" where
  "printf_shift v digit_shift =
     (if digit_shift < 0 then Inl Out_Of_Bounds
      else if v AND push_bit (nat digit_shift) 0xF = 0 then printf_shift v (digit_shift - 4)
      else Inr digit_shift)"
  by pat_completeness auto
termination by (relation "measure (\<lambda>(v, d). nat (d + 4))") auto

declare printf_shift.simps [simp del]

definition digit_char :: "alt_u32 \<Rightarrow> alt_u8" where
  "digit_char digit = ucast (if digit \<le> 9 then 0x30 + digit else 0x61 + digit - 10)"

function printf_digits :: "'h putc \<Rightarrow> alt_u32 \<Rightarrow> int \<Rightarrow> 'h \<Rightarrow> 'h option" where
  "printf_digits putchar v digit_shift h =
     (if digit_shift \<ge> 0 then
        (let digit = drop_bit (nat digit_shift) (v AND push_bit (nat digit_shift) 0xF)
         in Option.bind (emit putchar (sint (digit_char digit)) h) (printf_digits putchar v (digit_shift - 4)))
      else Some h)"
  by pat_completeness auto
termination by (relation "measure (\<lambda>(p, v, d, h). nat (d + 4))") auto

declare printf_digits.simps [simp del]

definition printf_hex :: "'h putc \<Rightarrow> alt_u32 \<Rightarrow> 'h \<Rightarrow> 'h c_result option" where
  "printf_hex putchar v h =
     (if v = 0 then map_option Inr (emit putchar 0x30 h)
      else case printf_shift v 28 of
             Inl e \<Rightarrow> Some (Inl e)
           | Inr digit_shift \<Rightarrow> map_option Inr (printf_digits putchar v digit_shift h))"

text \<open>
  The format is the list of its characters before the zero; 37 is \<^verbatim>\<open>%\<close>, 99 is \<^verbatim>\<open>c\<close>, 120 is \<^verbatim>\<open>x\<close> and
  115 is \<^verbatim>\<open>s\<close>. Every argument is a word; to read one more than there are is undefined.
\<close>

fun alt_printf_loop ::
  "'h putc \<Rightarrow> (addr \<Rightarrow> alt_u8) \<Rightarrow> alt_u8 list \<Rightarrow> alt_u32 list \<Rightarrow> 'h \<Rightarrow> 'h c_result option" where
  "alt_printf_loop putchar mem [] args h = Some (Inr h)"
| "alt_printf_loop putchar mem (c # w) args h =
     (if c \<noteq> 37 then Option.bind (emit putchar (sint c) h) (alt_printf_loop putchar mem w args)
      else case w of
        [] \<Rightarrow> Some (Inr h)
      | f # w1 \<Rightarrow>
          if f = 37 then Option.bind (emit putchar (sint f) h) (alt_printf_loop putchar mem w1 args)
          else if f = 99 then
            (case args of [] \<Rightarrow> Some (Inl Out_Of_Bounds)
             | v # vs \<Rightarrow> Option.bind (emit putchar (sint v) h) (alt_printf_loop putchar mem w1 vs))
          else if f = 120 then
            (case args of [] \<Rightarrow> Some (Inl Out_Of_Bounds)
             | v # vs \<Rightarrow> Option.bind (printf_hex putchar v h)
                 (\<lambda>r. case r of Inl e \<Rightarrow> Some (Inl e) | Inr h1 \<Rightarrow> alt_printf_loop putchar mem w1 vs h1))
          else if f = 115 then
            (case args of [] \<Rightarrow> Some (Inl Out_Of_Bounds)
             | s # vs \<Rightarrow> Option.bind (printf_string putchar mem s h) (alt_printf_loop putchar mem w1 vs))
          else alt_printf_loop putchar mem w1 args h)"

definition alt_printf ::
  "'h putc \<Rightarrow> (addr \<Rightarrow> alt_u8) \<Rightarrow> alt_u8 list \<Rightarrow> alt_u32 list \<Rightarrow> 'h \<Rightarrow> 'h c_result option" where
  "alt_printf putchar mem fmt args h = alt_printf_loop putchar mem fmt args h"

section \<open>What a format means\<close>

text \<open>A zero-terminated string in memory.\<close>

fun c_string :: "(addr \<Rightarrow> alt_u8) \<Rightarrow> addr \<Rightarrow> alt_u8 list \<Rightarrow> bool" where
  "c_string mem s [] \<longleftrightarrow> mem s = 0"
| "c_string mem s (b # bs) \<longleftrightarrow> b \<noteq> 0 \<and> mem s = b \<and> c_string mem (s + 1) bs"

text \<open>
  The pieces of a format: a character that stands for itself, a per cent sign, a character
  argument, a number and a string (its address and its bytes).
\<close>

datatype piece = Lit alt_u8 | Percent | Chr alt_u32 | Hex alt_u32 | Strng addr "alt_u8 list"

fun piece_ok :: "(addr \<Rightarrow> alt_u8) \<Rightarrow> piece \<Rightarrow> bool" where
  "piece_ok mem (Lit b) \<longleftrightarrow> b \<noteq> 37 \<and> b \<noteq> 0"
| "piece_ok mem (Strng s bs) \<longleftrightarrow> c_string mem s bs"
| "piece_ok mem _ \<longleftrightarrow> True"

fun format_of :: "piece \<Rightarrow> alt_u8 list" where
  "format_of (Lit b) = [b]"
| "format_of Percent = [37, 37]"
| "format_of (Chr v) = [37, 99]"
| "format_of (Hex v) = [37, 120]"
| "format_of (Strng s bs) = [37, 115]"

fun args_of :: "piece \<Rightarrow> alt_u32 list" where
  "args_of (Chr v) = [v]"
| "args_of (Hex v) = [v]"
| "args_of (Strng s bs) = [s]"
| "args_of _ = []"

fun render :: "piece \<Rightarrow> alt_u8 list" where
  "render (Lit b) = [b]"
| "render Percent = [37]"
| "render (Chr v) = [ucast v]"
| "render (Hex v) = digits 16 False (unat v)"
| "render (Strng s bs) = bs"

section \<open>Hexadecimal\<close>

text \<open>The digit the code cuts out.\<close>

lemma nibble_drop: "drop_bit n (v AND push_bit n 0xF) = drop_bit n v AND 0xF" for v :: alt_u32
  by (rule bit_word_eqI) (auto simp: bit_simps dest: bit_imp_le_length)

lemma unat_nibble: "unat (drop_bit n (v AND push_bit n 0xF)) = unat v div 2 ^ n mod 16" for v :: alt_u32
proof -
  have "(w AND 0xF :: alt_u32) = take_bit 4 w" for w
    by (simp add: take_bit_eq_mask mask_eq_exp_minus_1)
  then have "unat (drop_bit n (v AND push_bit n 0xF)) = take_bit 4 (unat (drop_bit n v))"
    by (simp only: nibble_drop unsigned_take_bit_eq)
  moreover have "unat (drop_bit n v) = unat v div 2 ^ n"
    unfolding unsigned_drop_bit_eq by (simp add: take_bit_nat_eq_self unat_32_bound drop_bit_eq_div)
  ultimately show ?thesis by (simp only: take_bit_eq_mod) simp
qed

lemma nibble_zero_iff: "v AND push_bit n 0xF = 0 \<longleftrightarrow> unat v div 2 ^ n mod 16 = 0" for v :: alt_u32
proof -
  have "v AND push_bit n 0xF = push_bit n (drop_bit n (v AND push_bit n 0xF))"
    by (rule bit_word_eqI) (auto simp: bit_simps)
  then have "v AND push_bit n 0xF = 0 \<longleftrightarrow> drop_bit n (v AND push_bit n 0xF) = 0"
    by (metis drop_bit_of_0 push_bit_of_0)
  then show ?thesis unfolding unat_nibble [symmetric] by (simp only: unat_eq_0)
qed

lemma digit_char_digit: "unat d < 16 \<Longrightarrow> digit_char d = digit_of False (unat d)"
proof -
  assume small: "unat d < 16"
  have "\<forall>n\<in>set [0..<16]. digit_char (of_nat n) = digit_of False n"
    by (simp add: upt_rec digit_char_def digit_of_def)
  from bspec [OF this, of "unat d"] small show ?thesis by simp
qed

lemma digit_cut: "digit_char (drop_bit n (v AND push_bit n 0xF)) = digit_of False (unat v div 2 ^ n mod 16)"
  by (simp only: digit_char_digit unat_nibble mod_less_divisor zero_less_numeral)

lemma low_byte: "scast v = (ucast v :: alt_u8)" for v :: alt_u32
  by (rule bit_word_eqI) (simp add: bit_simps)

lemma power_shift: "(2 :: nat) ^ nat (4 * int k) = 16 ^ k"
proof -
  have "nat (4 * int k) = 4 * k" by simp
  then show ?thesis by (simp add: power_mult)
qed

lemma shift_finds_top:
  assumes "0 < unat v" "unat v < 16 ^ Suc k"
  shows "\<exists>j\<le>k. printf_shift v (4 * int k) = Inr (4 * int j) \<and> 16 ^ j \<le> unat v \<and> unat v < 16 ^ Suc j"
  using assms
proof (induction k)
  case 0
  have "(2 :: nat) ^ 0 = 1" by simp
  with 0 show ?case
    by (subst printf_shift.simps) (simp add: nibble_zero_iff [of v 0, simplified])
next
  case (Suc k)
  note p = power_shift [of "Suc k"]
  have small: "unat v div 16 ^ Suc k < 16"
    using Suc.prems by (simp add: less_mult_imp_div_less)
  show ?case
  proof (cases "unat v < 16 ^ Suc k")
    case True
    then have "printf_shift v (4 * int (Suc k)) = printf_shift v (4 * int k)"
      by (subst printf_shift.simps) (simp add: nibble_zero_iff p del: of_nat_Suc, simp add: algebra_simps)
    with Suc.IH [OF Suc.prems(1) True] show ?thesis by (metis le_SucI)
  next
    case False
    then have "unat v div 16 ^ Suc k \<noteq> 0" by (simp add: div_eq_0_iff)
    with small have "printf_shift v (4 * int (Suc k)) = Inr (4 * int (Suc k))"
      by (subst printf_shift.simps) (simp add: nibble_zero_iff p del: of_nat_Suc power_Suc)
    with False Suc.prems show ?thesis by (intro exI [of _ "Suc k"]) simp
  qed
qed

section \<open>Output\<close>

text \<open>
  What the code relies on: in a state that is \<open>ok\<close>, \<^verbatim>\<open>putchar\<close> returns, having appended its
  argument, as a byte, to the output.
\<close>

locale stdout =
  fixes putchar :: "'h putc" and out :: "'h \<Rightarrow> alt_u8 list" and ok :: "'h \<Rightarrow> bool"
  assumes put: "ok h \<Longrightarrow> \<exists>r h'. putchar c h = Some (r, h') \<and> out h' = out h @ [word_of_int c] \<and> ok h'"
begin

text \<open>\<open>prints f bs\<close>: \<open>f\<close> returns and writes exactly \<open>bs\<close>. Such functions compose.\<close>

definition prints :: "('h \<Rightarrow> 'h option) \<Rightarrow> alt_u8 list \<Rightarrow> bool" where
  "prints f bs \<longleftrightarrow> (\<forall>h. ok h \<longrightarrow> (\<exists>h'. f h = Some h' \<and> out h' = out h @ bs \<and> ok h'))"

lemma prints_nil: "prints Some []"
  by (simp add: prints_def)

lemma prints_emit: "prints (emit putchar c) [word_of_int c]"
  unfolding prints_def emit_def using put by fastforce

lemma prints_bind: "prints f as \<Longrightarrow> prints g bs \<Longrightarrow> prints (\<lambda>h. Option.bind (f h) g) (as @ bs)"
  unfolding prints_def by fastforce

lemma prints_byte: "prints g bs \<Longrightarrow> prints (\<lambda>h. Option.bind (emit putchar (sint b) h) g) (b # bs)"
  using prints_bind [OF prints_emit [of "sint b"], of g bs] by (simp add: scast_id)

lemma string_printed: "c_string mem s bs \<Longrightarrow> prints (printf_string putchar mem s) bs"
proof (induction bs arbitrary: s)
  case Nil
  then have "printf_string putchar mem s = Some" by (simp add: fun_eq_iff printf_string.simps)
  then show ?case by (simp add: prints_nil)
next
  case (Cons b bs)
  then have "printf_string putchar mem s
      = (\<lambda>h. Option.bind (emit putchar (sint b) h) (printf_string putchar mem (s + 1)))"
    by (intro ext, subst printf_string.simps) simp
  then show ?case using prints_byte Cons by simp
qed

lemma digits_printed:
  "prints (printf_digits putchar v (4 * int k))
     (map (\<lambda>i. digit_of False (unat v div 16 ^ i mod 16)) (rev [0..<Suc k]))"
proof (induction k)
  case 0
  have last: "printf_digits putchar v (- 4) = Some"
    by (intro ext, subst printf_digits.simps) simp
  have "printf_digits putchar v 0
      = (\<lambda>h. Option.bind (emit putchar (sint (digit_of False (unat v mod 16))) h) Some)"
    by (intro ext, subst printf_digits.simps) (simp add: digit_cut [of 0, simplified] last)
  then show ?case using prints_byte [OF prints_nil] by simp
next
  case (Suc k)
  have "4 * int (Suc k) - 4 = 4 * int k" by simp
  then have "printf_digits putchar v (4 * int (Suc k)) = (\<lambda>h. Option.bind
      (emit putchar (sint (digit_of False (unat v div 16 ^ Suc k mod 16))) h) (printf_digits putchar v (4 * int k)))"
    by (intro ext, subst printf_digits.simps)
      (simp add: digit_cut power_shift [of "Suc k"] del: of_nat_Suc power_Suc drop_bit_and)
  then show ?case using prints_byte [OF Suc] by simp
qed

lemma hex_printed: "\<exists>f. prints f (digits 16 False (unat v)) \<and> printf_hex putchar v = map_option Inr \<circ> f"
proof (cases "v = 0")
  case True
  then show ?thesis using prints_emit [of 48]
    by (intro exI [of _ "emit putchar 48"]) (simp add: printf_hex_def digits.simps digit_of_def fun_eq_iff)
next
  case False
  then have "0 < unat v" "unat v < 16 ^ Suc 7"
    using unat_32_bound [of v] by (simp_all add: unat_gt_0)
  from shift_finds_top [OF this] obtain j where
    "printf_shift v 28 = Inr (4 * int j)" and j: "16 ^ j \<le> unat v" "unat v < 16 ^ Suc j" by auto
  with False digits_positions [OF _ j(2), of False] j(1) digits_printed [of v j] show ?thesis
    by (intro exI [of _ "printf_digits putchar v (4 * int j)"]) (simp add: printf_hex_def fun_eq_iff)
qed

lemma renders:
  "\<forall>p\<in>set ps. piece_ok mem p \<Longrightarrow>
   \<exists>f. prints f (concat (map render ps)) \<and>
     alt_printf_loop putchar mem (concat (map format_of ps)) (concat (map args_of ps)) = map_option Inr \<circ> f"
proof (induction ps)
  case Nil
  show ?case by (rule exI [of _ Some]) (simp add: prints_nil fun_eq_iff)
next
  case (Cons p ps)
  let ?loop = "alt_printf_loop putchar mem (concat (map format_of ps)) (concat (map args_of ps))"
  obtain f where f: "prints f (concat (map render ps))" "?loop = map_option Inr \<circ> f"
    using Cons.IH Cons.prems by (metis list.set_intros(2))
  have step: ?case if "prints g (render p)"
    "\<And>h. alt_printf_loop putchar mem (format_of p @ concat (map format_of ps)) (args_of p @ concat (map args_of ps)) h
      = Option.bind (g h) ?loop" for g
    using that f by (intro exI [of _ "\<lambda>h. Option.bind (g h) f"])
      (auto simp: fun_eq_iff prints_bind split: Option.bind_splits)
  show ?case
  proof (cases p)
    case (Lit b)
    show ?thesis by (rule step [of "emit putchar (sint b)"]) (use Lit Cons.prems prints_emit [of "sint b"] in simp_all)
  next
    case Percent
    show ?thesis by (rule step [of "emit putchar 37"]) (use Percent prints_emit [of 37] in simp_all)
  next
    case (Chr v)
    show ?thesis by (rule step [of "emit putchar (sint v)"]) (use Chr prints_emit [of "sint v"] in \<open>simp_all add: low_byte\<close>)
  next
    case (Hex v)
    obtain g where g: "prints g (digits 16 False (unat v))" "printf_hex putchar v = map_option Inr \<circ> g"
      using hex_printed by blast
    show ?thesis by (rule step [of g]) (use Hex g in \<open>auto split: Option.bind_splits\<close>)
  next
    case (Strng s bs)
    show ?thesis by (rule step [of "printf_string putchar mem s"]) (use Strng Cons.prems string_printed in simp_all)
  qed
qed

lemma printf_renders:
  assumes "\<forall>p\<in>set ps. piece_ok mem p" and "ok h"
  shows "\<exists>h'. alt_printf putchar mem (concat (map format_of ps)) (concat (map args_of ps)) h = Some (Inr h')
    \<and> out h' = out h @ concat (map render ps) \<and> ok h'"
  using renders [OF assms(1)] assms(2) by (auto simp: alt_printf_def prints_def)

end

section \<open>A simulated console\<close>

text \<open>The output so far, as a list of bytes.\<close>

definition sim_putchar :: "alt_u8 list putc" where
  "sim_putchar c h = Some (uint (word_of_int c :: alt_u8), h @ [word_of_int c])"

interpretation sim_out: stdout sim_putchar "\<lambda>h. h" "\<lambda>_. True"
  by unfold_locales (simp add: sim_putchar_def)

section \<open>Properties\<close>

text \<open>\<open>alt_printf\<close> with the format and the arguments of a list of pieces returns, without
  fault, having written exactly the renderings of the pieces in order: characters as they are,
  strings up to their zero, numbers in hexadecimal without leading zeros; and the digits of a
  number read back as the number.\<close>

theorem alt_printf_renders:
  assumes "stdout putchar out ok" and "\<forall>p\<in>set ps. piece_ok mem p" and "ok h"
  shows "(\<exists>h'. alt_printf putchar mem (concat (map format_of ps)) (concat (map args_of ps)) h = Some (Inr h')
           \<and> out h' = out h @ concat (map render ps))
    \<and> read_digits 16 (render (Hex v)) = unat v"
  using stdout.printf_renders [OF assms] by (auto simp: read_digits)

theorem alt_printf_renders_witness:
  "alt_printf sim_putchar (\<lambda>a. if a = 256 then 104 else 0) [118, 61, 37, 120, 37, 115] [0xBEEF, 256] []
   = Some (Inr [118, 61, 98, 101, 101, 102, 104])"
proof -
  let ?mem = "\<lambda>a :: addr. if a = 256 then 104 else 0 :: alt_u8"
  let ?ps = "[Lit 118, Lit 61, Hex 0xBEEF, Strng 256 [104]]"
  have "\<forall>p\<in>set ?ps. piece_ok ?mem p" by simp
  from alt_printf_renders [OF sim_out.stdout_axioms this, of "[]" 0, simplified] show ?thesis
    by (simp add: digits.simps digit_of_def)
qed

end
