(* ===== verification/Debug.thy ===== *)
theory Debug
  imports Console
begin

text \<open>
  The debugging output of the application: \<^verbatim>\<open>LT24/debug.c\<close>, in the configuration of \<^verbatim>\<open>debug.h\<close>
  (output by \<^verbatim>\<open>printf()\<close>). \<^verbatim>\<open>vsnprintf()\<close> and \<^verbatim>\<open>printf()\<close> of the C library are parameters; what is
  used of them is the contract \<open>c_stdio\<close>, which is met by the model of \<^verbatim>\<open>alt_printf()\<close>.
\<close>

section \<open>The code\<close>

text \<open>
  A text is the list of its characters before the zero. \<open>printf\<close> is called with a format and no
  arguments; \<open>vs\<close> returns the result of \<^verbatim>\<open>vsnprintf()\<close> with the text it stored.
\<close>

type_synonym text_of = "alt_u8 list"

definition debug_output :: "(text_of \<Rightarrow> 'h \<Rightarrow> 'h option) \<Rightarrow> text_of \<Rightarrow> 'h \<Rightarrow> 'h option" where
  "debug_output printf pMessage h = printf pMessage h"

definition myprintf ::
  "(nat \<Rightarrow> text_of \<Rightarrow> alt_u32 list \<Rightarrow> int \<times> text_of) \<Rightarrow> (text_of \<Rightarrow> 'h \<Rightarrow> 'h option)
   \<Rightarrow> text_of \<Rightarrow> alt_u32 list \<Rightarrow> 'h \<Rightarrow> (int \<times> 'h) option" where
  "myprintf vs printf fmt args h =
     (let (rc, szText) = vs 512 fmt args
      in do { h1 \<leftarrow> debug_output printf szText h; Some (rc, h1) })"

text \<open>\<^verbatim>\<open>sprintf(szText, "[%02X]", v)\<close> and the same with \<^verbatim>\<open>08\<close>: at least \<open>w\<close> digits.\<close>

definition bracket_hex :: "nat \<Rightarrow> nat \<Rightarrow> text_of" where
  "bracket_hex w v = (let ds = digits 16 True v in [91] @ replicate (w - length ds) 48 @ ds @ [93])"

text \<open>The loops: \<^verbatim>\<open>DEBUG((szText))\<close> is a call of \<open>myprintf\<close> with the text as format.\<close>

fun debug_each ::
  "(nat \<Rightarrow> text_of \<Rightarrow> alt_u32 list \<Rightarrow> int \<times> text_of) \<Rightarrow> (text_of \<Rightarrow> 'h \<Rightarrow> 'h option)
   \<Rightarrow> text_of list \<Rightarrow> 'h \<Rightarrow> 'h option" where
  "debug_each vs printf [] h = Some h"
| "debug_each vs printf (szText # ts) h =
     do { (rc, h1) \<leftarrow> myprintf vs printf szText [] h; debug_each vs printf ts h1 }"

definition myprintf_hexarray ::
  "(nat \<Rightarrow> text_of \<Rightarrow> alt_u32 list \<Rightarrow> int \<times> text_of) \<Rightarrow> (text_of \<Rightarrow> 'h \<Rightarrow> 'h option)
   \<Rightarrow> alt_u8 list \<Rightarrow> int \<Rightarrow> 'h \<Rightarrow> (int \<times> 'h) option" where
  "myprintf_hexarray vs printf pHex len h =
     do { h1 \<leftarrow> debug_each vs printf (map (\<lambda>b. bracket_hex 2 (unat b)) (take (nat len) pHex)) h; Some (len, h1) }"

definition myprintf_dwordarray ::
  "(nat \<Rightarrow> text_of \<Rightarrow> alt_u32 list \<Rightarrow> int \<times> text_of) \<Rightarrow> (text_of \<Rightarrow> 'h \<Rightarrow> 'h option)
   \<Rightarrow> alt_u32 list \<Rightarrow> int \<Rightarrow> 'h \<Rightarrow> (int \<times> 'h) option" where
  "myprintf_dwordarray vs printf pArray nElementCount h =
     do { h1 \<leftarrow> debug_each vs printf (map (\<lambda>v. bracket_hex 8 (unat v)) (take (nat nElementCount) pArray)) h;
          Some (nElementCount, h1) }"

section \<open>Hexadecimal texts\<close>

text \<open>A text without conversions.\<close>

abbreviation plain :: "text_of \<Rightarrow> bool" where
  "plain t \<equiv> 37 \<notin> set t \<and> 0 \<notin> set t"

lemma digit_of_plain: "n < 16 \<Longrightarrow> digit_of True n \<noteq> 37 \<and> digit_of True n \<noteq> 0"
proof -
  assume n: "n < 16"
  have "\<forall>n\<in>set [0..<16]. digit_of True n \<noteq> 37 \<and> digit_of True n \<noteq> 0"
    by (simp add: upt_rec digit_of_def)
  with n show ?thesis by simp
qed

lemma digits_plain: "plain (digits 16 True n)"
proof (induction n rule: less_induct)
  case (less n)
  then show ?case
    using digit_of_plain [of "n mod 16"] digit_of_plain [of n]
    by (cases "n < 16"; subst digits.simps; subst (2) digits.simps) auto
qed

lemma bracket_hex_plain: "plain (bracket_hex w v)"
  using digits_plain [of v] by (simp add: bracket_hex_def Let_def)

section \<open>The C library\<close>

text \<open>What is used of it: a text without conversions is copied; two per cent signs stand for one.\<close>

locale c_stdio =
  fixes vs :: "nat \<Rightarrow> text_of \<Rightarrow> alt_u32 list \<Rightarrow> int \<times> text_of"
    and printf :: "text_of \<Rightarrow> 'h \<Rightarrow> 'h option" and out :: "'h \<Rightarrow> alt_u8 list"
  assumes vs_plain: "plain fmt \<Longrightarrow> vs n fmt args = (int (length fmt), take (n - 1) fmt)"
    and printf_plain: "plain fmt \<Longrightarrow> \<exists>h'. printf fmt h = Some h' \<and> out h' = out h @ fmt"
    and vs_percent: "vs 512 [37, 37, 37, 37] args = (2, [37, 37])"
    and printf_percent: "\<exists>h'. printf [37, 37] h = Some h' \<and> out h' = out h @ [37]"
begin

lemma myprintf_plain:
  assumes "plain fmt"
  shows "\<exists>h'. myprintf vs printf fmt args h = Some (int (length fmt), h') \<and> out h' = out h @ take 511 fmt"
proof -
  have "plain (take 511 fmt)" using assms by (auto dest: in_set_takeD)
  from printf_plain [OF this, of h] show ?thesis
    by (auto simp: myprintf_def vs_plain [OF assms] debug_output_def)
qed

lemma debug_each_prints:
  "\<forall>t\<in>set ts. plain t \<and> length t \<le> 511 \<Longrightarrow>
     \<exists>h'. debug_each vs printf ts h = Some h' \<and> out h' = out h @ concat ts"
proof (induction ts arbitrary: h)
  case (Cons t ts)
  then obtain g where "myprintf vs printf t [] h = Some (int (length t), g)" "out g = out h @ t"
    using myprintf_plain [of t "[]" h] by auto
  with Cons.IH [of g] Cons.prems show ?case by auto
qed simp

text \<open>A per cent sign in the formatted text is taken for a conversion when it is printed.\<close>

lemma myprintf_reinterprets:
  "\<exists>h'. myprintf vs printf [37, 37, 37, 37] args h = Some (2, h') \<and> out h' = out h @ [37]"
  using printf_percent [of h] by (auto simp: myprintf_def vs_percent debug_output_def)

end

text \<open>The library on the model of \<^verbatim>\<open>alt_printf()\<close> and a simulated console.\<close>

definition sim_printf :: "text_of \<Rightarrow> alt_u8 list \<Rightarrow> alt_u8 list option" where
  "sim_printf fmt h = (case alt_printf sim_putchar (\<lambda>_. 0) fmt [] h of Some (Inr h') \<Rightarrow> Some h' | _ \<Rightarrow> None)"

definition sim_vs :: "nat \<Rightarrow> text_of \<Rightarrow> alt_u32 list \<Rightarrow> int \<times> text_of" where
  "sim_vs n fmt args = (case sim_printf fmt [] of None \<Rightarrow> (- 1, []) | Some t \<Rightarrow> (int (length t), take (n - 1) t))"

lemma sim_printf_pieces:
  "\<forall>p\<in>set ps. piece_ok (\<lambda>_. 0) p \<Longrightarrow> concat (map args_of ps) = [] \<Longrightarrow>
     sim_printf (concat (map format_of ps)) h = Some (h @ concat (map render ps))"
  using sim_out.printf_renders [of ps "\<lambda>_. 0" h] unfolding sim_printf_def
  by (metis (no_types, lifting) option.case(2) sum.case(2))

lemma sim_printf_plain: "plain fmt \<Longrightarrow> sim_printf fmt h = Some (h @ fmt)"
  using sim_printf_pieces [of "map Lit fmt" h] by (auto simp: comp_def concat_map_singleton)

interpretation sim_stdio: c_stdio sim_vs sim_printf "\<lambda>h. h"
  using sim_printf_pieces [of "[Percent]"] sim_printf_pieces [of "[Percent, Percent]"]
  by unfold_locales (simp_all add: sim_vs_def sim_printf_plain)

section \<open>Properties\<close>

text \<open>An array is printed as its bytes in brackets, each by its two hexadecimal digits, whatever the
  bytes are.\<close>

theorem myprintf_hexarray_prints:
  assumes "c_stdio vs printf out" and "0 \<le> len" "nat len \<le> length pHex"
  shows "\<exists>h'. myprintf_hexarray vs printf pHex len h = Some (len, h')
    \<and> out h' = out h @ concat (map (\<lambda>b. bracket_hex 2 (unat b)) (take (nat len) pHex))"
proof -
  have "length (bracket_hex 2 (unat b)) \<le> 511" for b :: alt_u8
  proof -
    have "unat b < 16 ^ Suc 1" using unsigned_less [of b, where 'a = nat] by simp
    then have "length (digits 16 True (unat b)) \<le> 2"
      by (cases "16 ^ 1 \<le> unat b") (use digits_length [of 16 "unat b" 1] digits_length [of 16 "unat b" 0] in auto)
    then show ?thesis by (simp add: bracket_hex_def Let_def)
  qed
  then have "\<forall>t\<in>set (map (\<lambda>b. bracket_hex 2 (unat b)) (take (nat len) pHex)). plain t \<and> length t \<le> 511"
    using bracket_hex_plain by auto
  from c_stdio.debug_each_prints [OF assms(1) this, of h] show ?thesis
    by (auto simp: myprintf_hexarray_def)
qed

text \<open>But a message whose formatted text has a per cent sign in it does not come out as formatted: the
  text is used as a format a second time.\<close>

theorem myprintf_formats_twice:
  "\<exists>h'. myprintf sim_vs sim_printf [37, 37, 37, 37] [] h = Some (2, h') \<and> h' = h @ [37]"
  by (rule sim_stdio.myprintf_reinterprets)

end
