(* ===== verification/Alt_Log.thy ===== *)
theory Alt_Log
  imports Jtag_Uart Console
begin

text \<open>
  The logging of the HAL, \<^verbatim>\<open>alt_log_printf.c\<close> and the macros of \<^verbatim>\<open>sys/alt_log_printf.h\<close>, which a
  build with \<^verbatim>\<open>ALT_LOG_ENABLE\<close> and the JTAG UART as its port contains: a \<^verbatim>\<open>printf\<close> of its own
  that polls the port, and the messages of the drivers. The property is that a number is printed
  the way the conversion asks for: sign, digits, padding.
\<close>

section \<open>Output\<close>

text \<open>Waiting for room in the port, then one character.\<close>

partial_function (option) alt_log_wait :: "'h bus \<Rightarrow> addr \<Rightarrow> 'h \<Rightarrow> 'h option" where
  "alt_log_wait bus base h =
     (if fst (iord bus base UART_CONTROL h) AND WSPACE_MSK = 0
      then alt_log_wait bus base (snd (iord bus base UART_CONTROL h))
      else Some (snd (iord bus base UART_CONTROL h)))"

definition alt_log_txchar :: "'h bus \<Rightarrow> int \<Rightarrow> addr \<Rightarrow> 'h \<Rightarrow> 'h option" where
  "alt_log_txchar bus c base h =
     do { h1 \<leftarrow> alt_log_wait bus base h; Some (iowr bus base UART_DATA (word_of_int c) h1) }"

text \<open>\<^verbatim>\<open>while(r-- > 0)\<close>; \<open>r\<close> is an \<^verbatim>\<open>int\<close>.\<close>

fun alt_log_repeat :: "'h bus \<Rightarrow> alt_u8 \<Rightarrow> nat \<Rightarrow> addr \<Rightarrow> 'h \<Rightarrow> 'h option" where
  "alt_log_repeat bus c 0 base h = Some h"
| "alt_log_repeat bus c (Suc r) base h =
     do { h1 \<leftarrow> alt_log_txchar bus (sint c) base h; alt_log_repeat bus c r base h1 }"

definition alt_log_repchar :: "'h bus \<Rightarrow> alt_u8 \<Rightarrow> int \<Rightarrow> addr \<Rightarrow> 'h \<Rightarrow> 'h option" where
  "alt_log_repchar bus c r base h = alt_log_repeat bus c (nat r) base h"

section \<open>The formatter\<close>

datatype pf_state = pfState_chars | pfState_firstFmtChar | pfState_otherFmtChar

text \<open>The local variables of the formatter; an \<^verbatim>\<open>int\<close> wraps around.\<close>

record pf =
  pf_state :: pf_state
  fmtLeadingZero :: bool
  fmtLong :: bool
  fmtBeforeDecimal :: int
  fmtAfterDecimal :: int
  fmtBase :: alt_u32
  fmtSigned :: bool
  fmtCase :: bool

definition c_int :: "int \<Rightarrow> int" where "c_int i = sint (word_of_int i :: alt_u32)"

definition pf_init :: pf where
  "pf_init = \<lparr>pf_state = pfState_chars, fmtLeadingZero = False, fmtLong = False, fmtBeforeDecimal = 0,
     fmtAfterDecimal = 0, fmtBase = 0, fmtSigned = False, fmtCase = False\<rparr>"

text \<open>The loop that counts digits; its result is the largest power of the base and the count.\<close>

partial_function (option) log_places :: "alt_u32 \<Rightarrow> alt_u32 \<Rightarrow> alt_u32 \<Rightarrow> int \<Rightarrow> (alt_u32 \<times> int) option" where
  "log_places b vShrink p digitCount =
     (if vShrink div b > 0 then log_places b (vShrink div b) (p * b) (digitCount + 1)
      else Some (p, digitCount))"

definition log_digit :: "bool \<Rightarrow> alt_u32 \<Rightarrow> alt_u8" where
  "log_digit upper q =
     (let d = ucast q; d1 = d + 0x30
      in if d1 > 0x39 then d1 + ((if upper then 0x41 else 0x61) - 0x30 - 10) else d1)"

partial_function (option) log_digits ::
  "'h bus \<Rightarrow> addr \<Rightarrow> alt_u32 \<Rightarrow> bool \<Rightarrow> alt_u32 \<Rightarrow> alt_u32 \<Rightarrow> 'h \<Rightarrow> 'h option" where
  "log_digits bus base b upper v p h =
     (if p \<noteq> 0 then
        do {
          h1 \<leftarrow> alt_log_txchar bus (uint (log_digit upper (v div p))) base h;
          log_digits bus base b upper (v mod p) (p div b) h1
        }
      else Some h)"

text \<open>\<^verbatim>\<open>doIntegerPrint\<close>: padding and sign are ordered by the leading zero flag.\<close>

definition log_lead :: "'h bus \<Rightarrow> addr \<Rightarrow> bool \<Rightarrow> bool \<Rightarrow> int \<Rightarrow> 'h \<Rightarrow> 'h option" where
  "log_lead bus base zero sign before h =
     (if zero then
        do {
          h1 \<leftarrow> (if sign then alt_log_txchar bus 0x2D base h else Some h);
          alt_log_repchar bus 0x30 (if sign then before - 1 else before) base h1
        }
      else
        do {
          h1 \<leftarrow> alt_log_repchar bus 0x20 (if sign then before - 1 else before) base h;
          if sign then alt_log_txchar bus 0x2D base h1 else Some h1
        })"

definition log_integer :: "'h bus \<Rightarrow> addr \<Rightarrow> pf \<Rightarrow> alt_u32 \<Rightarrow> 'h \<Rightarrow> 'h option" where
  "log_integer bus base f v h =
     (let sign = (fmtSigned f \<and> v AND 0x80000000 \<noteq> 0);
          v1 = (if sign then NOT v + 1 else v)
      in do {
        (p, digitCount) \<leftarrow> log_places (fmtBase f) v1 1 1;
        h1 \<leftarrow> log_lead bus base (fmtLeadingZero f) sign (fmtBeforeDecimal f - digitCount) h;
        log_digits bus base (fmtBase f) (fmtCase f) v1 p h1
      })"

text \<open>\<open>strlen\<close> of the C library and the loop over a string.\<close>

partial_function (option) c_strlen :: "(addr \<Rightarrow> alt_u8) \<Rightarrow> addr \<Rightarrow> alt_u32 option" where
  "c_strlen mem s = (if mem s = 0 then Some 0 else do { n \<leftarrow> c_strlen mem (s + 1); Some (n + 1) })"

partial_function (option) log_string :: "'h bus \<Rightarrow> addr \<Rightarrow> (addr \<Rightarrow> alt_u8) \<Rightarrow> addr \<Rightarrow> 'h \<Rightarrow> 'h option" where
  "log_string bus base mem s h =
     (if mem s = 0 then Some h
      else do { h1 \<leftarrow> alt_log_txchar bus (sint (mem s)) base h; log_string bus base mem (s + 1) h1 })"

text \<open>
  The letter that ends a conversion: \<open>d i u o x X c s\<close> are 100, 105, 117, 111, 120, 88, 99 and
  115. Reading an argument that is not there is undefined.
\<close>

definition log_conversion ::
  "'h bus \<Rightarrow> addr \<Rightarrow> (addr \<Rightarrow> alt_u8) \<Rightarrow> alt_u8 \<Rightarrow> pf \<Rightarrow> alt_u32 list \<Rightarrow> 'h \<Rightarrow> (alt_u32 list \<times> 'h) c_result option" where
  "log_conversion bus base mem c f args h =
     (let g = (if c = 117 then f\<lparr>fmtSigned := False\<rparr>
               else if c = 111 then f\<lparr>fmtSigned := False, fmtBase := 8\<rparr>
               else if c = 120 then f\<lparr>fmtSigned := False, fmtBase := 16\<rparr>
               else if c = 88 then f\<lparr>fmtSigned := False, fmtBase := 16, fmtCase := True\<rparr>
               else f)
      in if c \<in> {100, 105, 117, 111, 120, 88} then
           (case args of [] \<Rightarrow> Some (Inl Out_Of_Bounds)
            | v # vs \<Rightarrow> do { h1 \<leftarrow> log_integer bus base g v h; Some (Inr (vs, h1)) })
         else if c = 99 then
           (case args of [] \<Rightarrow> Some (Inl Out_Of_Bounds)
            | v # vs \<Rightarrow>
                do {
                  h1 \<leftarrow> alt_log_repchar bus 0x20 (fmtBeforeDecimal f - 1) base h;
                  h2 \<leftarrow> alt_log_txchar bus (sint v) base h1;
                  Some (Inr (vs, h2))
                })
         else if c = 115 then
           (case args of [] \<Rightarrow> Some (Inl Out_Of_Bounds)
            | s # vs \<Rightarrow>
                do {
                  n \<leftarrow> c_strlen mem s;
                  h1 \<leftarrow> alt_log_repchar bus 0x20 (sint (word_of_int (fmtBeforeDecimal f) - n)) base h;
                  h2 \<leftarrow> log_string bus base mem s h1;
                  Some (Inr (vs, h2))
                })
         else Some (Inr (args, h)))"

text \<open>A character of a conversion after the first: \<open>.\<close> is 46, \<open>l\<close> is 108.\<close>

definition log_other ::
  "'h bus \<Rightarrow> addr \<Rightarrow> (addr \<Rightarrow> alt_u8) \<Rightarrow> alt_u8 \<Rightarrow> pf \<Rightarrow> alt_u32 list \<Rightarrow> 'h
   \<Rightarrow> (pf \<times> alt_u32 list \<times> 'h) c_result option" where
  "log_other bus base mem c f args h =
     (if c = 46 then Some (Inr (f\<lparr>fmtAfterDecimal := 0\<rparr>, args, h))
      else if 48 \<le> c \<and> c \<le> 57 then
        (let n = uint (c - 48) in
         Some (Inr (if fmtAfterDecimal f < 0
                    then f\<lparr>fmtBeforeDecimal :=
                           c_int ((if fmtBeforeDecimal f < 0 then 0 else c_int (fmtBeforeDecimal f * 10)) + n)\<rparr>
                    else f\<lparr>fmtAfterDecimal := c_int (fmtAfterDecimal f * 10 + n)\<rparr>, args, h)))
      else if c = 108 then Some (Inr (f\<lparr>fmtLong := True\<rparr>, args, h))
      else
        do {
          r \<leftarrow> log_conversion bus base mem c f args h;
          Some (case r of Inl e \<Rightarrow> Inl e
                | Inr (args1, h1) \<Rightarrow> Inr (f\<lparr>pf_state := pfState_chars\<rparr>, args1, h1))
        })"

text \<open>One round of the loop over the format.\<close>

definition log_step ::
  "'h bus \<Rightarrow> addr \<Rightarrow> (addr \<Rightarrow> alt_u8) \<Rightarrow> alt_u8 \<Rightarrow> pf \<Rightarrow> alt_u32 list \<Rightarrow> 'h
   \<Rightarrow> (pf \<times> alt_u32 list \<times> 'h) c_result option" where
  "log_step bus base mem c f args h =
     (case pf_state f of
        pfState_chars \<Rightarrow>
          if c = 37 then
            Some (Inr (f\<lparr>fmtLeadingZero := False, fmtLong := False, fmtBase := 10, fmtSigned := True,
                         fmtCase := False, fmtBeforeDecimal := - 1, fmtAfterDecimal := - 1,
                         pf_state := pfState_firstFmtChar\<rparr>, args, h))
          else do { h1 \<leftarrow> alt_log_txchar bus (sint c) base h; Some (Inr (f, args, h1)) }
      | pfState_firstFmtChar \<Rightarrow>
          if c = 48 then Some (Inr (f\<lparr>fmtLeadingZero := True, pf_state := pfState_otherFmtChar\<rparr>, args, h))
          else if c = 37 then
            do { h1 \<leftarrow> alt_log_txchar bus (sint c) base h; Some (Inr (f\<lparr>pf_state := pfState_chars\<rparr>, args, h1)) }
          else log_other bus base mem c (f\<lparr>pf_state := pfState_otherFmtChar\<rparr>) args h
      | pfState_otherFmtChar \<Rightarrow> log_other bus base mem c f args h)"

fun log_format ::
  "'h bus \<Rightarrow> addr \<Rightarrow> (addr \<Rightarrow> alt_u8) \<Rightarrow> alt_u8 list \<Rightarrow> pf \<Rightarrow> alt_u32 list \<Rightarrow> 'h
   \<Rightarrow> (pf \<times> alt_u32 list \<times> 'h) c_result option" where
  "log_format bus base mem [] f args h = Some (Inr (f, args, h))"
| "log_format bus base mem (c # w) f args h =
     do {
       r \<leftarrow> log_step bus base mem c f args h;
       (case r of Inl e \<Rightarrow> Some (Inl e) | Inr (f1, args1, h1) \<Rightarrow> log_format bus base mem w f1 args1 h1)
     }"

definition alt_log_private_printf ::
  "'h bus \<Rightarrow> (addr \<Rightarrow> alt_u8) \<Rightarrow> alt_u8 list \<Rightarrow> addr \<Rightarrow> alt_u32 list \<Rightarrow> 'h \<Rightarrow> 'h c_result option" where
  "alt_log_private_printf bus mem fmt base args h =
     do {
       r \<leftarrow> log_format bus base mem fmt pf_init args h;
       Some (map_sum id (\<lambda>(f, args1, h1). h1) r)
     }"

text \<open>\<open>port\<close> is \<^verbatim>\<open>ALT_LOG_PORT_BASE\<close>.\<close>

definition alt_log_printf_proc ::
  "'h bus \<Rightarrow> addr \<Rightarrow> (addr \<Rightarrow> alt_u8) \<Rightarrow> alt_u8 list \<Rightarrow> alt_u32 list \<Rightarrow> 'h \<Rightarrow> (int \<times> 'h) c_result option" where
  "alt_log_printf_proc bus port mem fmt args h =
     do {
       r \<leftarrow> alt_log_private_printf bus mem fmt port args h;
       Some (map_sum id (\<lambda>h1. (0, h1)) r)
     }"

section \<open>The messages\<close>

text \<open>
  The globals of the logging and the hardware; the flags say which messages are wanted. The
  buffer of \<^verbatim>\<open>alt_log_write()\<close> is at \<open>buf_addr\<close>.
\<close>

record 'h logger =
  alt_log_write_on_flag :: alt_u8
  alt_log_sys_clk_on_flag :: alt_u8
  alt_log_jtag_uart_alarm_on_flag :: alt_u8
  alt_log_jtag_uart_isr_on_flag :: alt_u8
  alt_log_write_buf :: "alt_u8 list"
  alt_log_sys_clk_count :: int
  alt_system_clock_in_sec :: int
  log_hw :: 'h

definition ALT_LOG_WRITE_ECHO_LEN :: nat where "ALT_LOG_WRITE_ECHO_LEN = 15"
definition ALT_LOG_JTAG_UART_TICKS_DIVISOR :: alt_u32 where "ALT_LOG_JTAG_UART_TICKS_DIVISOR = 10"

definition bytes_of :: "string \<Rightarrow> alt_u8 list" where "bytes_of s = map of_char s"

text \<open>\<^verbatim>\<open>ALT_LOG_PRINTF\<close>: the result is dropped.\<close>

definition ALT_LOG_PRINTF ::
  "'h bus \<Rightarrow> addr \<Rightarrow> (addr \<Rightarrow> alt_u8) \<Rightarrow> alt_u8 list \<Rightarrow> alt_u32 list \<Rightarrow> ('h, 'a) logger_scheme
   \<Rightarrow> ('h, 'a) logger_scheme c_result option" where
  "ALT_LOG_PRINTF bus port mem fmt args s =
     do {
       r \<leftarrow> alt_log_printf_proc bus port mem fmt args (log_hw s);
       Some (map_sum id (\<lambda>(_, h). s\<lparr>log_hw := h\<rparr>) r)
     }"

definition alt_log_jtag_uart_print_control_reg ::
  "'h bus \<Rightarrow> addr \<Rightarrow> (addr \<Rightarrow> alt_u8) \<Rightarrow> ('h, 'b) uart_scheme \<Rightarrow> addr \<Rightarrow> addr \<Rightarrow> ('h, 'a) logger_scheme
   \<Rightarrow> ('h, 'a) logger_scheme c_result option" where
  "alt_log_jtag_uart_print_control_reg bus port mem dev base header s =
     (let (control, h1) = iord bus base UART_CONTROL (log_hw s);
          space = drop_bit 16 (control AND WSPACE_MSK);
          we = drop_bit 1 (control AND WE_MSK);
          re = control AND RE_MSK;
          ri = drop_bit 8 (control AND RI_MSK);
          wi = drop_bit 9 (control AND WI_MSK);
          ac = drop_bit 10 (control AND AC_MSK)
      in ALT_LOG_PRINTF bus port mem
           (bytes_of ''%s SW CirBuf = %d, HW FIFO wspace=%d AC=%d WI=%d RI=%d WE=%d RE=%d'' @ [13, 10])
           [header, of_nat (tx_out dev) - of_nat (tx_in dev), space, ac, wi, ri, we, re] (s\<lparr>log_hw := h1\<rparr>))"

text \<open>The headers are strings at addresses that the linker chooses.\<close>

definition altera_avalon_jtag_uart_report_log ::
  "'h bus \<Rightarrow> addr \<Rightarrow> (addr \<Rightarrow> alt_u8) \<Rightarrow> alt_u32 \<Rightarrow> addr \<Rightarrow> ('h, 'b) uart_scheme \<Rightarrow> ('h, 'a) logger_scheme
   \<Rightarrow> (alt_u32 \<times> ('h, 'a) logger_scheme) c_result option" where
  "altera_avalon_jtag_uart_report_log bus port mem ticks_per_second header dev s =
     (if alt_log_jtag_uart_alarm_on_flag s \<noteq> 0 then
        do {
          r \<leftarrow> alt_log_jtag_uart_print_control_reg bus port mem dev (ju_base dev) header s;
          Some (map_sum id (\<lambda>s1. (ticks_per_second div ALT_LOG_JTAG_UART_TICKS_DIVISOR, s1)) r)
        }
      else Some (Inr (0, s)))"

definition alt_log_jtag_uart_startup_info ::
  "'h bus \<Rightarrow> addr \<Rightarrow> (addr \<Rightarrow> alt_u8) \<Rightarrow> addr \<Rightarrow> ('h, 'b) uart_scheme \<Rightarrow> addr \<Rightarrow> ('h, 'a) logger_scheme
   \<Rightarrow> ('h, 'a) logger_scheme c_result option" where
  "alt_log_jtag_uart_startup_info bus port mem header dev base s =
     alt_log_jtag_uart_print_control_reg bus port mem dev base header s"

definition alt_log_jtag_uart_isr_proc ::
  "'h bus \<Rightarrow> addr \<Rightarrow> (addr \<Rightarrow> alt_u8) \<Rightarrow> addr \<Rightarrow> addr \<Rightarrow> ('h, 'b) uart_scheme \<Rightarrow> ('h, 'a) logger_scheme
   \<Rightarrow> ('h, 'a) logger_scheme c_result option" where
  "alt_log_jtag_uart_isr_proc bus port mem header base dev s =
     (if alt_log_jtag_uart_isr_on_flag s \<noteq> 0 then
        alt_log_jtag_uart_print_control_reg bus port mem dev base header s
      else Some (Inr s))"

text \<open>\<^verbatim>\<open>strncpy\<close> of the C library: up to the zero, then zeros.\<close>

definition c_strncpy :: "alt_u8 list \<Rightarrow> alt_u8 list \<Rightarrow> nat \<Rightarrow> alt_u8 list" where
  "c_strncpy dst src n =
     (let cs = takeWhile (\<lambda>c. c \<noteq> 0) (take n src) in cs @ replicate (n - length cs) 0 @ drop n dst)"

definition mem_with :: "(addr \<Rightarrow> alt_u8) \<Rightarrow> addr \<Rightarrow> alt_u8 list \<Rightarrow> addr \<Rightarrow> alt_u8" where
  "mem_with mem p bs = (\<lambda>a. if unat (a - p) < length bs then bs ! unat (a - p) else mem a)"

text \<open>The \<open>len\<close> bytes at \<^verbatim>\<open>ptr\<close> are a list.\<close>

definition alt_log_write ::
  "'h bus \<Rightarrow> addr \<Rightarrow> (addr \<Rightarrow> alt_u8) \<Rightarrow> addr \<Rightarrow> alt_u8 list \<Rightarrow> ('h, 'a) logger_scheme
   \<Rightarrow> ('h, 'a) logger_scheme c_result option" where
  "alt_log_write bus port mem buf_addr ptr s =
     (if alt_log_write_on_flag s \<noteq> 0 then
        let len = (if ALT_LOG_WRITE_ECHO_LEN > length ptr then length ptr else ALT_LOG_WRITE_ECHO_LEN) in
        if len < 2 then Some (Inr s)
        else
          let b1 = c_strncpy (alt_log_write_buf s) ptr len;
              b2 = b1[len - 1 := 10, len := 13, len + 1 := 0];
              b3 = map (\<lambda>c. if c = 4 then 68 else c) (take len b2) @ drop len b2
          in ALT_LOG_PRINTF bus port (mem_with mem buf_addr b3) (bytes_of ''Write Echo: %s'') [buf_addr]
               (s\<lparr>alt_log_write_buf := b3\<rparr>)
      else Some (Inr s))"

text \<open>\<open>interval\<close> is \<^verbatim>\<open>ALT_LOG_SYS_CLK_INTERVAL\<close>, the ticks of a second.\<close>

definition alt_log_system_clock ::
  "'h bus \<Rightarrow> addr \<Rightarrow> (addr \<Rightarrow> alt_u8) \<Rightarrow> alt_u32 \<Rightarrow> ('h, 'a) logger_scheme
   \<Rightarrow> ('h, 'a) logger_scheme c_result option" where
  "alt_log_system_clock bus port mem interval s =
     (if alt_log_sys_clk_on_flag s \<noteq> 0 then
        let s1 = s\<lparr>alt_log_sys_clk_count := c_int (alt_log_sys_clk_count s + 1)\<rparr> in
        if word_of_int (alt_log_sys_clk_count s1) > interval then
          let s2 = s1\<lparr>alt_log_sys_clk_count := 0\<rparr>
          in ALT_LOG_PRINTF bus port mem (bytes_of ''System Clock On %u'' @ [13, 10])
               [word_of_int (alt_system_clock_in_sec s2)]
               (s2\<lparr>alt_system_clock_in_sec := c_int (alt_system_clock_in_sec s2 + 1)\<rparr>)
        else Some (Inr s1)
      else Some (Inr s))"

section \<open>What a format means\<close>

datatype conv = Signed_d | Signed_i | Unsigned | Octal | Hex_lower | Hex_upper | Char | Str "alt_u8 list"

fun letter :: "conv \<Rightarrow> alt_u8" where
  "letter Signed_d = 100" | "letter Signed_i = 105" | "letter Unsigned = 117" | "letter Octal = 111"
| "letter Hex_lower = 120" | "letter Hex_upper = 88" | "letter Char = 99" | "letter (Str bs) = 115"

text \<open>A character, a per cent sign, or a conversion: leading zero, width as its digits, long, kind, argument.\<close>

datatype log_item = Plain alt_u8 | Per_Cent | Conv bool "nat list" bool conv alt_u32

definition width_of :: "nat list \<Rightarrow> nat" where "width_of = foldl (\<lambda>n d. 10 * n + d) 0"

fun item_ok :: "(addr \<Rightarrow> alt_u8) \<Rightarrow> log_item \<Rightarrow> bool" where
  "item_ok mem (Plain b) \<longleftrightarrow> b \<noteq> 37 \<and> b \<noteq> 0"
| "item_ok mem Per_Cent \<longleftrightarrow> True"
| "item_ok mem (Conv z ws lg k v) \<longleftrightarrow> (\<forall>d\<in>set ws. d \<le> 9) \<and> width_of ws < 2147483648
     \<and> (z \<or> ws = [] \<or> hd ws \<noteq> 0)
     \<and> (case k of Str bs \<Rightarrow> c_string mem v bs \<and> length bs < 2147483648 | _ \<Rightarrow> True)"

fun item_format :: "log_item \<Rightarrow> alt_u8 list" where
  "item_format (Plain b) = [b]"
| "item_format Per_Cent = [37, 37]"
| "item_format (Conv z ws lg k v) =
     [37] @ (if z then [48] else []) @ map (\<lambda>d. of_nat (48 + d)) ws @ (if lg then [108] else []) @ [letter k]"

fun item_args :: "log_item \<Rightarrow> alt_u32 list" where
  "item_args (Conv z ws lg k v) = [v]"
| "item_args _ = []"

text \<open>A number: sign, digits, and blanks before the sign or zeros after it up to the width.\<close>

definition number_text :: "bool \<Rightarrow> nat \<Rightarrow> bool \<Rightarrow> alt_u8 list \<Rightarrow> alt_u8 list" where
  "number_text zero width negative ds =
     (let sgn = (if negative then [45] else []); pad = width - length sgn - length ds
      in if zero then sgn @ replicate pad 48 @ ds else replicate pad 32 @ sgn @ ds)"

fun conv_text :: "bool \<Rightarrow> nat \<Rightarrow> conv \<Rightarrow> alt_u32 \<Rightarrow> alt_u8 list" where
  "conv_text zero width Unsigned v = number_text zero width False (digits 10 False (unat v))"
| "conv_text zero width Octal v = number_text zero width False (digits 8 False (unat v))"
| "conv_text zero width Hex_lower v = number_text zero width False (digits 16 False (unat v))"
| "conv_text zero width Hex_upper v = number_text zero width False (digits 16 True (unat v))"
| "conv_text zero width Char v = replicate (width - 1) 32 @ [ucast v]"
| "conv_text zero width (Str bs) v = replicate (width - length bs) 32 @ bs"
| "conv_text zero width _ v = number_text zero width (sint v < 0) (digits 10 False (nat \<bar>sint v\<bar>))"

fun item_text :: "log_item \<Rightarrow> alt_u8 list" where
  "item_text (Plain b) = [b]"
| "item_text Per_Cent = [37]"
| "item_text (Conv z ws lg k v) = conv_text z (width_of ws) k v"

section \<open>Counting and cutting digits\<close>

lemma unat_div_32: "unat (v div b) = unat v div unat b" for v b :: alt_u32
  by (rule unat_div)

lemma unat_times_32:
  "unat p * unat b < 4294967296 \<Longrightarrow> unat (p * b) = unat p * unat b" for p b :: alt_u32
  by (simp add: unat_word_ariths)

text \<open>The largest power of the base that is not above the number, or 1; and its exponent.\<close>

lemma log_places_power:
  assumes "2 \<le> unat b" "unat p * unat v < 4294967296"
  shows "\<exists>k. log_places b v p c = Some (p * b ^ k, c + int k) \<and> unat v < unat b ^ Suc k
    \<and> (k = 0 \<or> unat b ^ k \<le> unat v)"
  using assms(2)
proof (induction "unat v" arbitrary: v p c rule: less_induct)
  case less
  show ?case
  proof (cases "v div b > 0")
    case False
    then have "unat v div unat b = 0" by (simp add: word_less_nat_alt unat_div_32)
    then have "unat v < unat b" using assms(1) by (simp add: div_eq_0_iff)
    then show ?thesis using False by (intro exI [of _ 0]) (simp add: log_places.simps)
  next
    case True
    then have pos: "0 < unat v div unat b" by (simp add: word_less_nat_alt unat_div_32)
    then have ge: "unat b \<le> unat v" by (metis div_less not_less_iff_gr_or_eq not_le)
    have lt: "unat (v div b) < unat v" using ge assms(1) by (simp add: unat_div_32)
    have le: "unat b * (unat v div unat b) \<le> unat v" by simp
    have "unat p * unat b \<le> unat p * unat v" by (rule mult_le_mono2 [OF ge])
    with less.prems have pb: "unat (p * b) = unat p * unat b" by (intro unat_times_32) linarith
    have "unat p * (unat b * (unat v div unat b)) \<le> unat p * unat v" by (rule mult_le_mono2 [OF le])
    then have "unat (p * b) * unat (v div b) \<le> unat p * unat v" by (simp only: pb unat_div_32 mult.assoc)
    with less.prems have "unat (p * b) * unat (v div b) < 4294967296" by linarith
    from less.hyps [OF lt this, of "c + 1"] obtain k where k:
      "log_places b (v div b) (p * b) (c + 1) = Some (p * b * b ^ k, c + 1 + int k)"
      "unat v div unat b < unat b ^ Suc k" "k = 0 \<or> unat b ^ k \<le> unat v div unat b"
      by (auto simp: unat_div_32)
    have "log_places b v p c = Some (p * b ^ Suc k, c + int (Suc k))"
      using True k(1) by (subst log_places.simps) (simp add: mult.assoc)
    moreover have "unat v < unat b ^ Suc (Suc k)"
      using k(2) assms(1) by (simp add: div_less_iff_less_mult mult.commute)
    moreover have "unat b ^ Suc k \<le> unat v"
    proof (cases "k = 0")
      case False
      then have "unat b ^ k \<le> unat v div unat b" using k(3) by simp
      then have "unat b * unat b ^ k \<le> unat b * (unat v div unat b)" by (rule mult_le_mono2)
      with le have "unat b * unat b ^ k \<le> unat v" by linarith
      then show ?thesis by simp
    qed (use ge in simp)
    ultimately show ?thesis by blast
  qed
qed

lemma unat_power_32: "unat b ^ k < 4294967296 \<Longrightarrow> unat (b ^ k) = unat b ^ k" for b :: alt_u32
proof (induction k)
  case (Suc k)
  show ?case
  proof (cases "unat b = 0")
    case True
    then have "b = 0" by (simp only: unat_eq_0)
    then show ?thesis by simp
  next
    case False
    then have "unat b ^ k \<le> unat b ^ Suc k" by simp
    with Suc.prems have "unat b ^ k < 4294967296" by linarith
    with Suc.IH Suc.prems show ?thesis by (simp add: unat_times_32)
  qed
qed simp

lemma log_digit_of: "unat q < 36 \<Longrightarrow> log_digit upper q = digit_of upper (unat q)"
proof -
  assume small: "unat q < 36"
  have "\<forall>n\<in>set [0..<36]. log_digit u (of_nat n) = digit_of u n" for u
    by (cases u) (simp_all add: upt_rec log_digit_def digit_of_def)
  from bspec [OF this, of "unat q"] small show ?thesis by simp
qed

lemma nat_minus_int: "nat (i - int m) = nat i - m"
  by arith

section \<open>The port\<close>

text \<open>
  What the code relies on: reading the control register sends nothing, after some reads it shows
  room, and a character written then is sent. \<open>busy\<close> bounds the number of reads.
\<close>

locale log_port =
  fixes bus :: "'h bus" and base :: addr and out :: "'h \<Rightarrow> alt_u8 list" and busy :: "'h \<Rightarrow> nat"
  assumes poll_full: "iord bus base 1 h = (v, h') \<Longrightarrow> v AND WSPACE_MSK = 0 \<Longrightarrow> busy h' < busy h \<and> out h' = out h"
    and poll_room: "iord bus base 1 h = (v, h') \<Longrightarrow> v AND WSPACE_MSK \<noteq> 0 \<Longrightarrow> out (iowr bus base 0 w h') = out h @ [ucast w]"
begin

lemma waits: "\<exists>g h'. alt_log_wait bus base h = Some h' \<and> out g = out h \<and> snd (iord bus base 1 g) = h'
    \<and> fst (iord bus base 1 g) AND WSPACE_MSK \<noteq> 0"
proof (induction "busy h" arbitrary: h rule: less_induct)
  case less
  show ?case
  proof (cases "fst (iord bus base 1 h) AND WSPACE_MSK = 0")
    case True
    define h1 where "h1 = snd (iord bus base 1 h)"
    have "busy h1 < busy h" "out h1 = out h"
      using poll_full [of h "fst (iord bus base 1 h)" h1] True by (simp_all add: h1_def)
    moreover have "alt_log_wait bus base h = alt_log_wait bus base h1"
      using True by (subst alt_log_wait.simps) (simp add: h1_def)
    ultimately show ?thesis using less.hyps [of h1] by simp
  next
    case False
    then have "alt_log_wait bus base h = Some (snd (iord bus base 1 h))"
      by (subst alt_log_wait.simps) simp
    with False show ?thesis by blast
  qed
qed

lemma txchar: "\<exists>h'. alt_log_txchar bus c base h = Some h' \<and> out h' = out h @ [word_of_int c]"
proof -
  obtain g h' where g: "alt_log_wait bus base h = Some h'" "out g = out h" "iord bus base 1 g = (fst (iord bus base 1 g), h')"
    "fst (iord bus base 1 g) AND WSPACE_MSK \<noteq> 0"
    using waits by (metis prod.collapse)
  have "ucast (word_of_int c :: alt_u32) = (word_of_int c :: alt_u8)"
    by (rule bit_word_eqI) (simp add: bit_simps)
  then show ?thesis using g(1) poll_room [OF g(3,4), of "word_of_int c"] by (simp add: alt_log_txchar_def g(2))
qed

lemma repeat: "\<exists>h'. alt_log_repeat bus c n base h = Some h' \<and> out h' = out h @ replicate n c"
proof (induction n arbitrary: h)
  case (Suc n)
  obtain g where g: "alt_log_txchar bus (sint c) base h = Some g" "out g = out h @ [c]"
    using txchar [of "sint c" h] by auto
  with Suc.IH [of g] show ?case by auto
qed simp

lemma repchar: "\<exists>h'. alt_log_repchar bus c r base h = Some h' \<and> out h' = out h @ replicate (nat r) c"
  unfolding alt_log_repchar_def by (rule repeat)

lemma digits_sent:
  assumes "2 \<le> unat b" "unat b \<le> 36" "unat b ^ k < 4294967296" "unat v < unat b ^ Suc k"
  shows "\<exists>h'. log_digits bus base b upper v (b ^ k) h = Some h'
    \<and> out h' = out h @ map (\<lambda>i. digit_of upper (unat v div unat b ^ i mod unat b)) (rev [0..<Suc k])"
  using assms(3,4)
proof (induction k arbitrary: v h)
  case 0
  have "unat (1 div b) = 0" using assms(1) by (simp only: unat_div_32 unat_1) simp
  then have "1 div b = 0" by (simp only: unat_eq_0)
  moreover obtain g where "alt_log_txchar bus (uint (log_digit upper v)) base h = Some g"
    "out g = out h @ [log_digit upper v]" using txchar [of "uint (log_digit upper v)" h] by auto
  ultimately show ?case
    using 0 assms(2) log_digit_of [of v upper] by (subst log_digits.simps) (simp add: log_digits.simps [of bus base b upper _ 0])
next
  case (Suc k)
  have lt: "unat b ^ k < 4294967296"
    using Suc.prems(1) assms(1) by (rule_tac le_less_trans [OF _ Suc.prems(1)]) simp
  have p: "unat (b ^ Suc k) = unat b ^ Suc k" by (rule unat_power_32 [OF Suc.prems(1)])
  have "0 < unat b ^ Suc k" using assms(1) by simp
  with p have nz: "b ^ Suc k \<noteq> 0" by (metis less_irrefl unat_0)
  have q: "unat (v div b ^ Suc k) = unat v div unat b ^ Suc k" by (simp only: unat_div_32 p)
  have small: "unat v div unat b ^ Suc k < unat b"
    using Suc.prems(2) by (intro less_mult_imp_div_less) (simp add: ac_simps)
  have "unat (b ^ Suc k div b) = unat (b ^ k)"
    using assms(1) by (simp only: unat_div_32 p unat_power_32 [OF lt]) simp
  then have next_p: "b ^ Suc k div b = b ^ k" by (simp only: word_unat_eq_iff)
  have r: "unat (v mod b ^ Suc k) = unat v mod unat b ^ Suc k" by (simp only: unat_mod p)
  then have "unat (v mod b ^ Suc k) < unat b ^ Suc k" using assms(1) by simp
  obtain g where g: "alt_log_txchar bus (uint (log_digit upper (v div b ^ Suc k))) base h = Some g"
    "out g = out h @ [log_digit upper (v div b ^ Suc k)]"
    using txchar [of "uint (log_digit upper (v div b ^ Suc k))" h] by auto
  obtain h' where h': "log_digits bus base b upper (v mod b ^ Suc k) (b ^ k) g = Some h'"
    "out h' = out g @ map (\<lambda>i. digit_of upper (unat (v mod b ^ Suc k) div unat b ^ i mod unat b)) (rev [0..<Suc k])"
    using Suc.IH [OF lt \<open>unat (v mod b ^ Suc k) < unat b ^ Suc k\<close>] by blast
  have "log_digits bus base b upper v (b ^ Suc k) h = Some h'"
    using nz g(1) h'(1) next_p by (subst log_digits.simps) (simp del: power_Suc)
  moreover have "log_digit upper (v div b ^ Suc k) = digit_of upper (unat v div unat b ^ Suc k mod unat b)"
    using small assms(2) log_digit_of [of "v div b ^ Suc k" upper] by (simp only: q) simp
  moreover have "map (\<lambda>i. digit_of upper (unat (v mod b ^ Suc k) div unat b ^ i mod unat b)) (rev [0..<Suc k])
    = map (\<lambda>i. digit_of upper (unat v div unat b ^ i mod unat b)) (rev [0..<Suc k])"
    using assms(1) by (intro map_cong refl) (auto simp only: r digit_below set_rev set_upt atLeastLessThan_iff)
  ultimately show ?case by (simp add: h'(2) g(2) del: power_Suc)
qed

lemma integer_sent:
  assumes "2 \<le> unat (fmtBase f)" "unat (fmtBase f) \<le> 36" "- 1 \<le> fmtBeforeDecimal f"
  shows "\<exists>h'. log_integer bus base f v h = Some h' \<and> out h' = out h @
    number_text (fmtLeadingZero f) (nat (fmtBeforeDecimal f)) (fmtSigned f \<and> sint v < 0)
      (digits (unat (fmtBase f)) (fmtCase f)
        (if fmtSigned f \<and> sint v < 0 then nat \<bar>sint v\<bar> else unat v))"
proof -
  let ?b = "fmtBase f" and ?before = "fmtBeforeDecimal f"
  have top: "v AND 0x80000000 \<noteq> 0 \<longleftrightarrow> sint v < 0"
  proof -
    have "v AND push_bit 31 1 = 0 \<longleftrightarrow> \<not> bit v 31" by (rule and_push_bit_eq_0_iff) simp
    moreover have "push_bit 31 1 = (0x80000000 :: alt_u32)" by simp
    moreover have "bit v 31 \<longleftrightarrow> sint v < 0" using bit_last_iff [of v] by simp
    ultimately show ?thesis by simp
  qed
  define sign where "sign \<longleftrightarrow> fmtSigned f \<and> sint v < 0"
  define v1 where "v1 = (if sign then NOT v + 1 else v)"
  have v1: "unat v1 = (if sign then nat \<bar>sint v\<bar> else unat v)"
  proof (cases sign)
    case True
    then have neg: "sint v < 0" by (simp add: sign_def)
    then have u: "2147483648 \<le> uint v" "sint v = uint v - 4294967296"
      by (simp_all add: sint_32 split: if_splits)
    have "uint (- v) = (- uint v) mod 4294967296" by (simp add: uint_word_ariths)
    also have "\<dots> = 4294967296 - uint v"
      using u(1) uint_32_bounds [of v] by (simp add: zmod_zminus1_eq_if)
    finally have "uint (- v) = \<bar>sint v\<bar>" using u(2) neg by simp
    then have "unat (- v) = nat \<bar>sint v\<bar>" by (simp only: unat_eq_nat_uint)
    then show ?thesis using True by (simp add: v1_def minus_eq_not_plus_1)
  qed (simp add: v1_def)
  obtain k where k: "log_places ?b v1 1 1 = Some (?b ^ k, 1 + int k)" "unat v1 < unat ?b ^ Suc k"
    "k = 0 \<or> unat ?b ^ k \<le> unat v1"
    using log_places_power [of ?b 1 v1 1] assms(1) unat_32_bound [of v1] by auto
  have ds: "digits (unat ?b) (fmtCase f) (unat v1)
      = map (\<lambda>i. digit_of (fmtCase f) (unat v1 div unat ?b ^ i mod unat ?b)) (rev [0..<Suc k])"
    by (rule digits_positions [OF assms(1) k(2,3)])
  have len: "length (digits (unat ?b) (fmtCase f) (unat v1)) = Suc k"
    by (rule digits_length [OF assms(1) k(2,3)])
  have bound: "unat ?b ^ k < 4294967296" using k(3) unat_32_bound [of v1] by auto
  define pad where "pad = nat ?before - (if sign then 1 else 0) - Suc k"
  have pad: "nat (if sign then ?before - (1 + int k) - 1 else ?before - (1 + int k)) = pad"
    using nat_minus_int [of ?before "Suc k"] nat_minus_int [of ?before "Suc (Suc k)"]
    by (cases sign) (simp_all add: pad_def algebra_simps)
  define lead :: "alt_u8 list" where "lead = (if fmtLeadingZero f then (if sign then [45] else []) @ replicate pad 48
    else replicate pad 32 @ (if sign then [45] else []))"
  obtain g where g: "log_lead bus base (fmtLeadingZero f) sign (?before - (1 + int k)) h = Some g" "out g = out h @ lead"
  proof (cases "fmtLeadingZero f")
    case True
    obtain g1 where g1: "(if sign then alt_log_txchar bus 45 base h else Some h) = Some g1"
      "out g1 = out h @ (if sign then [45] else [])" using txchar [of 45 h] by (cases sign) auto
    obtain g where "alt_log_repchar bus 48 (if sign then ?before - (1 + int k) - 1 else ?before - (1 + int k)) base g1 = Some g"
      "out g = out g1 @ replicate pad 48" using repchar [of 48 _ g1] unfolding pad [symmetric] by blast
    then show thesis using that [of g] True g1 by (simp add: log_lead_def lead_def)
  next
    case False
    obtain g1 where g1: "alt_log_repchar bus 32 (if sign then ?before - (1 + int k) - 1 else ?before - (1 + int k)) base h = Some g1"
      "out g1 = out h @ replicate pad 32" using repchar [of 32 _ h] unfolding pad [symmetric] by blast
    obtain g where "(if sign then alt_log_txchar bus 45 base g1 else Some g1) = Some g"
      "out g = out g1 @ (if sign then [45] else [])" using txchar [of 45 g1] by (cases sign) auto
    then show thesis using that [of g] False g1 by (simp add: log_lead_def lead_def)
  qed
  obtain h' where h': "log_digits bus base ?b (fmtCase f) v1 (?b ^ k) g = Some h'"
    "out h' = out g @ digits (unat ?b) (fmtCase f) (unat v1)"
    using digits_sent [OF assms(1,2) bound k(2), of "fmtCase f" g] unfolding ds by blast
  have "log_integer bus base f v h = Some h'"
    using g(1) h'(1) k(1) unfolding log_integer_def Let_def top sign_def [symmetric] v1_def [symmetric] by simp
  moreover have "lead @ digits (unat ?b) (fmtCase f) (unat v1)
    = number_text (fmtLeadingZero f) (nat ?before) sign (digits (unat ?b) (fmtCase f) (unat v1))"
    by (simp add: number_text_def lead_def len pad_def)
  ultimately show ?thesis using g(2) h'(2) v1 by (simp add: sign_def)
qed

lemma string_sent:
  "c_string mem s bs \<Longrightarrow> \<exists>h'. log_string bus base mem s h = Some h' \<and> out h' = out h @ bs"
proof (induction bs arbitrary: s h)
  case (Cons b bs)
  obtain g where "alt_log_txchar bus (sint b) base h = Some g" "out g = out h @ [b]"
    using txchar [of "sint b" h] by auto
  with Cons.prems Cons.IH [of "s + 1" g] show ?case by (subst log_string.simps) auto
qed (simp add: log_string.simps)

end

lemma strlen_c_string: "c_string mem s bs \<Longrightarrow> c_strlen mem s = Some (of_nat (length bs))"
proof (induction bs arbitrary: s)
  case (Cons b bs)
  then show ?case by (subst c_strlen.simps) (simp add: add.commute)
qed (simp add: c_strlen.simps)

text \<open>The padding of a string, computed with unsigned numbers and read as an \<^verbatim>\<open>int\<close>.\<close>

lemma pad_blanks:
  assumes "w < 2147483648" "n < 2147483648"
  shows "nat (sint (word_of_int (if ws = [] then - 1 else int w) - of_nat n :: alt_u32))
    = (if ws = [] then 0 else w - n)"
proof -
  have range: "sint (word_of_int i :: alt_u32) = i" if "- 2147483648 \<le> i" "i < 2147483648" for i
    using that by (simp add: signed_of_int signed_take_bit_int_eq_self_iff)
  define i where "i = (if ws = [] then - 1 else int w)"
  have e: "(word_of_int i - of_nat n :: alt_u32) = word_of_int (i - int n)" by simp
  have s: "sint (word_of_int (i - int n) :: alt_u32) = i - int n"
    by (rule range) (use assms in \<open>auto simp: i_def\<close>)
  show ?thesis unfolding i_def [symmetric] e s nat_minus_int by (simp add: i_def)
qed

text \<open>The flags that a conversion letter sets before it prints.\<close>

definition conv_flags :: "bool \<Rightarrow> nat list \<Rightarrow> bool \<Rightarrow> pf \<Rightarrow> pf" where
  "conv_flags z ws lg f = f\<lparr>pf_state := pfState_otherFmtChar, fmtLeadingZero := z, fmtLong := lg, fmtBase := 10,
     fmtSigned := True, fmtCase := False, fmtAfterDecimal := - 1,
     fmtBeforeDecimal := (if ws = [] then - 1 else int (width_of ws))\<rparr>"

context log_port
begin

lemma conversion_sent:
  assumes "item_ok mem (Conv z ws lg k v)"
  shows "\<exists>h'. log_conversion bus base mem (letter k) (conv_flags z ws lg f) (v # vs) h = Some (Inr (vs, h'))
    \<and> out h' = out h @ conv_text z (width_of ws) k v"
proof -
  let ?f = "conv_flags z ws lg f"
  have w: "- 1 \<le> fmtBeforeDecimal ?f" "nat (fmtBeforeDecimal ?f) = width_of ws" "fmtLeadingZero ?f = z"
    by (simp_all add: conv_flags_def width_of_def)
  have int: "\<exists>h'. log_integer bus base g v h = Some h' \<and> out h' = out h @
      number_text z (width_of ws) (fmtSigned g \<and> sint v < 0) (digits (unat (fmtBase g)) (fmtCase g)
        (if fmtSigned g \<and> sint v < 0 then nat \<bar>sint v\<bar> else unat v))"
    if "fmtBeforeDecimal g = fmtBeforeDecimal ?f" "fmtLeadingZero g = z" "fmtBase g \<in> {8, 10, 16}" for g
  proof -
    have "2 \<le> unat (fmtBase g)" "unat (fmtBase g) \<le> 36" "- 1 \<le> fmtBeforeDecimal g"
      using that(1,3) w(1) by auto
    from integer_sent [OF this, of v h] show ?thesis unfolding that(1,2) w(2) .
  qed
  have pos: "\<not> sint v < 0 \<Longrightarrow> unat v = nat \<bar>sint v\<bar>"
  proof -
    assume "\<not> sint v < 0"
    then have "sint v = uint v" using uint_32_bounds [of v] by (simp add: sint_32 split: if_splits)
    then show "unat v = nat \<bar>sint v\<bar>" by simp
  qed
  show ?thesis
  proof (cases k)
    case Signed_d
    obtain h' where "log_integer bus base ?f v h = Some h'"
      "out h' = out h @ conv_text z (width_of ws) Signed_d v"
      using int [of ?f] pos by (auto simp: conv_flags_def split: if_splits)
    then show ?thesis by (simp add: Signed_d log_conversion_def)
  next
    case Signed_i
    obtain h' where "log_integer bus base ?f v h = Some h'"
      "out h' = out h @ conv_text z (width_of ws) Signed_i v"
      using int [of ?f] pos by (auto simp: conv_flags_def split: if_splits)
    then show ?thesis by (simp add: Signed_i log_conversion_def)
  next
    case Unsigned
    with int [of "?f\<lparr>fmtSigned := False\<rparr>"] show ?thesis
      by (auto simp: log_conversion_def conv_flags_def)
  next
    case Octal
    with int [of "?f\<lparr>fmtSigned := False, fmtBase := 8\<rparr>"] show ?thesis
      by (auto simp: log_conversion_def conv_flags_def)
  next
    case Hex_lower
    with int [of "?f\<lparr>fmtSigned := False, fmtBase := 16\<rparr>"] show ?thesis
      by (auto simp: log_conversion_def conv_flags_def)
  next
    case Hex_upper
    with int [of "?f\<lparr>fmtSigned := False, fmtBase := 16, fmtCase := True\<rparr>"] show ?thesis
      by (auto simp: log_conversion_def conv_flags_def)
  next
    case Char
    obtain g where g: "alt_log_repchar bus 32 (fmtBeforeDecimal ?f - 1) base h = Some g"
      "out g = out h @ replicate (width_of ws - 1) 32"
      using repchar [of 32 "fmtBeforeDecimal ?f - 1" h] w by (auto simp: nat_diff_distrib')
    obtain h' where "alt_log_txchar bus (sint v) base g = Some h'" "out h' = out g @ [ucast v]"
      using txchar [of "sint v" g] by (auto simp: low_byte)
    with g show ?thesis by (simp add: Char log_conversion_def)
  next
    case (Str bs)
    then have s: "c_string mem v bs" "length bs < 2147483648" "width_of ws < 2147483648" using assms by simp_all
    have "nat (sint (word_of_int (fmtBeforeDecimal ?f) - of_nat (length bs) :: alt_u32)) = width_of ws - length bs"
      using pad_blanks [OF s(3,2), of ws] w(1) by (simp add: conv_flags_def width_of_def)
    then obtain g where g: "alt_log_repchar bus 32 (sint (word_of_int (fmtBeforeDecimal ?f) - of_nat (length bs) :: alt_u32)) base h = Some g"
      "out g = out h @ replicate (width_of ws - length bs) 32"
      using repchar by metis
    obtain h' where "log_string bus base mem v g = Some h'" "out h' = out g @ bs"
      using string_sent [OF s(1)] by blast
    with g s show ?thesis by (simp add: Str log_conversion_def strlen_c_string)
  qed
qed

end

section \<open>The formatter reads the format\<close>

lemma width_grows: "n \<le> foldl (\<lambda>n d. 10 * n + d) n ws" for n :: nat
proof (induction ws arbitrary: n)
  case (Cons d ws)
  from Cons.IH [of "10 * n + d"] show ?case by simp
qed simp

lemma c_int_small: "0 \<le> i \<Longrightarrow> i < 2147483648 \<Longrightarrow> c_int i = i"
  by (simp add: c_int_def signed_of_int signed_take_bit_int_eq_self_iff)

lemma width_char: "d \<le> 9 \<Longrightarrow> 48 \<le> (of_nat (48 + d) :: alt_u8) \<and> of_nat (48 + d) \<le> (57 :: alt_u8)
    \<and> uint (of_nat (48 + d) - 48 :: alt_u8) = int d \<and> of_nat (48 + d) \<noteq> (37 :: alt_u8) \<and> of_nat (48 + d) \<noteq> (46 :: alt_u8)
    \<and> (d \<noteq> 0 \<longrightarrow> of_nat (48 + d) \<noteq> (48 :: alt_u8))"
proof -
  assume "d \<le> 9"
  then have "d \<in> set [0..<10]" by auto
  moreover have "\<forall>d\<in>set [0..<10]. 48 \<le> (of_nat (48 + d) :: alt_u8) \<and> of_nat (48 + d) \<le> (57 :: alt_u8)
    \<and> uint (of_nat (48 + d) - 48 :: alt_u8) = int d \<and> of_nat (48 + d) \<noteq> (37 :: alt_u8) \<and> of_nat (48 + d) \<noteq> (46 :: alt_u8)
    \<and> (d \<noteq> 0 \<longrightarrow> of_nat (48 + d) \<noteq> (48 :: alt_u8))"
    by (simp add: upt_rec)
  ultimately show ?thesis by blast
qed

lemma format_width:
  assumes "pf_state f = pfState_otherFmtChar" "fmtAfterDecimal f < 0" "\<forall>d\<in>set ws. d \<le> 9"
    and "foldl (\<lambda>n d. 10 * n + d) (nat (fmtBeforeDecimal f)) ws < 2147483648"
  shows "log_format bus base mem (map (\<lambda>d. of_nat (48 + d)) ws @ w) f args h =
    log_format bus base mem w (f\<lparr>fmtBeforeDecimal := (if ws = [] then fmtBeforeDecimal f
      else int (foldl (\<lambda>n d. 10 * n + d) (nat (fmtBeforeDecimal f)) ws))\<rparr>) args h"
  using assms
proof (induction ws arbitrary: f)
  case (Cons d ws)
  define n where "n = 10 * nat (fmtBeforeDecimal f) + d"
  have "n < 2147483648" using width_grows [of n ws] Cons.prems(4) by (simp add: n_def)
  then have c: "c_int ((if fmtBeforeDecimal f < 0 then 0 else c_int (fmtBeforeDecimal f * 10)) + int d) = int n"
    by (simp add: n_def c_int_small)
  define f1 where "f1 = f\<lparr>fmtBeforeDecimal := int n\<rparr>"
  have b: "nat (fmtBeforeDecimal f1) = n" by (simp add: f1_def)
  have d: "d \<le> 9" using Cons.prems(3) by simp
  have "log_step bus base mem (of_nat (48 + d)) f args h = Some (Inr (f\<lparr>fmtBeforeDecimal := int n\<rparr>, args, h))"
    using Cons.prems(1,2) width_char [OF d] c by (simp add: log_step_def log_other_def del: of_nat_add)
  then have "log_format bus base mem (map (\<lambda>d. of_nat (48 + d)) (d # ws) @ w) f args h =
    log_format bus base mem (map (\<lambda>d. of_nat (48 + d)) ws @ w) (f\<lparr>fmtBeforeDecimal := int n\<rparr>) args h"
    by (simp del: of_nat_add)
  also have "\<dots> = log_format bus base mem w (f1\<lparr>fmtBeforeDecimal := (if ws = [] then fmtBeforeDecimal f1
      else int (foldl (\<lambda>n d. 10 * n + d) n ws))\<rparr>) args h"
    unfolding f1_def [symmetric]
    by (rule Cons.IH [of f1, unfolded b]) (use Cons.prems in \<open>simp_all add: f1_def n_def\<close>)
  also have "f1\<lparr>fmtBeforeDecimal := (if ws = [] then fmtBeforeDecimal f1
      else int (foldl (\<lambda>n d. 10 * n + d) n ws))\<rparr>
    = f\<lparr>fmtBeforeDecimal := int (foldl (\<lambda>n d. 10 * n + d) (nat (fmtBeforeDecimal f)) (d # ws))\<rparr>"
    by (cases "ws = []") (simp_all add: f1_def n_def)
  finally show ?case by simp
qed simp

lemma format_first:
  assumes "pf_state f = pfState_firstFmtChar" "c \<noteq> 48" "c \<noteq> 37"
  shows "log_format bus base mem (c # w) f args h = log_format bus base mem (c # w) (f\<lparr>pf_state := pfState_otherFmtChar\<rparr>) args h"
  using assms by (simp add: log_step_def)

lemma letter_facts: "letter k \<noteq> 48" "letter k \<noteq> 37" "letter k \<noteq> 46" "\<not> (48 \<le> letter k \<and> letter k \<le> 57)" "letter k \<noteq> 108"
  by (cases k; simp)+

lemma log_other_letter:
  "log_other bus base mem (letter k) f args h =
     do {
       r \<leftarrow> log_conversion bus base mem (letter k) f args h;
       Some (case r of Inl e \<Rightarrow> Inl e
             | Inr (args1, h1) \<Rightarrow> Inr (f\<lparr>pf_state := pfState_chars\<rparr>, args1, h1))
     }"
  by (cases k) (simp_all add: log_other_def)

text \<open>Up to the letter, a conversion only sets the flags.\<close>

lemma format_flags:
  assumes "pf_state f = pfState_chars" "item_ok mem (Conv z ws lg k v)"
  shows "\<exists>g. log_format bus base mem (item_format (Conv z ws lg k v) @ w) f args h
    = log_format bus base mem (letter k # w) (conv_flags z ws lg g) args h"
proof -
  let ?ds = "map (\<lambda>d. of_nat (48 + d)) ws :: alt_u8 list" and ?tail = "(if lg then [108] else []) @ letter k # w"
  define f1 where "f1 = f\<lparr>fmtLeadingZero := False, fmtLong := False, fmtBase := 10, fmtSigned := True,
    fmtCase := False, fmtBeforeDecimal := - 1, fmtAfterDecimal := - 1, pf_state := pfState_firstFmtChar\<rparr>"
  define f2 where "f2 = f1\<lparr>fmtLeadingZero := z, pf_state := pfState_otherFmtChar\<rparr>"
  define f3 where "f3 = f2\<lparr>fmtBeforeDecimal := (if ws = [] then - 1 else int (width_of ws))\<rparr>"
  have ok: "\<forall>d\<in>set ws. d \<le> 9" "width_of ws < 2147483648" "z \<or> ws = [] \<or> hd ws \<noteq> 0"
    using assms(2) by simp_all
  have "log_format bus base mem (item_format (Conv z ws lg k v) @ w) f args h
    = log_format bus base mem ((if z then [48] else []) @ ?ds @ ?tail) f1 args h"
    using assms(1) by (simp add: log_step_def f1_def)
  also have "\<dots> = log_format bus base mem (?ds @ ?tail) f2 args h"
  proof (cases z)
    case True
    then show ?thesis by (simp add: log_step_def f1_def f2_def)
  next
    case False
    obtain c w' where c: "?ds @ ?tail = c # w'" "c \<noteq> 48" "c \<noteq> 37"
    proof (cases ws)
      case Nil
      then show thesis using that letter_facts [of k] by (cases lg) simp_all
    next
      case (Cons d ws')
      then have "d \<le> 9" "d \<noteq> 0" using ok False by simp_all
      with width_char [of d] Cons that show thesis by (simp del: of_nat_add)
    qed
    have "f2 = f1\<lparr>pf_state := pfState_otherFmtChar\<rparr>" using False by (simp add: f1_def f2_def)
    with format_first [of f1 c bus base mem w' args h] c False show ?thesis by (simp add: f1_def)
  qed
  also have "\<dots> = log_format bus base mem ?tail f3 args h"
    using format_width [of f2 ws bus base mem ?tail args h] ok by (simp add: f3_def f2_def f1_def width_of_def)
  also have "\<dots> = log_format bus base mem (letter k # w) (f3\<lparr>fmtLong := lg\<rparr>) args h"
  proof (cases lg)
    case True
    have "log_step bus base mem 108 f3 args h = Some (Inr (f3\<lparr>fmtLong := True\<rparr>, args, h))"
      by (simp add: log_step_def log_other_def f3_def f2_def)
    with True show ?thesis by simp
  next
    case False
    have "f3\<lparr>fmtLong := False\<rparr> = f3" by (rule pf.equality) (simp_all add: f3_def f2_def f1_def)
    with False show ?thesis by simp
  qed
  also have "f3\<lparr>fmtLong := lg\<rparr> = conv_flags z ws lg f2"
    by (rule pf.equality) (simp_all add: conv_flags_def f3_def f2_def f1_def)
  finally show ?thesis by blast
qed

context log_port
begin

lemma item_sent:
  assumes "item_ok mem it" "pf_state f = pfState_chars"
  shows "\<exists>g h'. log_format bus base mem (item_format it @ w) f (item_args it @ args) h = log_format bus base mem w g args h'
    \<and> pf_state g = pfState_chars \<and> out h' = out h @ item_text it"
proof (cases it)
  case (Plain b)
  obtain g where g: "alt_log_txchar bus (sint b) base h = Some g" "out g = out h @ [b]"
    using txchar [of "sint b" h] by auto
  show ?thesis
    using Plain assms g by (intro exI [of _ f] exI [of _ g]) (simp add: log_step_def)
next
  case Per_Cent
  obtain g where g: "alt_log_txchar bus 37 base h = Some g" "out g = out h @ [37]"
    using txchar [of 37 h] by auto
  show ?thesis using Per_Cent assms(2) g by (simp add: log_step_def) (metis (no_types) pf.select_convs(1) pf.surjective pf.update_convs(1))
next
  case (Conv z ws lg k v)
  obtain g where g: "log_format bus base mem (item_format it @ w) f (item_args it @ args) h
    = log_format bus base mem (letter k # w) (conv_flags z ws lg g) (v # args) h"
    using format_flags [OF assms(2), of mem z ws lg k v bus base w "v # args" h] assms(1) Conv by auto
  obtain h' where h': "log_conversion bus base mem (letter k) (conv_flags z ws lg g) (v # args) h = Some (Inr (args, h'))"
    "out h' = out h @ conv_text z (width_of ws) k v"
    using conversion_sent [of mem z ws lg k v g args h] assms(1) Conv by blast
  have "pf_state (conv_flags z ws lg g) = pfState_otherFmtChar" by (simp add: conv_flags_def)
  then have "log_format bus base mem (letter k # w) (conv_flags z ws lg g) (v # args) h
    = log_format bus base mem w ((conv_flags z ws lg g)\<lparr>pf_state := pfState_chars\<rparr>) args h'"
    using h'(1) by (simp add: log_step_def log_other_letter)
  with g h'(2) Conv show ?thesis
    by (intro exI [of _ "(conv_flags z ws lg g)\<lparr>pf_state := pfState_chars\<rparr>"] exI [of _ h']) simp
qed

lemma items_sent:
  assumes "\<forall>it\<in>set its. item_ok mem it" "pf_state f = pfState_chars"
  shows "\<exists>g h'. log_format bus base mem (concat (map item_format its)) f (concat (map item_args its)) h
      = Some (Inr (g, [], h')) \<and> out h' = out h @ concat (map item_text its)"
  using assms
proof (induction its arbitrary: f h)
  case (Cons it its)
  obtain g h1 where g: "log_format bus base mem (item_format it @ concat (map item_format its)) f
      (item_args it @ concat (map item_args its)) h
    = log_format bus base mem (concat (map item_format its)) g (concat (map item_args its)) h1"
    "pf_state g = pfState_chars" "out h1 = out h @ item_text it"
    using item_sent [of mem it f] Cons.prems by force
  from Cons.IH [OF _ g(2), of h1] Cons.prems(1) show ?case by (auto simp: g(1,3))
qed simp

lemma printf_renders:
  assumes "\<forall>it\<in>set its. item_ok mem it"
  shows "\<exists>h'. alt_log_printf_proc bus base mem (concat (map item_format its)) (concat (map item_args its)) h = Some (Inr (0, h'))
    \<and> out h' = out h @ concat (map item_text its)"
  using items_sent [OF assms, of pf_init h]
  by (auto simp: alt_log_printf_proc_def alt_log_private_printf_def pf_init_def)

end

section \<open>A simulated port\<close>

text \<open>The port is busy for some reads; then there is room, until a character is written.\<close>

record sim_port =
  sp_busy :: nat
  sp_sent :: "alt_u8 list"

definition sim_port_bus :: "sim_port bus" where
  "sim_port_bus = \<lparr>
     iord = (\<lambda>b reg h. if reg = 1 then (if sp_busy h = 0 then (0x10000, h) else (0, h\<lparr>sp_busy := sp_busy h - 1\<rparr>)) else (0, h)),
     iowr = (\<lambda>b reg v h. if reg = 0 then h\<lparr>sp_busy := 2, sp_sent := sp_sent h @ [ucast v]\<rparr> else h)\<rparr>"

interpretation sim_log: log_port sim_port_bus base sp_sent sp_busy for base
  by unfold_locales (auto simp: sim_port_bus_def WSPACE_MSK_def split: if_splits)

section \<open>Properties\<close>

text \<open>Property C26: the \<^verbatim>\<open>printf\<close> of the logging sends, for the format and arguments of a list of items,
  exactly the texts of the items, waiting for room as often as it has to: every conversion is
  rendered with its sign (the smallest integer included), its digits in its base, and padded to
  its width with blanks before the sign or zeros after it.\<close>

theorem alt_log_printf_renders:
  assumes "log_port bus port out busy" and "\<forall>it\<in>set its. item_ok mem it"
  shows "\<exists>h'. alt_log_printf_proc bus port mem (concat (map item_format its)) (concat (map item_args its)) h = Some (Inr (0, h'))
    \<and> out h' = out h @ concat (map item_text its)"
  by (rule log_port.printf_renders [OF assms])

theorem alt_log_printf_renders_witness:
  "\<exists>h'. alt_log_printf_proc sim_port_bus 64 (\<lambda>_. 0) [37, 48, 54, 100, 58, 37, 88] [- 42, 0xBEEF] \<lparr>sp_busy = 3, sp_sent = []\<rparr>
      = Some (Inr (0, h')) \<and> sp_sent h' = [45, 48, 48, 48, 52, 50, 58, 66, 69, 69, 70]"
proof -
  let ?its = "[Conv True [6] False Signed_d (- 42), Plain 58, Conv False [] False Hex_upper 0xBEEF]"
  have "\<forall>it\<in>set ?its. item_ok (\<lambda>_. 0) it" by (simp add: width_of_def)
  from alt_log_printf_renders [OF sim_log.log_port_axioms this, of 64 "\<lparr>sp_busy = 3, sp_sent = []\<rparr>"]
  show ?thesis
    by (simp add: number_text_def width_of_def digits.simps digit_of_def numeral_3_eq_3)
qed

end
