(* ===== verification/Uart_Small.thy ===== *)
theory Uart_Small
  imports Alt_Log Uart_System
begin

text \<open>
  The small driver of the JTAG UART, of a build with \<^verbatim>\<open>ALT_USE_SMALL_DRIVERS\<close>: the first halves
  of \<^verbatim>\<open>drivers/src/altera_avalon_jtag_uart_read.c\<close> and \<^verbatim>\<open>_write.c\<close>. It has no buffers and no
  interrupts; both calls poll the device. What they rely on is the locale \<open>polled_uart\<close>, which
  extends the port of the logging by the receiving side; it is met by a simulated device.
\<close>

section \<open>Operations\<close>

text \<open>
  The driver's state is the base address alone. The loop of the reader returns what it has put
  into the buffer, \<open>got\<close>; \<open>space\<close> is the room in all.
\<close>

partial_function (option) small_read_loop ::
  "'h bus \<Rightarrow> addr \<Rightarrow> nat \<Rightarrow> alt_u32 \<Rightarrow> alt_u8 list \<Rightarrow> 'h \<Rightarrow> (alt_u8 list \<times> 'h) option" where
  "small_read_loop bus base space flags got h =
     (if length got < space then
        let data = fst (iord bus base UART_DATA h); h1 = snd (iord bus base UART_DATA h) in
        if data AND RVALID_MSK \<noteq> 0 then
          small_read_loop bus base space flags (got @ [ucast (data AND DATA_MSK)]) h1
        else if got \<noteq> [] then Some (got, h1)
        else if flags AND O_NONBLOCK \<noteq> 0 then Some (got, h1)
        else small_read_loop bus base space flags got h1
      else Some (got, h))"

definition small_uart_read ::
  "'h bus \<Rightarrow> addr \<Rightarrow> int \<Rightarrow> alt_u32 \<Rightarrow> 'h \<Rightarrow> ((int \<times> alt_u8 list) \<times> 'h) option" where
  "small_uart_read bus base space flags h =
     do {
       (got, h1) \<leftarrow> small_read_loop bus base (nat space) flags [] h;
       Some (if got \<noteq> [] then ((int (length got), got), h1)
             else if flags AND O_NONBLOCK \<noteq> 0 then ((- EWOULDBLOCK, []), h1)
             else ((- EIO, []), h1))
     }"

partial_function (option) small_write_loop ::
  "'h bus \<Rightarrow> addr \<Rightarrow> alt_u8 list \<Rightarrow> 'h \<Rightarrow> 'h option" where
  "small_write_loop bus base ptr h =
     (if ptr \<noteq> [] then
        let control = fst (iord bus base UART_CONTROL h); h1 = snd (iord bus base UART_CONTROL h) in
        if control AND WSPACE_MSK \<noteq> 0
        then small_write_loop bus base (tl ptr) (iowr bus base UART_DATA (scast (hd ptr)) h1)
        else small_write_loop bus base ptr h1
      else Some h)"

definition small_uart_write ::
  "'h bus \<Rightarrow> addr \<Rightarrow> alt_u8 list \<Rightarrow> int \<Rightarrow> alt_u32 \<Rightarrow> 'h \<Rightarrow> (int \<times> 'h) option" where
  "small_uart_write bus base ptr count flags h =
     do { h1 \<leftarrow> small_write_loop bus base (take (nat count) ptr) h; Some (count, h1) }"

section \<open>The device\<close>

text \<open>
  \<open>incoming\<close> is what the host sends and the program has not read yet, whether or not it has
  arrived; \<open>delay\<close> bounds the number of reads until the next byte is there.
\<close>

locale polled_uart = log_port bus base sent busy
  for bus :: "'h bus" and base :: addr and sent :: "'h \<Rightarrow> alt_u8 list" and busy :: "'h \<Rightarrow> nat" +
  fixes incoming :: "'h \<Rightarrow> alt_u8 list" and delay :: "'h \<Rightarrow> nat"
  assumes read_valid: "iord bus base 0 h = (v, h') \<Longrightarrow> v AND RVALID_MSK \<noteq> 0 \<Longrightarrow>
      incoming h = ucast (v AND DATA_MSK) # incoming h' \<and> sent h' = sent h"
    and read_nothing: "iord bus base 0 h = (v, h') \<Longrightarrow> v AND RVALID_MSK = 0 \<Longrightarrow>
      incoming h' = incoming h \<and> sent h' = sent h \<and> (incoming h \<noteq> [] \<longrightarrow> delay h' < delay h)"
    and poll_keeps: "iord bus base 1 h = (v, h') \<Longrightarrow> incoming h' = incoming h"
    and write_keeps: "incoming (iowr bus base 0 v h) = incoming h"
begin

text \<open>One pass of the reading loop.\<close>

lemma read_pass:
  assumes "iord bus base 0 h = (v, h')" "length got < space"
  shows "v AND RVALID_MSK \<noteq> 0 \<Longrightarrow> small_read_loop bus base space flags got h
      = small_read_loop bus base space flags (got @ [ucast (v AND DATA_MSK)]) h'"
    and "v AND RVALID_MSK = 0 \<Longrightarrow> small_read_loop bus base space flags got h
      = (if got \<noteq> [] \<or> flags AND O_NONBLOCK \<noteq> 0 then Some (got, h')
         else small_read_loop bus base space flags got h')"
  by (subst small_read_loop.simps; simp add: assms)+

text \<open>
  \<open>taken h bs h'\<close>: between \<open>h\<close> and \<open>h'\<close> the program has received exactly \<open>bs\<close>.
\<close>

definition taken :: "'h \<Rightarrow> alt_u8 list \<Rightarrow> 'h \<Rightarrow> bool" where
  "taken h bs h' \<longleftrightarrow> incoming h = bs @ incoming h' \<and> sent h' = sent h"

lemma taken_pass:
  assumes "iord bus base 0 h = (v, h')"
  shows "v AND RVALID_MSK \<noteq> 0 \<Longrightarrow> taken h' bs h'' \<Longrightarrow> taken h (ucast (v AND DATA_MSK) # bs) h''"
    and "v AND RVALID_MSK = 0 \<Longrightarrow> taken h' bs h'' \<Longrightarrow> taken h bs h''"
  using read_valid [OF assms] read_nothing [OF assms] by (auto simp: taken_def)

lemma taken_refl [simp]: "taken h [] h"
  by (simp add: taken_def)

lemma read_rest:
  assumes "got \<noteq> [] \<or> flags AND O_NONBLOCK \<noteq> 0" "length got \<le> space"
  shows "\<exists>bs h'. small_read_loop bus base space flags got h = Some (got @ bs, h')
    \<and> taken h bs h' \<and> length (got @ bs) \<le> space"
  using assms
proof (induction "space - length got" arbitrary: got h rule: less_induct)
  case less
  obtain v h1 where r: "iord bus base 0 h = (v, h1)" by fastforce
  consider "length got = space" | "length got < space" "v AND RVALID_MSK = 0"
    | "length got < space" "v AND RVALID_MSK \<noteq> 0"
    using less.prems(2) by linarith
  then show ?case
  proof cases
    case 1
    then show ?thesis by (subst small_read_loop.simps) auto
  next
    case 2
    then have "small_read_loop bus base space flags got h = Some (got @ [], h1)"
      using read_pass(2) [OF r 2(1,2)] less.prems(1) by simp
    moreover have "taken h [] h1" using taken_pass(2) [OF r 2(2)] by simp
    ultimately show ?thesis using 2(1) by (metis append_Nil2 less_imp_le)
  next
    case 3
    let ?g = "got @ [ucast (v AND DATA_MSK)]"
    have "space - length ?g < space - length got" "?g \<noteq> [] \<or> flags AND O_NONBLOCK \<noteq> 0" "length ?g \<le> space"
      using 3(1) by auto
    from less.hyps [OF this, of h1] obtain bs h' where
      "small_read_loop bus base space flags ?g h1 = Some (?g @ bs, h')" "taken h1 bs h'"
      "length (?g @ bs) \<le> space" by blast
    then have "small_read_loop bus base space flags got h = Some (got @ ucast (v AND DATA_MSK) # bs, h')
        \<and> taken h (ucast (v AND DATA_MSK) # bs) h' \<and> length (got @ ucast (v AND DATA_MSK) # bs) \<le> space"
      using read_pass(1) [OF r 3(1,2)] taken_pass(1) [OF r 3(2)] by simp
    then show ?thesis by blast
  qed
qed

lemma read_first:
  assumes "incoming h \<noteq> []" "0 < space"
  shows "\<exists>bs h'. small_read_loop bus base space flags [] h = Some (bs, h') \<and> taken h bs h' \<and> length bs \<le> space
    \<and> (flags AND O_NONBLOCK = 0 \<longrightarrow> bs \<noteq> [])"
  using assms
proof (induction "delay h" arbitrary: h rule: less_induct)
  case less
  obtain v h1 where r: "iord bus base 0 h = (v, h1)" by fastforce
  have sp: "length ([] :: alt_u8 list) < space" using less.prems(2) by simp
  show ?case
  proof (cases "v AND RVALID_MSK = 0")
    case False
    let ?b = "ucast (v AND DATA_MSK) :: alt_u8"
    have "[?b] \<noteq> [] \<or> flags AND O_NONBLOCK \<noteq> 0" "length [?b] \<le> space" using sp by auto
    from read_rest [OF this, of h1] obtain bs h' where
      "small_read_loop bus base space flags [?b] h1 = Some ([?b] @ bs, h')" "taken h1 bs h'" "length ([?b] @ bs) \<le> space"
      by blast
    then have "small_read_loop bus base space flags [] h = Some (?b # bs, h') \<and> taken h (?b # bs) h'
        \<and> length (?b # bs) \<le> space \<and> (flags AND O_NONBLOCK = 0 \<longrightarrow> ?b # bs \<noteq> [])"
      using read_pass(1) [OF r sp False] taken_pass(1) [OF r False] by simp
    then show ?thesis by blast
  next
    case True
    show ?thesis
    proof (cases "flags AND O_NONBLOCK = 0")
      case False
      then have "small_read_loop bus base space flags [] h = Some ([], h1)"
        using read_pass(2) [OF r sp True] by simp
      then show ?thesis using taken_pass(2) [OF r True taken_refl] False by auto
    next
      case block: True
      have "delay h1 < delay h" "incoming h1 \<noteq> []"
        using read_nothing [OF r True] less.prems(1) by auto
      from less.hyps [OF this less.prems(2)] obtain bs h' where
        "small_read_loop bus base space flags [] h1 = Some (bs, h')" "taken h1 bs h'" "length bs \<le> space" "bs \<noteq> []"
        using block by blast
      then show ?thesis
        using read_pass(2) [OF r sp True, of flags] taken_pass(2) [OF r True] block by auto
    qed
  qed
qed

text \<open>When nothing ever comes in, a blocking read never returns: unlike the other driver, this
  one does not notice that the host is gone.\<close>

lemma read_hangs:
  assumes "incoming h = []" "0 < space" "flags AND O_NONBLOCK = 0"
  shows "small_read_loop bus base space flags [] h = None"
proof (rule ccontr)
  assume "small_read_loop bus base space flags [] h \<noteq> None"
  then obtain r where r: "small_read_loop bus base space flags [] h = Some r" by blast
  have "\<not> (bus = bus \<and> base = base \<and> flags AND O_NONBLOCK = 0 \<and> [] = ([] :: alt_u8 list) \<and> 0 < space \<and> incoming h = [])"
  proof (rule small_read_loop.raw_induct [where P = "\<lambda>b a sp fl g h r.
      \<not> (b = bus \<and> a = base \<and> fl AND O_NONBLOCK = 0 \<and> g = [] \<and> 0 < sp \<and> incoming h = [])", OF _ r], rule notI, goal_cases)
    case (1 loop b a sp fl g h r)
    obtain v h1 where v: "iord bus base 0 h = (v, h1)" by fastforce
    have z: "v AND RVALID_MSK = 0" using read_valid [OF v] 1(3) by auto
    then have "loop bus base sp fl [] h1 = Some r" using 1(2,3) v by (simp add: Let_def split: if_splits)
    moreover have "incoming h1 = []" using read_nothing [OF v z] 1(3) by simp
    ultimately show False using 1(1,3) by blast
  qed
  then show False using assms by simp
qed

text \<open>Writing always finishes, and everything has been sent.\<close>

lemma write_loop:
  "\<exists>h'. small_write_loop bus base bs h = Some h' \<and> sent h' = sent h @ bs \<and> incoming h' = incoming h"
proof (induction bs arbitrary: h)
  case Nil
  then show ?case by (subst small_write_loop.simps) simp
next
  case (Cons b bs)
  show ?case
  proof (induction "busy h" arbitrary: h rule: less_induct)
    case less
    obtain v h1 where v: "iord bus base 1 h = (v, h1)" by fastforce
    show ?case
    proof (cases "v AND WSPACE_MSK = 0")
      case True
      have "busy h1 < busy h" "sent h1 = sent h" "incoming h1 = incoming h"
        using poll_full [OF v True] poll_keeps [OF v] by simp_all
      moreover have "small_write_loop bus base (b # bs) h = small_write_loop bus base (b # bs) h1"
        by (subst small_write_loop.simps) (simp add: v True del: One_nat_def)
      ultimately show ?thesis using less [of h1] by simp
    next
      case False
      have "small_write_loop bus base (b # bs) h = small_write_loop bus base bs (iowr bus base 0 (scast b) h1)"
        by (subst small_write_loop.simps) (simp add: v False del: One_nat_def)
      then show ?thesis
        using Cons.IH [of "iowr bus base 0 (scast b) h1"] poll_room [OF v False, of "scast b"]
          write_keeps [of "scast b" h1] poll_keeps [OF v] by auto
    qed
  qed
qed

end

section \<open>A simulated device\<close>

text \<open>Each byte of the host arrives after two further reads; room as for \<open>sim_port\<close>.\<close>

record sim_polled = sim_port +
  sp_incoming :: "alt_u8 list"
  sp_delay :: nat

definition sim_polled_bus :: "sim_polled bus" where
  "sim_polled_bus = \<lparr>
     iord = (\<lambda>b reg h.
       if reg = 1 then (if sp_busy h = 0 then (0x10000, h) else (0, h\<lparr>sp_busy := sp_busy h - 1\<rparr>))
       else if sp_delay h > 0 then (0, h\<lparr>sp_delay := sp_delay h - 1\<rparr>)
       else case sp_incoming h of [] \<Rightarrow> (0, h)
         | b # bs \<Rightarrow> (push_bit 16 (of_nat (length bs)) OR 0x8000 OR ucast b,
             h\<lparr>sp_incoming := bs, sp_delay := 2\<rparr>)),
     iowr = (\<lambda>b reg v h. if reg = 0 then h\<lparr>sp_busy := 2, sp_sent := sp_sent h @ [ucast v]\<rparr> else h)\<rparr>"

interpretation sim_polled: polled_uart sim_polled_bus base sp_sent sp_busy sp_incoming sp_delay for base
  by unfold_locales
    (auto simp: sim_polled_bus_def sim_byte RVALID_MSK_def DATA_MSK_def WSPACE_MSK_def simp del: drop_bit_and
      split: if_splits list.splits)

section \<open>Properties\<close>

text \<open>A write sends all its bytes, in order, and says so.\<close>

theorem small_uart_write_sends_all:
  assumes "polled_uart bus base sent busy incoming delay" and "0 \<le> count" "nat count \<le> length ptr"
  shows "\<exists>h'. small_uart_write bus base ptr count flags h = Some (count, h')
    \<and> sent h' = sent h @ take (nat count) ptr \<and> incoming h' = incoming h"
  using polled_uart.write_loop [OF assms(1), of "take (nat count) ptr" h] by (auto simp: small_uart_write_def)

text \<open>Property C24: a read of the small driver returns exactly when the host has something to send
  or the call may not block (so it hangs when the host is gone, which the other driver notices);
  then it has taken the next bytes of the host in their order, at most as many as fit, at least
  one if it may block, and what it took is in the buffer, counted by the result.\<close>

theorem small_uart_read_returns_iff:
  assumes "polled_uart bus base sent busy incoming delay" and "0 < space"
  shows "if incoming h = [] \<and> flags AND O_NONBLOCK = 0 then small_uart_read bus base space flags h = None
    else \<exists>n bs h'. small_uart_read bus base space flags h = Some ((n, bs), h')
      \<and> incoming h = bs @ incoming h' \<and> sent h' = sent h \<and> int (length bs) \<le> space
      \<and> n = (if bs \<noteq> [] then int (length bs) else - EWOULDBLOCK)
      \<and> (flags AND O_NONBLOCK = 0 \<longrightarrow> bs \<noteq> [])"
proof -
  have sp: "0 < nat space" using assms(2) by simp
  consider "incoming h = []" "flags AND O_NONBLOCK = 0" | "flags AND O_NONBLOCK \<noteq> 0" | "incoming h \<noteq> []" by blast
  then show ?thesis
  proof cases
    case 1
    then show ?thesis
      using polled_uart.read_hangs [OF assms(1) 1(1) sp 1(2)] by (simp add: small_uart_read_def)
  next
    case 2
    have g: "([] :: alt_u8 list) \<noteq> [] \<or> flags AND O_NONBLOCK \<noteq> 0" "length ([] :: alt_u8 list) \<le> nat space"
      using 2 by simp_all
    from polled_uart.read_rest [OF assms(1) g, of h] show ?thesis
      using 2 assms(2) by (force simp: small_uart_read_def polled_uart.taken_def [OF assms(1)])
  next
    case 3
    from polled_uart.read_first [OF assms(1) 3 sp, of flags] show ?thesis
      using 3 assms(2) by (force simp: small_uart_read_def polled_uart.taken_def [OF assms(1)])
  qed
qed

theorem small_uart_read_returns_iff_witness:
  "\<exists>n bs h'. small_uart_read sim_polled_bus 64 10 0
        \<lparr>sp_busy = 0, sp_sent = [], sp_incoming = [0x48, 0x69], sp_delay = 5\<rparr> = Some ((n, bs), h')
      \<and> [0x48, 0x69] = bs @ sp_incoming h' \<and> n = int (length bs) \<and> bs \<noteq> []"
proof -
  let ?h = "\<lparr>sp_busy = 0, sp_sent = [], sp_incoming = [0x48, 0x69], sp_delay = 5\<rparr> :: sim_polled"
  from small_uart_read_returns_iff [OF sim_polled.polled_uart_axioms, of 10 ?h 0 64]
  obtain n bs h' where "small_uart_read sim_polled_bus 64 10 0 ?h = Some ((n, bs), h')"
    "[0x48, 0x69] = bs @ sp_incoming h'" "n = int (length bs)" "bs \<noteq> []" by auto
  then show ?thesis by blast
qed

end
