(* ===== verification/Redirect.thy ===== *)
theory Redirect
  imports Posix_Io
begin

text \<open>
  What \<^verbatim>\<open>alt_io_redirect()\<close> of \<^verbatim>\<open>HAL/src/alt_io_redirect.c\<close> achieves: \<^verbatim>\<open>alt_main()\<close> calls it after
  the devices are registered, and from then on the three standard descriptors are open on the
  devices that \<^verbatim>\<open>system.h\<close> names. The definitions are those of \<open>Posix_Io\<close>.
\<close>

section \<open>Opening a device\<close>

text \<open>
  The state in which the console is set up: the table is well formed and has a free descriptor
  \<open>j\<close>, no descriptor is exclusive, and the list of devices holds \<open>xs\<close>.
\<close>

definition setting_up :: "addr list \<Rightarrow> nat \<Rightarrow> 'a fdtable_scheme \<Rightarrow> bool" where
  "setting_up xs j s \<longleftrightarrow> fd_wf s \<and> dllist (llists s) (alt_dev_list s) xs \<and> named_devices s xs
     \<and> lowest_free s = Some j \<and> (\<forall>i<ALT_MAX_FD. fd_flags (alt_fd_list s ! i) AND ALT_FD_EXCL = 0)"

text \<open>The flags of a descriptor opened with \<open>flags\<close> on a device.\<close>

definition device_flags :: "alt_u32 \<Rightarrow> alt_u32" where
  "device_flags flags = flags AND NOT ALT_FD_FLAGS_MASK OR ALT_FD_DEV"

lemma device_flags_excl [simp]: "device_flags flags AND ALT_FD_EXCL = 0"
proof -
  obtain a b where e: "ALT_FD_EXCL = push_bit a 1" "ALT_FD_DEV = push_bit b 1" "a \<noteq> b" "a < 32" "b < 32"
    by (rule that [of 31 30]) (simp_all add: ALT_FD_EXCL_def ALT_FD_DEV_def)
  show ?thesis
    unfolding device_flags_def ALT_FD_FLAGS_MASK_def e(1,2)
    by (rule bit_word_eqI) (use e(3-5) in \<open>auto simp: bit_simps\<close>)
qed

lemma lowest_free_cong:
  assumes "\<And>i. i < ALT_MAX_FD \<Longrightarrow> fd_dev (alt_fd_list s ! i) = 0 \<longleftrightarrow> fd_dev (alt_fd_list t ! i) = 0"
  shows "lowest_free s = lowest_free t"
  unfolding lowest_free_def by (rule find_cong) (use assms in auto)

context quiet_driver
begin

lemma open_device:
  assumes su: "setting_up xs j s" and d: "first_named s name xs = d" "d \<noteq> 0" "dev_open (dev_at s d) = 0"
  shows "\<exists>s1. ALT_OPEN ops name flags md s = Some (Inr (int j, s1)) \<and> fd_wf s1
    \<and> alt_dev_list s1 = alt_dev_list s \<and> llists s1 = llists s \<and> dev_at s1 = dev_at s
    \<and> (\<forall>i. i \<noteq> j \<longrightarrow> alt_fd_list s1 ! i = alt_fd_list s ! i)
    \<and> fd_dev (alt_fd_list s1 ! j) = d \<and> fd_flags (alt_fd_list s1 ! j) = device_flags flags"
proof -
  have s: "fd_wf s" "lowest_free s = Some j" "dllist (llists s) (alt_dev_list s) xs" "named_devices s xs"
    "\<And>i. i < ALT_MAX_FD \<Longrightarrow> fd_flags (alt_fd_list s ! i) AND ALT_FD_EXCL = 0"
    using su by (simp_all add: setting_up_def)
  obtain rc s1 where r: "alt_open_found ops name flags md d False s = (rc, s1)" by fastforce
  have "ALT_OPEN ops name flags md s = Some (Inr (rc, s1))"
    using d r by (simp add: ALT_OPEN_def alt_find_dev_eq [OF s(3,4)])
  moreover have f: "rc = int j" "fd_flags (alt_fd_list s1 ! j) = device_flags flags"
    using open_found_unlocked [OF s(1) d(2,3) s(2,5) r] by (simp_all add: device_flags_def)
  ultimately show ?thesis
    using open_found [OF s(1) d(2) r] s(2) f by auto
qed

text \<open>One redirection: descriptor \<open>fd\<close> leads to the device afterwards, everything else is as before.\<close>

lemma redirect_one:
  assumes su: "setting_up xs j s" and d: "first_named s name xs = d" "d \<noteq> 0" "dev_open (dev_at s d) = 0"
    and fd: "fd < 3"
  shows "\<exists>s2. alt_open_fd ops fd name flags md s = Some (Inr s2) \<and> setting_up xs j s2
    \<and> dev_at s2 = dev_at s \<and> fd_dev (alt_fd_list s2 ! fd) = d \<and> fd_flags (alt_fd_list s2 ! fd) = device_flags flags
    \<and> (\<forall>i. i \<noteq> j \<and> i \<noteq> fd \<longrightarrow> alt_fd_list s2 ! i = alt_fd_list s ! i)
    \<and> fd_dev (alt_fd_list s2 ! j) = 0"
proof -
  have s: "fd_wf s" "lowest_free s = Some j" "named_devices s xs" "dllist (llists s) (alt_dev_list s) xs"
    "\<And>i. i < ALT_MAX_FD \<Longrightarrow> fd_flags (alt_fd_list s ! i) AND ALT_FD_EXCL = 0"
    using su by (simp_all add: setting_up_def)
  have j: "2 < j" "j < ALT_MAX_FD" "fd_dev (alt_fd_list s ! j) = 0"
    using lowest_free_standard [OF s(1,2)] lowest_free_SomeD [OF s(2)] by auto
  obtain s1 where o1: "ALT_OPEN ops name flags md s = Some (Inr (int j, s1))" and wf1: "fd_wf s1"
    and same: "alt_dev_list s1 = alt_dev_list s" "llists s1 = llists s" "dev_at s1 = dev_at s"
    and others: "\<And>i. i \<noteq> j \<Longrightarrow> alt_fd_list s1 ! i = alt_fd_list s ! i"
    and new: "fd_dev (alt_fd_list s1 ! j) = d" "fd_flags (alt_fd_list s1 ! j) = device_flags flags"
    using open_device [OF su d] by blast
  let ?e = "alt_fd_list s1 ! j"
  define s2 where "s2 = alt_release_fd (int j) (set_fd fd (\<lambda>e. e\<lparr>fd_dev := fd_dev ?e, fd_priv := fd_priv ?e,
    fd_flags := fd_flags ?e\<rparr>) s1)"
  have len: "length (alt_fd_list s1) = ALT_MAX_FD" using wf1 by (simp add: fd_wf_def)
  have l2: "alt_fd_list s2 = (alt_fd_list s1)[fd := (alt_fd_list s1 ! fd)\<lparr>fd_dev := d, fd_priv := fd_priv ?e,
      fd_flags := device_flags flags\<rparr>, j := ?e\<lparr>fd_flags := 0, fd_dev := 0\<rparr>]"
    using j fd new by (simp add: s2_def alt_release_fd_def)
  have nth: "alt_fd_list s2 ! i = (if i = j then ?e\<lparr>fd_flags := 0, fd_dev := 0\<rparr>
      else if i = fd then (alt_fd_list s1 ! fd)\<lparr>fd_dev := d, fd_priv := fd_priv ?e, fd_flags := device_flags flags\<rparr>
      else alt_fd_list s ! i)" if "i < ALT_MAX_FD" for i
    using that len others unfolding l2 by (auto simp: nth_list_update)
  have far: "alt_fd_list s2 ! i = alt_fd_list s ! i" if "i \<noteq> j" "i \<noteq> fd" for i
    using that others unfolding l2 by (simp add: nth_list_update_neq)
  have "fd_wf (set_fd fd (\<lambda>e. e\<lparr>fd_dev := fd_dev ?e, fd_priv := fd_priv ?e, fd_flags := fd_flags ?e\<rparr>) s1)"
    using wf1 fd d(2) len new(1) by (auto simp: fd_wf_def nth_list_update ALT_MAX_FD_def)
  then have wf2: "fd_wf s2" unfolding s2_def by (rule fd_wf_release)
  have stdfd: "fd_dev (alt_fd_list s ! fd) \<noteq> 0" using s(1) fd by (simp add: fd_wf_def)
  have "lowest_free s2 = lowest_free s"
    by (rule lowest_free_cong) (use nth j d(2) stdfd in auto)
  moreover have v: "alt_dev_list s2 = alt_dev_list s" "llists s2 = llists s" "dev_at s2 = dev_at s"
    using same by (simp_all add: s2_def alt_release_fd_def)
  moreover have "fd_flags (alt_fd_list s2 ! i) AND ALT_FD_EXCL = 0" if "i < ALT_MAX_FD" for i
    using nth [OF that] s(5) [OF that] by simp
  ultimately have su2: "setting_up xs j s2"
    using wf2 s by (simp add: setting_up_def named_devices_def)
  have "alt_open_fd ops fd name flags md s = Some (Inr s2)"
    using o1 by (simp add: alt_open_fd_def s2_def)
  moreover have "fd \<noteq> j" "fd < ALT_MAX_FD" using fd j by (auto simp: ALT_MAX_FD_def)
  ultimately show ?thesis using su2 v nth far j by auto
qed

lemma redirect_all:
  assumes su: "setting_up xs j s"
    and dev: "\<forall>n\<in>{out, inp, err}. first_named s n xs \<noteq> 0 \<and> dev_open (dev_at s (first_named s n xs)) = 0"
  shows "\<exists>s'. alt_io_redirect ops out inp err s = Some (Inr s') \<and> setting_up xs j s' \<and> dev_at s' = dev_at s
    \<and> map (\<lambda>i. (fd_dev (alt_fd_list s' ! i), fd_flags (alt_fd_list s' ! i))) [0, 1, 2]
      = [(first_named s inp xs, device_flags O_RDONLY), (first_named s out xs, device_flags O_WRONLY),
         (first_named s err xs, device_flags O_WRONLY)]
    \<and> (\<forall>i\<ge>3. fd_dev (alt_fd_list s' ! i) = fd_dev (alt_fd_list s ! i))"
proof -
  have j: "2 < j" "fd_dev (alt_fd_list s ! j) = 0"
    using su lowest_free_standard [of s j] lowest_free_SomeD [of s j] by (auto simp: setting_up_def)
  have fn: "first_named t n xs = first_named s n xs" if "dev_at t = dev_at s" for t n
    using that by (simp add: first_named_def)
  obtain s1 where s1: "alt_open_fd ops 1 out O_WRONLY 0x1ff s = Some (Inr s1)" "setting_up xs j s1" "dev_at s1 = dev_at s"
    "fd_dev (alt_fd_list s1 ! 1) = first_named s out xs" "fd_flags (alt_fd_list s1 ! 1) = device_flags O_WRONLY"
    "\<And>i. i \<noteq> j \<and> i \<noteq> 1 \<Longrightarrow> alt_fd_list s1 ! i = alt_fd_list s ! i" "fd_dev (alt_fd_list s1 ! j) = 0"
    using redirect_one [OF su refl, of out 1 O_WRONLY "0x1ff"] dev by auto
  obtain s2 where s2: "alt_open_fd ops 0 inp O_RDONLY 0x1ff s1 = Some (Inr s2)" "setting_up xs j s2" "dev_at s2 = dev_at s"
    "fd_dev (alt_fd_list s2 ! 0) = first_named s inp xs" "fd_flags (alt_fd_list s2 ! 0) = device_flags O_RDONLY"
    "\<And>i. i \<noteq> j \<and> i \<noteq> 0 \<Longrightarrow> alt_fd_list s2 ! i = alt_fd_list s1 ! i" "fd_dev (alt_fd_list s2 ! j) = 0"
    using redirect_one [OF s1(2) refl, of inp 0 O_RDONLY "0x1ff"] dev s1(3) by (auto simp: fn [OF s1(3)])
  obtain s3 where s3: "alt_open_fd ops 2 err O_WRONLY 0x1ff s2 = Some (Inr s3)" "setting_up xs j s3" "dev_at s3 = dev_at s"
    "fd_dev (alt_fd_list s3 ! 2) = first_named s err xs" "fd_flags (alt_fd_list s3 ! 2) = device_flags O_WRONLY"
    "\<And>i. i \<noteq> j \<and> i \<noteq> 2 \<Longrightarrow> alt_fd_list s3 ! i = alt_fd_list s2 ! i" "fd_dev (alt_fd_list s3 ! j) = 0"
    using redirect_one [OF s2(2) refl, of err 2 O_WRONLY "0x1ff"] dev s2(3) by (auto simp: fn [OF s2(3)])
  have std: "alt_fd_list s3 ! 0 = alt_fd_list s2 ! 0" "alt_fd_list s3 ! 1 = alt_fd_list s1 ! 1"
    using s3(6) [of 0] s3(6) [of 1] s2(6) [of 1] j by auto
  have rest: "fd_dev (alt_fd_list s3 ! i) = fd_dev (alt_fd_list s ! i)" if "3 \<le> i" for i
    using that s3(6) [of i] s2(6) [of i] s1(6) [of i] s3(7) j by (cases "i = j") auto
  show ?thesis
    using s1 s2 s3 std rest by (intro exI [of _ s3]) (simp add: alt_io_redirect_def)
qed

end

section \<open>Properties\<close>

text \<open>Property C27: when the devices named for the three streams are registered, \<^verbatim>\<open>alt_io_redirect()\<close> opens
  the standard descriptors on them, input for reading and the others for writing, blocking and
  shared; the table stays well formed, and no other descriptor is left open.\<close>

theorem redirect_opens_console:
  assumes "quiet_driver ops" and "setting_up xs j s"
    and "\<forall>n\<in>{out, inp, err}. first_named s n xs \<noteq> 0 \<and> dev_open (dev_at s (first_named s n xs)) = 0"
  shows "\<exists>s'. alt_io_redirect ops out inp err s = Some (Inr s') \<and> fd_wf s'
    \<and> map (\<lambda>i. (fd_dev (alt_fd_list s' ! i), fd_flags (alt_fd_list s' ! i))) [0, 1, 2]
      = [(first_named s inp xs, device_flags O_RDONLY), (first_named s out xs, device_flags O_WRONLY),
         (first_named s err xs, device_flags O_WRONLY)]
    \<and> (\<forall>i. i \<ge> 3 \<longrightarrow> fd_dev (alt_fd_list s' ! i) = fd_dev (alt_fd_list s ! i))"
proof -
  from quiet_driver.redirect_all [OF assms] obtain s' where
    r: "alt_io_redirect ops out inp err s = Some (Inr s')" "setting_up xs j s'" and
    std: "map (\<lambda>i. (fd_dev (alt_fd_list s' ! i), fd_flags (alt_fd_list s' ! i))) [0, 1, 2]
      = [(first_named s inp xs, device_flags O_RDONLY), (first_named s out xs, device_flags O_WRONLY),
         (first_named s err xs, device_flags O_WRONLY)]" and
    rest: "\<forall>i\<ge>3. fd_dev (alt_fd_list s' ! i) = fd_dev (alt_fd_list s ! i)"
    by (elim exE conjE) (rule that)
  have "fd_wf s'" using r(2) by (simp add: setting_up_def)
  then show ?thesis using r(1) std rest by (intro exI [of _ s'] conjI)
qed

lemma demo_setting_up: "setting_up [80, 64] 3 demo_table"
proof -
  have l: "alt_fd_list demo_table = initial_fd_list 64" by (simp add: demo_table_def)
  then show ?thesis
    using demo_table_wf demo_table_list demo_table_named
    by (simp add: setting_up_def lowest_free_def initial_fd_nth ALT_MAX_FD_def upt_conv_Cons)
qed

theorem redirect_opens_console_witness:
  "\<exists>s'. alt_io_redirect null_ops ''/dev/jtag_uart'' ''/dev/null'' ''/dev/jtag_uart'' demo_table = Some (Inr s')
    \<and> fd_dev (alt_fd_list s' ! 0) = 64 \<and> fd_dev (alt_fd_list s' ! 1) = 80 \<and> fd_dev (alt_fd_list s' ! 2) = 80
    \<and> fd_flags (alt_fd_list s' ! 1) = 0x40000001"
proof -
  have n: "first_named demo_table ''/dev/jtag_uart'' [80, 64] = 80" "first_named demo_table ''/dev/null'' [80, 64] = 64"
    by (simp_all add: first_named_def demo_table_def demo_dev_def alt_dev_null_def)
  have o1: "dev_open (dev_at demo_table 80) = 0" "dev_open (dev_at demo_table 64) = 0"
    by (simp_all add: demo_table_def demo_dev_def alt_dev_null_def)
  have d: "\<forall>m\<in>{''/dev/jtag_uart'', ''/dev/null'', ''/dev/jtag_uart''}.
      first_named demo_table m [80, 64] \<noteq> 0 \<and> dev_open (dev_at demo_table (first_named demo_table m [80, 64])) = 0"
    using n o1 by simp
  have "device_flags O_WRONLY = 0x40000001"
    by (simp add: device_flags_def O_WRONLY_def ALT_FD_FLAGS_MASK_def ALT_FD_EXCL_def ALT_FD_DEV_def)
  with redirect_opens_console [OF nulldev.quiet_driver_axioms demo_setting_up d] n
  show ?thesis by auto
qed

end
