(* ===== verification/Direct.thy ===== *)
theory Direct
  imports Console Uart_Small Redirect
begin

text \<open>
  The HAL built with \<^verbatim>\<open>ALT_USE_DIRECT_DRIVERS\<close>: there are no descriptors, and the calls that the
  C library makes go straight to the driver of the standard device, by the macros of
  \<^verbatim>\<open>HAL/inc/sys/alt_driver.h\<close>. The first halves of \<^verbatim>\<open>HAL/src/alt_read.c\<close>, \<^verbatim>\<open>alt_write.c\<close>,
  \<^verbatim>\<open>alt_ioctl.c\<close>, \<^verbatim>\<open>alt_fstat.c\<close>, \<^verbatim>\<open>alt_isatty.c\<close>, \<^verbatim>\<open>alt_open.c\<close>, \<^verbatim>\<open>alt_close.c\<close>, \<^verbatim>\<open>alt_lseek.c\<close> and
  the corresponding branches of \<^verbatim>\<open>alt_putchar.c\<close>, \<^verbatim>\<open>alt_putstr.c\<close> and \<^verbatim>\<open>alt_getchar.c\<close>. On this system
  all three standard devices are the JTAG UART, whose driver is either of the two modelled. It is
  shown where the calls agree with those on descriptors and where not, and that what is printed
  reaches the UART.
\<close>

section \<open>The driver behind the macros\<close>

text \<open>\<^verbatim>\<open>ALT_DRIVER_WRITE\<close>, \<^verbatim>\<open>ALT_DRIVER_READ\<close> and \<^verbatim>\<open>ALT_DRIVER_IOCTL\<close> of the standard device.\<close>

record 's direct_driver =
  drv_write :: "alt_u8 list \<Rightarrow> int \<Rightarrow> alt_u32 \<Rightarrow> 's \<Rightarrow> (int \<times> 's) option"
  drv_read :: "int \<Rightarrow> alt_u32 \<Rightarrow> 's \<Rightarrow> ((int \<times> alt_u8 list) \<times> 's) option"
  drv_ioctl :: "int \<Rightarrow> addr \<Rightarrow> 's \<Rightarrow> int \<times> 's"

definition fast_direct ::
  "'h bus \<Rightarrow> (('h, 'a) uart_scheme \<Rightarrow> ('h, 'a) uart_scheme) \<Rightarrow> ('h, 'a) uart_scheme direct_driver" where
  "fast_direct bus intr = \<lparr>drv_write = altera_avalon_jtag_uart_write bus intr,
     drv_read = altera_avalon_jtag_uart_read bus intr, drv_ioctl = altera_avalon_jtag_uart_ioctl\<rparr>"

text \<open>The small driver has no \<^verbatim>\<open>ioctl\<close> function; a program that calls it does not link.\<close>

definition small_direct :: "'h bus \<Rightarrow> addr \<Rightarrow> (int \<Rightarrow> addr \<Rightarrow> 'h \<Rightarrow> int \<times> 'h) \<Rightarrow> 'h direct_driver" where
  "small_direct bus base io = \<lparr>drv_write = small_uart_write bus base, drv_read = small_uart_read bus base,
     drv_ioctl = io\<rparr>"

section \<open>The calls\<close>

definition ALT_READ_direct ::
  "'a cpu_scheme direct_driver \<Rightarrow> int \<Rightarrow> int \<Rightarrow> 'a cpu_scheme \<Rightarrow> ((int \<times> alt_u8 list) \<times> 'a cpu_scheme) option"
where
  "ALT_READ_direct d file len s =
     (if file = 0 then drv_read d len 0 s else Some ((- 1, []), s\<lparr>alt_errno := EBADFD\<rparr>))"

definition ALT_WRITE_direct ::
  "'a cpu_scheme direct_driver \<Rightarrow> int \<Rightarrow> alt_u8 list \<Rightarrow> int \<Rightarrow> 'a cpu_scheme \<Rightarrow> (int \<times> 'a cpu_scheme) option"
where
  "ALT_WRITE_direct d file ptr len s =
     (if file = 1 then drv_write d ptr len 0 s
      else if file = 2 then drv_write d ptr len 0 s
      else Some (- 1, s\<lparr>alt_errno := EBADFD\<rparr>))"

definition ALT_IOCTL_direct ::
  "'a cpu_scheme direct_driver \<Rightarrow> int \<Rightarrow> int \<Rightarrow> addr \<Rightarrow> 'a cpu_scheme \<Rightarrow> int \<times> 'a cpu_scheme" where
  "ALT_IOCTL_direct d file req arg s =
     (if file = 0 then drv_ioctl d req arg s
      else if file = 1 then drv_ioctl d req arg s
      else if file = 2 then drv_ioctl d req arg s
      else (- 1, s\<lparr>alt_errno := EBADFD\<rparr>))"

text \<open>The mode it stores comes with the result.\<close>

definition ALT_FSTAT_direct :: "int \<Rightarrow> int \<times> alt_u32 option" where
  "ALT_FSTAT_direct file = (if file = 0 \<or> file = 1 \<or> file = 2 then (0, Some S_IFCHR) else (- 1, None))"

definition ALT_ISATTY_direct :: "int \<Rightarrow> int" where
  "ALT_ISATTY_direct file = (if file = 0 \<or> file = 1 \<or> file = 2 then 1 else 0)"

definition ALT_OPEN_direct :: "string \<Rightarrow> alt_u32 \<Rightarrow> alt_u32 \<Rightarrow> 'a cpu_scheme \<Rightarrow> int \<times> 'a cpu_scheme" where
  "ALT_OPEN_direct file flags md s = (- 1, s\<lparr>alt_errno := ENOSYS\<rparr>)"

definition ALT_CLOSE_direct :: "int \<Rightarrow> 'a cpu_scheme \<Rightarrow> int \<times> 'a cpu_scheme" where
  "ALT_CLOSE_direct fildes s = (- 1, s\<lparr>alt_errno := ENOSYS\<rparr>)"

definition ALT_LSEEK_direct :: "int \<Rightarrow> int \<Rightarrow> int \<Rightarrow> 'a cpu_scheme \<Rightarrow> int \<times> 'a cpu_scheme" where
  "ALT_LSEEK_direct file ptr dir s = (- 1, s\<lparr>alt_errno := ENOSYS\<rparr>)"

section \<open>Console input and output\<close>

definition alt_putchar_direct :: "'s direct_driver \<Rightarrow> int \<Rightarrow> 's \<Rightarrow> (int \<times> 's) option" where
  "alt_putchar_direct d c s =
     (let c1 = word_of_int (c AND 0xff) in
      do { (rc, s1) \<leftarrow> drv_write d [c1] 1 0 s; Some (if rc = - 1 then (- 1, s1) else (c, s1)) })"

definition alt_putstr_direct :: "'s direct_driver \<Rightarrow> alt_u8 list \<Rightarrow> 's \<Rightarrow> (int \<times> 's) option" where
  "alt_putstr_direct d str s = drv_write d str (int (length str)) 0 s"

text \<open>\<open>flags\<close> are those of the first descriptor; the character is read back with its sign.\<close>

definition alt_getchar_direct :: "'s direct_driver \<Rightarrow> alt_u32 \<Rightarrow> 's \<Rightarrow> (int c_result \<times> 's) option" where
  "alt_getchar_direct d flags s =
     do {
       ((rc, bs), s1) \<leftarrow> drv_read d 1 flags s;
       Some (if rc \<le> 0 then Inr (- 1) else case bs of [] \<Rightarrow> Inl Uninitialized | c # _ \<Rightarrow> Inr (sint c), s1)
     }"

section \<open>The flags of a descriptor\<close>

text \<open>Of the flags, the driver of the UART looks at \<^verbatim>\<open>O_NONBLOCK\<close> only.\<close>

abbreviation (input) same_mode :: "alt_u32 \<Rightarrow> alt_u32 \<Rightarrow> bool" where
  "same_mode f g \<equiv> (f AND O_NONBLOCK = 0 \<longleftrightarrow> g AND O_NONBLOCK = 0)"

lemma read_loop_mode:
  assumes "uart_read_loop intr f space s = Some r" "same_mode f g"
  shows "uart_read_loop intr g space s = Some r"
proof -
  have "same_mode f g \<longrightarrow> uart_read_loop intr g space s = Some r"
  proof (rule uart_read_loop.raw_induct [where P = "\<lambda>i f sp s r. same_mode f g \<longrightarrow>
      uart_read_loop i g sp s = Some r", OF _ assms(1)], intro impI, goal_cases)
    case (1 loop i f sp s r)
    then show ?case
      by (cases r, subst uart_read_loop.simps) (auto simp: Let_def Option.bind_eq_Some_conv split: if_splits)
  qed
  then show ?thesis using assms(2) by simp
qed

lemma write_loop_mode:
  assumes "uart_write_loop bus intr f rest out s = Some r" "same_mode f g"
  shows "uart_write_loop bus intr g rest out s = Some r"
proof -
  have "same_mode f g \<longrightarrow> uart_write_loop bus intr g rest out s = Some r"
  proof (rule uart_write_loop.raw_induct [where P = "\<lambda>b i f rest out s r. same_mode f g \<longrightarrow>
      uart_write_loop b i g rest out s = Some r", OF _ assms(1)], intro impI, goal_cases)
    case (1 loop b i f rest out s r)
    then show ?case
      by (cases r, subst uart_write_loop.simps) (auto simp: Let_def Option.bind_eq_Some_conv split: if_splits)
  qed
  then show ?thesis using assms(2) by simp
qed

lemma loops_mode:
  assumes "same_mode f g"
  shows "uart_read_loop intr f space s = uart_read_loop intr g space s"
    and "uart_write_loop bus intr f rest out s = uart_write_loop bus intr g rest out s"
  using read_loop_mode [of intr f space s _ g] read_loop_mode [of intr g space s _ f]
    write_loop_mode [of bus intr f rest out s _ g] write_loop_mode [of bus intr g rest out s _ f] assms
  by (metis not_Some_eq)+

lemma uart_mode:
  assumes "same_mode f g"
  shows "altera_avalon_jtag_uart_read bus intr space f s = altera_avalon_jtag_uart_read bus intr space g s"
    and "altera_avalon_jtag_uart_write bus intr ptr n f s = altera_avalon_jtag_uart_write bus intr ptr n g s"
  unfolding altera_avalon_jtag_uart_read_def altera_avalon_jtag_uart_write_def loops_mode [OF assms] assms
  by (rule refl)+

section \<open>Agreement with the calls on descriptors\<close>

text \<open>
  A descriptor as \<open>alt_io_redirect\<close> leaves it: its device is the UART, not in the non-blocking
  mode, opened for \<open>mode\<close>.
\<close>

definition on_uart :: "nat \<Rightarrow> alt_u32 \<Rightarrow> ('h, 'a) uart_scheme \<Rightarrow> bool" where
  "on_uart i mode s \<longleftrightarrow> i < length (alt_fd_list s)
     \<and> (let e = alt_fd_list s ! i; d = dev_at s (fd_dev e) in
          fd_dev e \<noteq> 0 \<and> dev_read d \<noteq> 0 \<and> dev_write d \<noteq> 0
          \<and> fd_flags e AND O_NONBLOCK = 0 \<and> fd_flags e AND O_ACCMODE = mode)"

text \<open>What the calls on descriptors make of the result of a driver.\<close>

definition to_errno :: "int \<Rightarrow> 'a cpu_scheme \<Rightarrow> int \<times> 'a cpu_scheme" where
  "to_errno rc s = (if rc < 0 then (- 1, s\<lparr>alt_errno := - rc\<rparr>) else (rc, s))"

lemma write_on_uart:
  assumes "on_uart i O_WRONLY s"
  shows "ALT_WRITE (uart_ops bus intr) (int i) ptr len s
    = map_option (\<lambda>(rc, s'). Inr (to_errno rc s')) (altera_avalon_jtag_uart_write bus intr ptr len 0 s)"
  using assms uart_mode(2) [of "fd_flags (alt_fd_list s ! i)" 0 bus intr ptr len s]
  by (auto simp: on_uart_def Let_def ALT_WRITE_def fd_of_def dev_of_def uart_ops_def to_errno_def
      altera_avalon_jtag_uart_write_fd_def O_WRONLY_def O_RDONLY_def split: Option.bind_splits)

lemma read_on_uart:
  assumes "on_uart i O_RDONLY s"
  shows "ALT_READ (uart_ops bus intr) (int i) len s
    = map_option (\<lambda>((rc, bs), s'). Inr ((fst (to_errno rc s'), bs), snd (to_errno rc s')))
        (altera_avalon_jtag_uart_read bus intr len 0 s)"
  using assms uart_mode(1) [of "fd_flags (alt_fd_list s ! i)" 0 bus intr len s]
  by (auto simp: on_uart_def Let_def ALT_READ_def fd_of_def dev_of_def uart_ops_def to_errno_def
      altera_avalon_jtag_uart_read_fd_def O_WRONLY_def O_RDONLY_def split: Option.bind_splits)

text \<open>
  The small driver prints: it never fails, and leaves what comes in alone.
\<close>

lemma small_putchar:
  assumes "polled_uart bus base sent busy incoming delay"
  shows "\<exists>h'. alt_putchar_direct (small_direct bus base io) c h = Some (c, h')
    \<and> sent h' = sent h @ [word_of_int c] \<and> incoming h' = incoming h"
proof -
  have "word_of_int (c AND 0xff) = (word_of_int c :: alt_u8)"
    by (simp add: word_of_int_eq_iff take_bit_eq_mask mask_eq_exp_minus_1)
  then show ?thesis
    using polled_uart.write_loop [OF assms, of "[word_of_int c]" h]
    by (auto simp: alt_putchar_direct_def small_direct_def small_uart_write_def)
qed

sublocale polled_uart \<subseteq> small_out: stdout "alt_putchar_direct (small_direct bus base io)" sent
    "\<lambda>h. incoming h = inc" for io inc
  by unfold_locales (use small_putchar [OF polled_uart_axioms] in blast)

context polled_uart
begin

lemma printf_sent:
  assumes "\<forall>p\<in>set ps. piece_ok mem p"
  shows "\<exists>h'. alt_printf (alt_putchar_direct (small_direct bus base io)) mem
        (concat (map format_of ps)) (concat (map args_of ps)) h = Some (Inr h')
    \<and> sent h' = sent h @ concat (map render ps) \<and> incoming h' = incoming h"
  using small_out.printf_renders [OF assms, of h "incoming h" io] by simp

end

text \<open>The descriptors of the console when it has been redirected to the UART.\<close>

lemma redirected_on_uart:
  assumes su: "setting_up xs j s0" and d: "first_named s0 n xs = d" "d \<noteq> 0" "dev_open (dev_at s0 d) = 0"
    and rw: "dev_read (dev_at s0 d) \<noteq> 0" "dev_write (dev_at s0 d) \<noteq> 0"
  shows "\<exists>s. alt_io_redirect (uart_ops bus (uart_intr bus base)) n n n s0 = Some (Inr s)
    \<and> on_uart 0 O_RDONLY s \<and> on_uart 1 O_WRONLY s \<and> on_uart 2 O_WRONLY s"
proof -
  have "\<forall>m\<in>{n, n, n}. first_named s0 m xs \<noteq> 0 \<and> dev_open (dev_at s0 (first_named s0 m xs)) = 0"
    using d by simp
  from quiet_driver.redirect_all [OF irqs.uart.quiet_driver_axioms [of bus bus base] su this]
  obtain s where s: "alt_io_redirect (uart_ops bus (uart_intr bus base)) n n n s0 = Some (Inr s)"
    "setting_up xs j s" "dev_at s = dev_at s0"
    "map (\<lambda>i. (fd_dev (alt_fd_list s ! i), fd_flags (alt_fd_list s ! i))) [0, 1, 2]
      = [(first_named s0 n xs, device_flags O_RDONLY), (first_named s0 n xs, device_flags O_WRONLY),
         (first_named s0 n xs, device_flags O_WRONLY)]"
    by (elim exE conjE) (rule that)
  have "length (alt_fd_list s) = 32" using s(2) by (simp add: setting_up_def fd_wf_def ALT_MAX_FD_def)
  moreover have "device_flags O_RDONLY AND O_NONBLOCK = 0" "device_flags O_WRONLY AND O_NONBLOCK = 0"
    "device_flags O_RDONLY AND O_ACCMODE = O_RDONLY" "device_flags O_WRONLY AND O_ACCMODE = O_WRONLY"
    by (simp_all add: device_flags_def O_RDONLY_def O_WRONLY_def O_ACCMODE_def O_NONBLOCK_def
        ALT_FD_FLAGS_MASK_def ALT_FD_EXCL_def ALT_FD_DEV_def)
  ultimately show ?thesis
    using s(1,3,4) d rw by (intro exI [of _ s]) (simp add: on_uart_def Let_def)
qed

section \<open>Properties\<close>

text \<open>Property C35: once the console has been redirected to the UART, reading and writing do the same
  with direct drivers as on the standard descriptors, the same bytes, state and blocking, under the
  driver's own interrupts, except in how they report an error: the calls on descriptors return -1
  and set \<^verbatim>\<open>errno\<close>, the direct ones return the driver's negative error number and leave
  \<^verbatim>\<open>errno\<close> alone.\<close>

theorem direct_calls_agree:
  assumes "setting_up xs j s0" and "first_named s0 n xs = d" and "d \<noteq> 0" and "dev_open (dev_at s0 d) = 0"
    and "dev_read (dev_at s0 d) \<noteq> 0" and "dev_write (dev_at s0 d) \<noteq> 0"
  shows "let intr = uart_intr bus base in
    \<exists>s. alt_io_redirect (uart_ops bus intr) n n n s0 = Some (Inr s)
    \<and> (\<forall>len. ALT_READ (uart_ops bus intr) 0 len s
        = map_option (\<lambda>((rc, bs), s'). Inr ((fst (to_errno rc s'), bs), snd (to_errno rc s')))
            (ALT_READ_direct (fast_direct bus intr) 0 len s))
    \<and> (\<forall>ptr len. ALT_WRITE (uart_ops bus intr) 1 ptr len s
        = map_option (\<lambda>(rc, s'). Inr (to_errno rc s')) (ALT_WRITE_direct (fast_direct bus intr) 1 ptr len s))
    \<and> (\<forall>ptr len. ALT_WRITE (uart_ops bus intr) 2 ptr len s
        = map_option (\<lambda>(rc, s'). Inr (to_errno rc s')) (ALT_WRITE_direct (fast_direct bus intr) 2 ptr len s))"
proof -
  obtain s where s: "alt_io_redirect (uart_ops bus (uart_intr bus base)) n n n s0 = Some (Inr s)"
    "on_uart 0 O_RDONLY s" "on_uart 1 O_WRONLY s" "on_uart 2 O_WRONLY s"
    using redirected_on_uart [OF assms] by blast
  then show ?thesis
    using read_on_uart [OF s(2)] write_on_uart [OF s(3)] write_on_uart [OF s(4)]
    by (auto simp: Let_def ALT_READ_direct_def ALT_WRITE_direct_def fast_direct_def)
qed

definition demo_console :: "sim_uart uart" where
  "demo_console = (sim_state [] [])\<lparr>dev_at := (dev_at demo_table)(80 := demo_dev\<lparr>dev_read := 8\<rparr>)\<rparr>"

lemma demo_console_setting_up: "setting_up [80, 64] 3 demo_console"
proof -
  have same: "alt_fd_list demo_console = alt_fd_list demo_table" "alt_max_fd demo_console = alt_max_fd demo_table"
    "llists demo_console = llists demo_table" "alt_dev_list demo_console = alt_dev_list demo_table"
    "dev_name (dev_at demo_console x) = dev_name (dev_at demo_table x)" for x
    by (simp_all add: demo_console_def sim_state_def fdtable.defs demo_table_def demo_dev_def)
  have "fd_wf demo_console = fd_wf demo_table" "lowest_free demo_console = lowest_free demo_table"
    "named_devices demo_console xs = named_devices demo_table xs" for xs
    by (simp_all add: fd_wf_def lowest_free_def named_devices_def same)
  then show ?thesis using demo_setting_up by (simp add: setting_up_def same)
qed

theorem direct_calls_agree_witness:
  "\<exists>s. alt_io_redirect (uart_ops sim_bus (uart_intr sim_bus 4096)) ''/dev/jtag_uart'' ''/dev/jtag_uart''
      ''/dev/jtag_uart'' demo_console = Some (Inr s)
    \<and> ALT_WRITE (uart_ops sim_bus (uart_intr sim_bus 4096)) 1 [0x48, 0x69] 2 s
      = map_option (\<lambda>(rc, s'). Inr (to_errno rc s'))
          (ALT_WRITE_direct (fast_direct sim_bus (uart_intr sim_bus 4096)) 1 [0x48, 0x69] 2 s)"
proof -
  have d: "first_named demo_console ''/dev/jtag_uart'' [80, 64] = 80" "(80 :: addr) \<noteq> 0"
    "dev_open (dev_at demo_console 80) = 0" "dev_read (dev_at demo_console 80) \<noteq> 0" "dev_write (dev_at demo_console 80) \<noteq> 0"
    by (simp_all add: first_named_def demo_console_def demo_dev_def)
  from direct_calls_agree [OF demo_console_setting_up d] show ?thesis unfolding Let_def by blast
qed

text \<open>
  \<^verbatim>\<open>alt_putchar()\<close> tests for \<^verbatim>\<open>-1\<close>, which the drivers never return: an error that the
  driver reports with its number goes unnoticed.
\<close>

theorem alt_putchar_direct_misses_errors:
  "drv_write d [word_of_int (c AND 0xff)] 1 0 s = Some (- EIO, s')
   \<Longrightarrow> alt_putchar_direct d c s = Some (c, s')"
  by (simp add: alt_putchar_direct_def EIO_def)

text \<open>Property C29: in a build with direct and small drivers, what \<open>alt_printf\<close> prints goes over the
  UART: the call returns, the bytes sent are the renderings of the pieces of the format, in order
  and nothing else, and what the host has sent meanwhile is still there to be read.\<close>

theorem direct_printf_reaches_uart:
  assumes "polled_uart bus base sent busy incoming delay" and "\<forall>p\<in>set ps. piece_ok mem p"
  shows "\<exists>h'. alt_printf (alt_putchar_direct (small_direct bus base io)) mem
        (concat (map format_of ps)) (concat (map args_of ps)) h = Some (Inr h')
    \<and> sent h' = sent h @ concat (map render ps) \<and> incoming h' = incoming h"
  by (rule polled_uart.printf_sent [OF assms])

theorem direct_printf_reaches_uart_witness:
  "\<exists>h'. alt_printf (alt_putchar_direct (small_direct sim_polled_bus 64 (\<lambda>_ _ h. (0, h)))) (\<lambda>_. 0)
        [118, 61, 37, 120] [0xBEEF] \<lparr>sp_busy = 3, sp_sent = [], sp_incoming = [1], sp_delay = 0\<rparr> = Some (Inr h')
    \<and> sp_sent h' = [118, 61, 98, 101, 101, 102] \<and> sp_incoming h' = [1]"
proof -
  have "\<forall>p\<in>set [Lit 118, Lit 61, Hex 0xBEEF]. piece_ok (\<lambda>_. 0) p" by simp
  from direct_printf_reaches_uart [OF sim_polled.polled_uart_axioms this, of 64 "\<lambda>_ _ h. (0, h)"
      "\<lparr>sp_busy = 3, sp_sent = [], sp_incoming = [1], sp_delay = 0\<rparr>"]
  show ?thesis by (simp add: digits.simps digit_of_def)
qed

end
