(* ===== verification/Semihosting.thy ===== *)
theory Semihosting
  imports Console
begin

text \<open>
  Console output of a build with \<^verbatim>\<open>ALT_SEMIHOSTING\<close>: \<^verbatim>\<open>HAL/src/alt_putcharbuf.c\<close> and the branches
  for it in \<^verbatim>\<open>alt_putchar.c\<close>, \<^verbatim>\<open>alt_putstr.c\<close>, \<^verbatim>\<open>alt_getchar.c\<close> and \<^verbatim>\<open>alt_printf.c\<close>. The system calls
  \<^verbatim>\<open>read()\<close> and \<^verbatim>\<open>write()\<close>, which a debugger serves there, are parameters; the contract of \<^verbatim>\<open>write()\<close>
  is the locale \<open>debug_host\<close>. The buffered \<^verbatim>\<open>putchar\<close> meets the contract \<open>stdout\<close>, so the formatter's
  correctness carries over.
\<close>

section \<open>The code\<close>

text \<open>\<^verbatim>\<open>buf\<close> and \<^verbatim>\<open>fill_index\<close>, with the state of the world beyond.\<close>

record 'h putbuf =
  pb_buf :: "alt_u8 list"
  fill_index :: alt_u32
  pb_host :: 'h

definition ALT_PUTBUF_SIZE :: nat where "ALT_PUTBUF_SIZE = 64"

type_synonym 'h host_write = "alt_u8 list \<Rightarrow> 'h \<Rightarrow> int \<times> 'h"

definition alt_putbufflush :: "'h host_write \<Rightarrow> 'h putbuf \<Rightarrow> int \<times> 'h putbuf" where
  "alt_putbufflush wr s =
     (let (results, h) = wr (take (unat (fill_index s)) (pb_buf s)) (pb_host s)
      in (results, s\<lparr>pb_host := h, fill_index := 0\<rparr>))"

text \<open>A store behind the end of the buffer would be undefined; the invariant below excludes it.\<close>

definition alt_putcharbuf :: "'h host_write \<Rightarrow> int \<Rightarrow> 'h putbuf \<Rightarrow> int \<times> 'h putbuf" where
  "alt_putcharbuf wr c s =
     (let s1 = s\<lparr>pb_buf := (pb_buf s)[unat (fill_index s) := word_of_int (c AND 0xff)],
                 fill_index := fill_index s + 1\<rparr>;
          s2 = (if unat (fill_index s1) \<ge> ALT_PUTBUF_SIZE then snd (alt_putbufflush wr s1) else s1)
      in (c, s2))"

definition alt_printf_semihosting ::
  "'h host_write \<Rightarrow> (addr \<Rightarrow> alt_u8) \<Rightarrow> alt_u8 list \<Rightarrow> alt_u32 list \<Rightarrow> 'h putbuf \<Rightarrow> 'h putbuf c_result option"
where
  "alt_printf_semihosting wr mem fmt args s =
     do {
       r \<leftarrow> alt_printf (\<lambda>c t. Some (alt_putcharbuf wr c t)) mem fmt args s;
       Some (case r of Inl e \<Rightarrow> Inl e | Inr s1 \<Rightarrow> Inr (snd (alt_putbufflush wr s1)))
     }"

definition alt_putchar_semihosting :: "'h host_write \<Rightarrow> int \<Rightarrow> 'h \<Rightarrow> int \<times> 'h" where
  "alt_putchar_semihosting wr c h = wr [word_of_int (c AND 0xff)] h"

definition alt_putstr_semihosting :: "'h host_write \<Rightarrow> alt_u8 list \<Rightarrow> 'h \<Rightarrow> int \<times> 'h" where
  "alt_putstr_semihosting wr str h = wr str h"

text \<open>\<^verbatim>\<open>read()\<close> of one character; its result is not looked at, so at the end of the input the
  character is not initialised.\<close>

definition alt_getchar_semihosting ::
  "(nat \<Rightarrow> 'h \<Rightarrow> (int \<times> alt_u8 list) \<times> 'h) \<Rightarrow> 'h \<Rightarrow> int c_result \<times> 'h" where
  "alt_getchar_semihosting read h =
     (let ((rc, bs), h1) = read 1 h
      in (case bs of [] \<Rightarrow> Inl Uninitialized | c # _ \<Rightarrow> Inr (sint c), h1))"

section \<open>The buffer\<close>

text \<open>The index stays within the buffer.\<close>

definition putbuf_wf :: "'h putbuf \<Rightarrow> bool" where
  "putbuf_wf s \<longleftrightarrow> length (pb_buf s) = ALT_PUTBUF_SIZE \<and> unat (fill_index s) < ALT_PUTBUF_SIZE"

definition pending :: "'h putbuf \<Rightarrow> alt_u8 list" where
  "pending s = take (unat (fill_index s)) (pb_buf s)"

lemma flush_simps [simp]:
  "pending (snd (alt_putbufflush wr s)) = []"
  "pb_buf (snd (alt_putbufflush wr s)) = pb_buf s"
  "fill_index (snd (alt_putbufflush wr s)) = 0"
  "pb_host (snd (alt_putbufflush wr s)) = snd (wr (pending s) (pb_host s))"
  by (simp_all add: alt_putbufflush_def pending_def case_prod_beta)

text \<open>Adding a character: it is appended, and the buffer is emptied when it is full.\<close>

lemma putcharbuf_step:
  assumes "putbuf_wf s"
  shows "putbuf_wf (snd (alt_putcharbuf wr c s))"
    and "(pending (snd (alt_putcharbuf wr c s)), pb_host (snd (alt_putcharbuf wr c s))) =
      (let bs = pending s @ [word_of_int c] in
       if length bs < ALT_PUTBUF_SIZE then (bs, pb_host s) else ([], snd (wr bs (pb_host s))))"
proof -
  let ?b = "word_of_int c :: alt_u8"
  define s1 where "s1 = s\<lparr>pb_buf := (pb_buf s)[unat (fill_index s) := ?b], fill_index := fill_index s + 1\<rparr>"
  have i: "unat (fill_index s) < 64" "length (pb_buf s) = 64"
    using assms by (simp_all add: putbuf_wf_def ALT_PUTBUF_SIZE_def)
  have up: "unat (fill_index s + 1) = Suc (unat (fill_index s))"
    using add_wrap_32 [of 1 "fill_index s"] i by simp
  have p: "pending s1 = pending s @ [?b]" "length (pending s @ [?b]) = Suc (unat (fill_index s))"
    using i by (simp_all add: s1_def pending_def up take_Suc_conv_app_nth)
  have "word_of_int (c AND 0xff) = ?b"
    by (simp add: word_of_int_eq_iff take_bit_eq_mask mask_eq_exp_minus_1)
  then have s: "alt_putcharbuf wr c s = (c, if Suc (unat (fill_index s)) \<ge> 64 then snd (alt_putbufflush wr s1) else s1)"
    by (simp add: alt_putcharbuf_def s1_def ALT_PUTBUF_SIZE_def up)
  show "putbuf_wf (snd (alt_putcharbuf wr c s))"
    using i by (auto simp: s putbuf_wf_def ALT_PUTBUF_SIZE_def up) (simp_all add: s1_def up)
  show "(pending (snd (alt_putcharbuf wr c s)), pb_host (snd (alt_putcharbuf wr c s))) =
      (let bs = pending s @ [?b] in
       if length bs < ALT_PUTBUF_SIZE then (bs, pb_host s) else ([], snd (wr bs (pb_host s))))"
    unfolding s Let_def p(2) using p(1) by (auto simp: ALT_PUTBUF_SIZE_def) (simp_all add: s1_def)
qed

section \<open>The host\<close>

text \<open>\<^verbatim>\<open>write()\<close> shows what it is given, at once and completely.\<close>

locale debug_host =
  fixes wr :: "'h host_write" and shown :: "'h \<Rightarrow> alt_u8 list"
  assumes shows_all: "shown (snd (wr bs h)) = shown h @ bs"
begin

text \<open>What has been printed, shown or still in the buffer.\<close>

definition printed :: "'h putbuf \<Rightarrow> alt_u8 list" where
  "printed s = shown (pb_host s) @ pending s"

lemma putcharbuf_prints:
  "putbuf_wf s \<Longrightarrow> printed (snd (alt_putcharbuf wr c s)) = printed s @ [word_of_int c]"
  using putcharbuf_step(2) [of s wr c] by (auto simp: printed_def Let_def shows_all split: if_splits)

lemma flush_shows:
  "shown (pb_host (snd (alt_putbufflush wr s))) = printed s" "pending (snd (alt_putbufflush wr s)) = []"
  by (simp_all add: printed_def shows_all)

end

sublocale debug_host \<subseteq> buffered: stdout "\<lambda>c s. Some (alt_putcharbuf wr c s)" printed putbuf_wf
  by unfold_locales (metis prod.collapse putcharbuf_prints putcharbuf_step(1))

context debug_host
begin

lemma printf_shown:
  assumes "\<forall>p\<in>set ps. piece_ok mem p" and "putbuf_wf s"
  shows "\<exists>s'. alt_printf_semihosting wr mem (concat (map format_of ps)) (concat (map args_of ps)) s = Some (Inr s')
    \<and> putbuf_wf s' \<and> pending s' = [] \<and> shown (pb_host s') = shown (pb_host s) @ pending s @ concat (map render ps)"
  using buffered.printf_renders [OF assms] flush_shows
  by (fastforce simp: alt_printf_semihosting_def printed_def putbuf_wf_def ALT_PUTBUF_SIZE_def shows_all)

end

text \<open>A simulated host: what it shows, as a list.\<close>

definition sim_host_write :: "alt_u8 list host_write" where
  "sim_host_write bs h = (int (length bs), h @ bs)"

interpretation sim_debug: debug_host sim_host_write "\<lambda>h. h"
  by unfold_locales (simp add: sim_host_write_def)

section \<open>Properties\<close>

text \<open>Property C38: buffering is invisible. With semihosting, \<open>alt_printf\<close> returns with its index inside
  the buffer, the buffer empty, and on the screen, after what was there and what was pending, the
  renderings of the pieces of the format, in order, however often the buffer filled up meanwhile.\<close>

theorem semihosting_printf_shown:
  assumes "debug_host wr shown" and "\<forall>p\<in>set ps. piece_ok mem p" and "putbuf_wf s"
  shows "\<exists>s'. alt_printf_semihosting wr mem (concat (map format_of ps)) (concat (map args_of ps)) s = Some (Inr s')
    \<and> putbuf_wf s' \<and> pending s' = []
    \<and> shown (pb_host s') = shown (pb_host s) @ pending s @ concat (map render ps)"
  by (rule debug_host.printf_shown [OF assms])

definition full_putbuf :: "alt_u8 list putbuf" where
  "full_putbuf = \<lparr>pb_buf = replicate 62 46 @ [0, 0], fill_index = 62, pb_host = []\<rparr>"

theorem semihosting_printf_shown_witness:
  "\<exists>s'. alt_printf_semihosting sim_host_write (\<lambda>_. 0) [118, 61, 37, 120] [0xBEEF] full_putbuf = Some (Inr s')
    \<and> pending s' = [] \<and> pb_host s' = replicate 62 46 @ [118, 61, 98, 101, 101, 102]"
proof -
  have "\<forall>p\<in>set [Lit 118, Lit 61, Hex 0xBEEF]. piece_ok (\<lambda>_. 0) p" "putbuf_wf full_putbuf"
    by (simp_all add: putbuf_wf_def full_putbuf_def ALT_PUTBUF_SIZE_def)
  from semihosting_printf_shown [OF sim_debug.debug_host_axioms this] show ?thesis
    by (auto simp: digits.simps digit_of_def full_putbuf_def pending_def)
qed

end
