(* ===== verification/Dma.thy ===== *)
theory Dma
  imports Fd_Table
begin

text \<open>
  The interface to DMA channels: the inline functions of \<^verbatim>\<open>HAL/inc/sys/alt_dma.h\<close> and
  \<^verbatim>\<open>alt_dma_dev.h\<close>, which vector to the functions of a channel's driver, and registration. The
  system has no DMA hardware, so the drivers are parameters. Shown is how registration and lookup
  by name work together, for these lists and the others that use the same two functions.
\<close>

section \<open>Operations\<close>

text \<open>
  The functions of the drivers; the first argument is the channel. Callbacks and handles are
  addresses. A channel that is not there is the null pointer.
\<close>

record 's dma_driver =
  tx_space :: "addr \<Rightarrow> 's \<Rightarrow> int \<times> 's"
  tx_dma_send :: "addr \<Rightarrow> addr \<Rightarrow> alt_u32 \<Rightarrow> addr \<Rightarrow> addr \<Rightarrow> 's \<Rightarrow> int \<times> 's"
  tx_ioctl :: "addr \<Rightarrow> int \<Rightarrow> addr \<Rightarrow> 's \<Rightarrow> int \<times> 's"
  rx_depth :: "addr \<Rightarrow> alt_u32"
  rx_prepare :: "addr \<Rightarrow> addr \<Rightarrow> alt_u32 \<Rightarrow> addr \<Rightarrow> addr \<Rightarrow> 's \<Rightarrow> int \<times> 's"
  rx_ioctl :: "addr \<Rightarrow> int \<Rightarrow> addr \<Rightarrow> 's \<Rightarrow> int \<times> 's"

definition alt_dma_txchan_close :: "addr \<Rightarrow> int" where
  "alt_dma_txchan_close dma = 0"

definition alt_dma_txchan_send ::
  "'s dma_driver \<Rightarrow> addr \<Rightarrow> addr \<Rightarrow> alt_u32 \<Rightarrow> addr \<Rightarrow> addr \<Rightarrow> 's \<Rightarrow> int \<times> 's" where
  "alt_dma_txchan_send d dma src len don handle s =
     (if dma \<noteq> 0 then tx_dma_send d dma src len don handle s else (- ENODEV, s))"

definition alt_dma_txchan_space :: "'s dma_driver \<Rightarrow> addr \<Rightarrow> 's \<Rightarrow> int \<times> 's" where
  "alt_dma_txchan_space d dma s = (if dma \<noteq> 0 then tx_space d dma s else (- ENODEV, s))"

definition alt_dma_txchan_ioctl :: "'s dma_driver \<Rightarrow> addr \<Rightarrow> int \<Rightarrow> addr \<Rightarrow> 's \<Rightarrow> int \<times> 's" where
  "alt_dma_txchan_ioctl d dma req arg s = (if dma \<noteq> 0 then tx_ioctl d dma req arg s else (- ENODEV, s))"

definition alt_dma_rxchan_close :: "addr \<Rightarrow> int" where
  "alt_dma_rxchan_close dma = 0"

definition alt_dma_rxchan_prepare ::
  "'s dma_driver \<Rightarrow> addr \<Rightarrow> addr \<Rightarrow> alt_u32 \<Rightarrow> addr \<Rightarrow> addr \<Rightarrow> 's \<Rightarrow> int \<times> 's" where
  "alt_dma_rxchan_prepare d dma data len don handle s =
     (if dma \<noteq> 0 then rx_prepare d dma data len don handle s else (- ENODEV, s))"

definition alt_dma_rxchan_ioctl :: "'s dma_driver \<Rightarrow> addr \<Rightarrow> int \<Rightarrow> addr \<Rightarrow> 's \<Rightarrow> int \<times> 's" where
  "alt_dma_rxchan_ioctl d dma req arg s = (if dma \<noteq> 0 then rx_ioctl d dma req arg s else (- ENODEV, s))"

text \<open>The one function that does not test for a null channel.\<close>

definition alt_dma_rxchan_depth :: "'s dma_driver \<Rightarrow> addr \<Rightarrow> alt_u32 c_result" where
  "alt_dma_rxchan_depth d dma = (if dma = 0 then Inl Null_Pointer else Inr (rx_depth d dma))"

definition alt_dma_txchan_reg :: "addr \<Rightarrow> 'a fdtable_scheme \<Rightarrow> int \<times> 'a fdtable_scheme" where
  "alt_dma_txchan_reg dev s = alt_dev_llist_insert dev (alt_dma_txchan_list s) s"

definition alt_dma_rxchan_reg :: "addr \<Rightarrow> 'a fdtable_scheme \<Rightarrow> int \<times> 'a fdtable_scheme" where
  "alt_dma_rxchan_reg dev s = alt_dev_llist_insert dev (alt_dma_rxchan_list s) s"

section \<open>Registration and lookup\<close>

lemma insert_then_find:
  assumes "dllist (llists s) lst xs" "named_devices s xs" "dev \<notin> set (lst # xs)"
    and "dev \<noteq> 0" "dev_name (dev_at s dev) = Some n" "c_string n"
  shows "\<exists>h. alt_dev_llist_insert dev lst s = (0, s\<lparr>llists := h\<rparr>) \<and> dllist h lst (dev # xs)
    \<and> alt_find_dev name lst (s\<lparr>llists := h\<rparr>) = (if name = n then Some dev else alt_find_dev name lst s)"
proof -
  let ?h = "alt_llist_insert lst dev (llists s)"
  have l: "dllist ?h lst (dev # xs)" by (rule ll.holds_ins [OF assms(1,3)])
  have "named_devices (s\<lparr>llists := ?h\<rparr>) (dev # xs)"
    using assms(2,5,6) by (simp add: named_devices_def)
  from alt_find_dev_eq [OF _ this, of lst name] l alt_find_dev_eq [OF assms(1,2), of name] assms(4,5)
  show ?thesis by (auto simp: alt_dev_llist_insert_def first_named_def)
qed

section \<open>Properties\<close>

text \<open>A channel that is registered is found by its name from then on, before any other of
  that name; what every other name finds is as before; and a channel without a name, or no channel
  at all, is refused with \<open>EINVAL\<close> and changes nothing else.\<close>

theorem registered_channel_is_found:
  assumes "dllist (llists s) (alt_dma_txchan_list s) xs" and "named_devices s xs"
    and "dev \<notin> set (alt_dma_txchan_list s # xs)"
    and "\<And>n. dev_name (dev_at s dev) = Some n \<Longrightarrow> c_string n"
  shows "case (if dev = 0 then None else dev_name (dev_at s dev)) of
      None \<Rightarrow> alt_dma_txchan_reg dev s = (- EINVAL, s\<lparr>alt_errno := EINVAL\<rparr>)
    | Some n \<Rightarrow> \<exists>s'. alt_dma_txchan_reg dev s = (0, s')
        \<and> alt_dma_txchan_open n s' = Some (dev, s')
        \<and> (\<forall>m. m = n \<or> map_option fst (alt_dma_txchan_open m s') = map_option fst (alt_dma_txchan_open m s))"
proof (cases "if dev = 0 then None else dev_name (dev_at s dev)")
  case None
  then show ?thesis by (auto simp: alt_dma_txchan_reg_def alt_dev_llist_insert_def split: if_splits)
next
  case (Some n)
  then have n: "dev \<noteq> 0" "dev_name (dev_at s dev) = Some n" "c_string n"
    using assms(4) by (auto split: if_splits)
  let ?s' = "s\<lparr>llists := alt_llist_insert (alt_dma_txchan_list s) dev (llists s)\<rparr>"
  have reg: "alt_dma_txchan_reg dev s = (0, ?s')"
    using n by (simp add: alt_dma_txchan_reg_def alt_dev_llist_insert_def)
  have find: "alt_find_dev m (alt_dma_txchan_list s) ?s'
      = (if m = n then Some dev else alt_find_dev m (alt_dma_txchan_list s) s)" for m
    using insert_then_find [OF assms(1-3) n, of m] n by (auto simp: alt_dev_llist_insert_def)
  have "alt_dma_txchan_open n ?s' = Some (dev, ?s')"
    using find [of n] n(1) by (simp add: alt_dma_txchan_open_def)
  moreover have "m = n \<or> map_option fst (alt_dma_txchan_open m ?s') = map_option fst (alt_dma_txchan_open m s)" for m
    using find [of m] by (auto simp: alt_dma_txchan_open_def split: Option.bind_splits)
  ultimately show ?thesis using Some reg by auto
qed

definition demo_channels :: fdtable where
  "demo_channels = demo_table\<lparr>llists := ALT_LLIST_HEAD 61 (llists demo_table)\<rparr>"

theorem registered_channel_is_found_witness:
  "\<exists>s'. alt_dma_txchan_reg 80 demo_channels = (0, s')
    \<and> alt_dma_txchan_open ''/dev/jtag_uart'' s' = Some (80, s')"
proof -
  have l: "dllist (llists demo_channels) (alt_dma_txchan_list demo_channels) []"
    unfolding demo_channels_def using dllist_head [of 61 "llists demo_table"] by (simp add: demo_table_def)
  have d: "dev_name (dev_at demo_channels 80) = Some ''/dev/jtag_uart''"
    by (simp add: demo_channels_def demo_table_def demo_dev_def)
  have c: "n = ''/dev/jtag_uart'' \<Longrightarrow> c_string n" for n by (simp add: c_string_def)
  have m: "80 \<notin> set (alt_dma_txchan_list demo_channels # [])"
    by (simp add: demo_channels_def demo_table_def)
  from registered_channel_is_found [OF l _ m] show ?thesis
    using d c by (auto simp: named_devices_def)
qed

end
