(* ===== verification/Cache.thy ===== *)
theory Cache
  imports Hal_Prelude
begin

text \<open>
  Cache maintenance: \<^verbatim>\<open>alt_dcache_flush.c\<close>, \<^verbatim>\<open>alt_dcache_flush_all.c\<close>,
  \<^verbatim>\<open>alt_dcache_flush_no_writeback.c\<close>, \<^verbatim>\<open>alt_icache_flush.c\<close>, \<^verbatim>\<open>alt_icache_flush_all.c\<close>,
  \<^verbatim>\<open>alt_remap_cached.c\<close>, \<^verbatim>\<open>alt_uncached_malloc.c\<close> and \<^verbatim>\<open>alt_uncached_free.c\<close>. The cache
  instructions of the processor are parameters with their documented effect as a contract
  (locales \<open>dcache\<close> and \<open>icache\<close>), met by a simulated direct-mapped cache.
\<close>

section \<open>The code\<close>

definition NIOS2_DCACHE_LINE_SIZE :: alt_u32 where "NIOS2_DCACHE_LINE_SIZE = 32"
definition NIOS2_DCACHE_SIZE :: alt_u32 where "NIOS2_DCACHE_SIZE = 2048"
definition NIOS2_ICACHE_LINE_SIZE :: alt_u32 where "NIOS2_ICACHE_LINE_SIZE = 32"
definition NIOS2_ICACHE_SIZE :: alt_u32 where "NIOS2_ICACHE_SIZE = 4096"
definition ALT_CPU_DCACHE_BYPASS_MASK :: alt_u32 where "ALT_CPU_DCACHE_BYPASS_MASK = 0x80000000"

lemmas cache_sizes = NIOS2_DCACHE_LINE_SIZE_def NIOS2_DCACHE_SIZE_def NIOS2_ICACHE_LINE_SIZE_def
  NIOS2_ICACHE_SIZE_def

text \<open>
  \<^verbatim>\<open>for (i = start; i < end; i += line) op(i)\<close> with pointers that wrap around; the result holds
  the last \<open>i\<close>. It does not end when \<open>i\<close> steps over the top of the address space.
\<close>

partial_function (option) flush_loop ::
  "alt_u32 \<Rightarrow> (addr \<Rightarrow> 'h \<Rightarrow> 'h) \<Rightarrow> addr \<Rightarrow> addr \<Rightarrow> 'h \<Rightarrow> (addr \<times> 'h) option" where
  "flush_loop line op i endp h =
     (if i < endp then flush_loop line op (i + line) endp (op i h) else Some (i, h))"

definition alt_dcache_flush :: "(addr \<Rightarrow> 'h \<Rightarrow> 'h) \<Rightarrow> addr \<Rightarrow> alt_u32 \<Rightarrow> 'h \<Rightarrow> 'h option" where
  "alt_dcache_flush flushda start len h =
     do {
       (i, h1) \<leftarrow> flush_loop NIOS2_DCACHE_LINE_SIZE flushda start (start + len) h;
       Some (if start AND (NIOS2_DCACHE_LINE_SIZE - 1) \<noteq> 0 then flushda i h1 else h1)
     }"

definition alt_dcache_flush_all :: "(addr \<Rightarrow> 'h \<Rightarrow> 'h) \<Rightarrow> 'h \<Rightarrow> 'h option" where
  "alt_dcache_flush_all flushd h =
     do {
       (i, h1) \<leftarrow> flush_loop NIOS2_DCACHE_LINE_SIZE flushd 0 NIOS2_DCACHE_SIZE h;
       Some h1
     }"

definition alt_dcache_flush_no_writeback :: "(addr \<Rightarrow> 'h \<Rightarrow> 'h) \<Rightarrow> addr \<Rightarrow> alt_u32 \<Rightarrow> 'h \<Rightarrow> 'h option" where
  "alt_dcache_flush_no_writeback initda start len h =
     do {
       (i, h1) \<leftarrow> flush_loop NIOS2_DCACHE_LINE_SIZE initda start (start + len) h;
       Some (if start AND (NIOS2_DCACHE_LINE_SIZE - 1) \<noteq> 0 then initda i h1 else h1)
     }"

definition alt_icache_flush ::
  "(addr \<Rightarrow> 'h \<Rightarrow> 'h) \<Rightarrow> ('h \<Rightarrow> 'h) \<Rightarrow> addr \<Rightarrow> alt_u32 \<Rightarrow> 'h \<Rightarrow> 'h option" where
  "alt_icache_flush flushi flushp start len h =
     (let len1 = (if len > NIOS2_ICACHE_SIZE then NIOS2_ICACHE_SIZE else len)
      in do {
        (i, h1) \<leftarrow> flush_loop NIOS2_ICACHE_LINE_SIZE flushi start (start + len1) h;
        (let h2 = (if start AND (NIOS2_ICACHE_LINE_SIZE - 1) \<noteq> 0 then flushi i h1 else h1)
         in Some (flushp h2))
      })"

definition alt_icache_flush_all :: "(addr \<Rightarrow> 'h \<Rightarrow> 'h) \<Rightarrow> ('h \<Rightarrow> 'h) \<Rightarrow> 'h \<Rightarrow> 'h option" where
  "alt_icache_flush_all flushi flushp h = alt_icache_flush flushi flushp 0 NIOS2_ICACHE_SIZE h"

definition alt_remap_cached :: "addr \<Rightarrow> alt_u32 \<Rightarrow> addr" where
  "alt_remap_cached ptr len = ptr AND NOT ALT_CPU_DCACHE_BYPASS_MASK"

text \<open>\<open>memalign\<close> and \<open>free\<close> are the C library's; the arithmetic on sizes wraps around.\<close>

definition alt_uncached_malloc ::
  "(alt_u32 \<Rightarrow> alt_u32 \<Rightarrow> 'h \<Rightarrow> addr \<times> 'h) \<Rightarrow> (addr \<Rightarrow> 'h \<Rightarrow> 'h) \<Rightarrow> alt_u32 \<Rightarrow> 'h \<Rightarrow> (addr \<times> 'h) option" where
  "alt_uncached_malloc memalign flushda sz h =
     (let num_lines = (sz + NIOS2_DCACHE_LINE_SIZE - 1) div NIOS2_DCACHE_LINE_SIZE;
          aligned_size = num_lines * NIOS2_DCACHE_LINE_SIZE;
          (ptr, h1) = memalign NIOS2_DCACHE_LINE_SIZE aligned_size h
      in if ptr = 0 then Some (0, h1)
         else do {
           h2 \<leftarrow> alt_dcache_flush flushda ptr aligned_size h1;
           Some (ptr OR ALT_CPU_DCACHE_BYPASS_MASK, h2)
         })"

definition alt_uncached_free :: "(addr \<Rightarrow> 'h \<Rightarrow> 'h) \<Rightarrow> addr \<Rightarrow> 'h \<Rightarrow> 'h" where
  "alt_uncached_free free ptr h = free (ptr AND NOT ALT_CPU_DCACHE_BYPASS_MASK) h"

section \<open>The addresses of a flush\<close>

text \<open>The line an address is on, and the places of the data and the instruction cache for it.\<close>

definition cache_line :: "addr \<Rightarrow> nat" where "cache_line a = unat a div 32"
definition dindex :: "addr \<Rightarrow> nat" where "dindex a = cache_line a mod 64"
definition iindex :: "addr \<Rightarrow> nat" where "iindex a = cache_line a mod 128"

text \<open>The first \<open>n\<close> addresses of a loop, one line apart.\<close>

definition each_line :: "(addr \<Rightarrow> 'h \<Rightarrow> 'h) \<Rightarrow> addr \<Rightarrow> nat \<Rightarrow> 'h \<Rightarrow> 'h" where
  "each_line op a n h = fold (\<lambda>k. op (a + of_nat (32 * k))) [0..<n] h"

lemma each_line_0 [simp]: "each_line op a 0 h = h"
  by (simp add: each_line_def)

lemma each_line_Suc: "each_line op a (Suc n) h = op (a + of_nat (32 * n)) (each_line op a n h)"
  by (simp add: each_line_def)

lemma each_line_first: "each_line op a (Suc n) h = each_line op (a + 32) n (op a h)"
proof (induction n)
  case (Suc n)
  have "a + of_nat (32 * Suc n) = a + 32 + of_nat (32 * n)" by simp
  with Suc show ?case by (simp only: each_line_Suc)
qed (simp add: each_line_def)

lemma unat_plus_32: "unat a + n < 4294967296 \<Longrightarrow> unat (a + of_nat n) = unat a + n" for a :: addr
  by (simp add: add_wrap_32)

lemma flush_loop_each_line:
  assumes "unat endp + 32 \<le> 4294967296"
  shows "flush_loop 32 op i endp h =
    Some (let n = (unat endp - unat i + 31) div 32 in (i + of_nat (32 * n), each_line op i n h))"
proof (induction "(unat endp - unat i + 31) div 32" arbitrary: i h)
  case 0
  then have "\<not> i < endp" by (simp add: word_less_nat_alt)
  with 0 show ?case by (subst flush_loop.simps) simp
next
  case (Suc n)
  then have "unat i < unat endp" by (cases "unat endp - unat i") auto
  then have "i < endp" "unat (i + 32) = unat i + 32"
    using assms unat_plus_32 [of i 32] by (simp_all add: word_less_nat_alt)
  moreover from Suc.hyps(2) \<open>unat (i + 32) = unat i + 32\<close>
  have n: "n = (unat endp - unat (i + 32) + 31) div 32" by simp
  ultimately show ?case
    using Suc.hyps(1) [OF n, of "op i h"]
    by (subst flush_loop.simps) (simp add: each_line_first Let_def n [symmetric] flip: Suc.hyps(2))
qed

text \<open>Whether a region starts in the middle of a line, and the number of lines flushed for it.\<close>

definition unaligned :: "addr \<Rightarrow> nat" where "unaligned a = (if unat a mod 32 = 0 then 0 else 1)"

definition lines_for :: "addr \<Rightarrow> nat \<Rightarrow> nat" where
  "lines_for start len = (len + 31) div 32 + unaligned start"

lemma unaligned_mask: "a AND 31 \<noteq> 0 \<longleftrightarrow> unaligned a = 1" for a :: addr
proof -
  have "a AND 31 = take_bit 5 a" by (simp add: take_bit_eq_mask mask_eq_exp_minus_1)
  then have "unat (a AND 31) = unat a mod 32" by (simp add: unat_mod take_bit_eq_mod)
  then show ?thesis by (auto simp: unaligned_def simp flip: unat_eq_0)
qed

lemma flush_region:
  assumes "unat start + unat len + 32 \<le> 4294967296"
  shows "flush_loop 32 op start (start + len) h =
    Some (start + of_nat (32 * ((unat len + 31) div 32)), each_line op start ((unat len + 31) div 32) h)"
proof -
  have "unat (start + len) = unat start + unat len"
    using unat_plus_32 [of start "unat len"] assms by simp
  then show ?thesis using flush_loop_each_line [of "start + len" op start h] assms by (simp add: Let_def)
qed

lemma flush_with_extra:
  assumes "unat start + unat len + 32 \<le> 4294967296"
  shows "do {
      (i, h1) \<leftarrow> flush_loop 32 op start (start + len) h;
      Some (if start AND (32 - 1) \<noteq> 0 then op i h1 else h1)
    } = Some (each_line op start (lines_for start (unat len)) h)"
  using unaligned_mask [of start]
  by (auto simp: flush_region [OF assms] lines_for_def each_line_Suc unaligned_def)

text \<open>These lines are at least the lines of the region.\<close>

lemma line_in_flush:
  assumes "unat start + len + 32 \<le> 4294967296" "unat start \<le> unat a" "unat a < unat start + len"
  shows "\<exists>k<lines_for start len. cache_line (start + of_nat (32 * k)) = cache_line a"
proof -
  define k where "k = unat a div 32 - unat start div 32"
  have le: "unat start div 32 \<le> unat a div 32" using assms(2) by (rule div_le_mono)
  have lt: "32 * k < len + unat start mod 32" 
    using assms(2,3) le div_mult_mod_eq [of "unat start" 32] div_mult_mod_eq [of "unat a" 32]
    unfolding k_def by linarith
  have "k < lines_for start len"
  proof (cases "unat start mod 32 = 0")
    case True
    then have "32 * (k + 1) \<le> len + 31" using lt by simp
    then have "k + 1 \<le> (len + 31) div 32" by (simp add: less_eq_div_iff_mult_less_eq mult.commute)
    with True show ?thesis by (simp add: lines_for_def unaligned_def)
  next
    case False
    have "32 * k \<le> len + 31" using lt by linarith
    then have "k \<le> (len + 31) div 32" by (simp add: less_eq_div_iff_mult_less_eq mult.commute)
    with False show ?thesis by (simp add: lines_for_def unaligned_def)
  qed
  moreover have "unat (start + of_nat (32 * k)) = unat start + 32 * k"
    using assms le unfolding k_def by (intro unat_plus_32) linarith
  then have "cache_line (start + of_nat (32 * k)) = cache_line a"
    using le unfolding cache_line_def k_def by simp
  ultimately show ?thesis by blast
qed

section \<open>The data cache\<close>

text \<open>
  What the data book says of the instructions: \<open>flushda\<close> writes the line of an address back, if it
  is cached and dirty, and drops it; \<open>flushd\<close> does so with whatever line is at the place of the
  address in the cache; \<open>initda\<close> drops the line without writing it back. \<open>view\<close> is the memory as
  the processor reads it, \<open>mem\<close> what the main memory holds.
\<close>

locale dcache =
  fixes flushda flushd initda :: "addr \<Rightarrow> 'h \<Rightarrow> 'h"
    and view mem :: "'h \<Rightarrow> addr \<Rightarrow> alt_u8" and cached :: "'h \<Rightarrow> addr \<Rightarrow> bool"
  assumes uncached: "\<not> cached h b \<Longrightarrow> view h b = mem h b"
    and flushda_view: "view (flushda a h) = view h"
    and flushda_cached: "cached (flushda a h) b \<longleftrightarrow> cached h b \<and> cache_line b \<noteq> cache_line a"
    and flushd_view: "view (flushd a h) = view h"
    and flushd_cached: "cached (flushd a h) b \<longleftrightarrow> cached h b \<and> dindex b \<noteq> dindex a"
    and initda_view: "view (initda a h) b = (if cache_line b = cache_line a then mem h b else view h b)"
    and initda_mem: "mem (initda a h) = mem h"
begin

lemma each_flushda:
  "view (each_line flushda a n h) = view h"
  "cached (each_line flushda a n h) b
     \<longleftrightarrow> cached h b \<and> (\<forall>k<n. cache_line b \<noteq> cache_line (a + of_nat (32 * k)))"
  by (induction n) (auto simp: each_line_Suc flushda_view flushda_cached less_Suc_eq)

lemma each_flushd:
  "view (each_line flushd a n h) = view h"
  "cached (each_line flushd a n h) b
     \<longleftrightarrow> cached h b \<and> (\<forall>k<n. dindex b \<noteq> dindex (a + of_nat (32 * k)))"
  by (induction n) (auto simp: each_line_Suc flushd_view flushd_cached less_Suc_eq)

lemma each_initda:
  "mem (each_line initda a n h) = mem h"
  "view (each_line initda a n h) b =
     (if \<exists>k<n. cache_line b = cache_line (a + of_nat (32 * k)) then mem h b else view h b)"
proof -
  show 1: "mem (each_line initda a n h) = mem h" for n
    by (induction n) (auto simp: each_line_Suc initda_mem)
  show "view (each_line initda a n h) b =
     (if \<exists>k<n. cache_line b = cache_line (a + of_nat (32 * k)) then mem h b else view h b)"
    by (induction n) (auto simp: each_line_Suc initda_view 1 less_Suc_eq)
qed

lemma flush_writes_back:
  assumes "unat start + unat len + 32 \<le> 4294967296"
  shows "\<exists>h'. alt_dcache_flush flushda start len h = Some h' \<and> view h' = view h
    \<and> (\<forall>a. unat start \<le> unat a \<and> unat a < unat start + unat len \<longrightarrow> \<not> cached h' a \<and> mem h' a = view h a)"
proof (intro exI conjI allI impI)
  let ?h' = "each_line flushda start (lines_for start (unat len)) h"
  show "alt_dcache_flush flushda start len h = Some ?h'"
    unfolding alt_dcache_flush_def NIOS2_DCACHE_LINE_SIZE_def by (rule flush_with_extra [OF assms])
  show v: "view ?h' = view h" by (rule each_flushda)
  fix a :: addr assume a: "unat start \<le> unat a \<and> unat a < unat start + unat len"
  from line_in_flush [OF assms conjunct1 [OF a] conjunct2 [OF a]]
  show nc: "\<not> cached ?h' a" by (metis each_flushda(2))
  show "mem ?h' a = view h a" using uncached [OF nc] v by simp
qed

lemma no_writeback_discards:
  assumes "unat start + unat len + 32 \<le> 4294967296"
  shows "\<exists>h'. alt_dcache_flush_no_writeback initda start len h = Some h'
    \<and> (\<forall>b. view h' b = (if \<exists>k<lines_for start (unat len). cache_line b = cache_line (start + of_nat (32 * k))
                        then mem h b else view h b))"
  unfolding alt_dcache_flush_no_writeback_def NIOS2_DCACHE_LINE_SIZE_def flush_with_extra [OF assms]
  by (simp add: each_initda)

lemma flush_all_empties:
  "\<exists>h'. alt_dcache_flush_all flushd h = Some h' \<and> view h' = view h \<and> (\<forall>b. \<not> cached h' b)"
proof (intro exI conjI allI)
  show "alt_dcache_flush_all flushd h = Some (each_line flushd 0 64 h)"
    by (simp add: alt_dcache_flush_all_def cache_sizes flush_loop_each_line Let_def)
  show "view (each_line flushd 0 64 h) = view h" by (rule each_flushd)
  fix b
  have "dindex (0 + of_nat (32 * dindex b)) = dindex b"
    using unat_plus_32 [of 0 "32 * dindex b"] by (simp add: dindex_def cache_line_def)
  moreover have "dindex b < 64" by (simp add: dindex_def)
  ultimately show "\<not> cached (each_line flushd 0 64 h) b" by (metis each_flushd(2))
qed

end

section \<open>The instruction cache\<close>

text \<open>\<open>flushi\<close> empties the place of an address in the cache, \<open>flushp\<close> the pipeline.\<close>

locale icache =
  fixes flushi :: "addr \<Rightarrow> 'h \<Rightarrow> 'h" and flushp :: "'h \<Rightarrow> 'h"
    and held :: "'h \<Rightarrow> addr \<Rightarrow> bool" and prefetched :: "'h \<Rightarrow> addr \<Rightarrow> bool"
  assumes flushi_held: "held (flushi a h) b \<longleftrightarrow> held h b \<and> iindex b \<noteq> iindex a"
    and flushp_held: "held (flushp h) b \<longleftrightarrow> held h b"
    and flushp_prefetched: "\<not> prefetched (flushp h) b"
begin

lemma each_flushi:
  "held (each_line flushi a n h) b
     \<longleftrightarrow> held h b \<and> (\<forall>k<n. iindex b \<noteq> iindex (a + of_nat (32 * k)))"
  by (induction n) (auto simp: each_line_Suc flushi_held less_Suc_eq)

text \<open>A region of the size of the cache reaches every place of it.\<close>

lemma whole_cache:
  assumes "unat start + 4096 + 32 \<le> 4294967296"
  shows "\<exists>k<lines_for start 4096. iindex b = iindex (start + of_nat (32 * k))"
proof -
  define k where "k = (cache_line b + (128 - cache_line start mod 128)) mod 128"
  have "k < 128" by (simp add: k_def)
  then have "unat (start + of_nat (32 * k)) = unat start + 32 * k"
    using assms by (intro unat_plus_32) simp
  then have "iindex (start + of_nat (32 * k)) = (cache_line start + k) mod 128"
    by (simp add: iindex_def cache_line_def add.commute)
  also have "\<dots> = (cache_line start mod 128 + (cache_line b + (128 - cache_line start mod 128))) mod 128"
    unfolding k_def by (simp only: mod_add_left_eq mod_add_right_eq)
  also have "cache_line start mod 128 + (cache_line b + (128 - cache_line start mod 128)) = cache_line b + 128"
    using mod_less_divisor [of 128 "cache_line start"] by linarith
  also have "(cache_line b + 128) mod 128 = iindex b" by (simp add: iindex_def)
  finally show ?thesis using \<open>k < 128\<close> by (intro exI [of _ k]) (simp add: lines_for_def)
qed

lemma flush_forgets:
  assumes "unat start + min 4096 (unat len) + 32 \<le> 4294967296"
  shows "\<exists>h'. alt_icache_flush flushi flushp start len h = Some h' \<and> (\<forall>a. \<not> prefetched h' a)
    \<and> (\<forall>a. unat start \<le> unat a \<and> unat a < unat start + unat len \<longrightarrow> \<not> held h' a)"
proof (intro exI conjI allI impI)
  define len1 where "len1 = (if len > 4096 then 4096 else len)"
  then have len1: "unat len1 = min 4096 (unat len)" by (auto simp: word_less_nat_alt min_def)
  with assms have bound: "unat start + unat len1 + 32 \<le> 4294967296" by simp
  define h' where "h' = each_line flushi start (lines_for start (unat len1)) h"
  show "alt_icache_flush flushi flushp start len h = Some (flushp h')"
    using unaligned_mask [of start]
    unfolding alt_icache_flush_def cache_sizes Let_def len1_def [symmetric] flush_region [OF bound]
    by (simp add: h'_def lines_for_def each_line_Suc unaligned_def)
  show "\<not> prefetched (flushp h') a" for a by (rule flushp_prefetched)
  fix a :: addr assume a: "unat start \<le> unat a \<and> unat a < unat start + unat len"
  have "\<exists>k<lines_for start (unat len1). iindex a = iindex (start + of_nat (32 * k))"
  proof (cases "unat len \<le> 4096")
    case True
    with len1 bound a line_in_flush [of start "unat len1" a] show ?thesis
      by (auto simp: iindex_def)
  next
    case False
    with len1 bound whole_cache show ?thesis by simp
  qed
  then show "\<not> held (flushp h') a" by (auto simp: flushp_held h'_def each_flushi)
qed

end

section \<open>A simulated cache\<close>

text \<open>
  Main memory and a direct-mapped write-back cache of 64 lines: the line held at each place, with
  its contents. The instruction cache holds the line at each of 128 places.
\<close>

record sim_cache =
  ram :: "addr \<Rightarrow> alt_u8"
  dlines :: "nat \<Rightarrow> (nat \<times> (addr \<Rightarrow> alt_u8)) option"
  ilines :: "nat \<Rightarrow> nat option"
  fetched :: "addr \<Rightarrow> bool"

definition sim_cached :: "sim_cache \<Rightarrow> addr \<Rightarrow> bool" where
  "sim_cached h a = (case dlines h (dindex a) of None \<Rightarrow> False | Some (t, d) \<Rightarrow> t = cache_line a)"

definition sim_view :: "sim_cache \<Rightarrow> addr \<Rightarrow> alt_u8" where
  "sim_view h a =
     (case dlines h (dindex a) of None \<Rightarrow> ram h a
      | Some (t, d) \<Rightarrow> if t = cache_line a then d a else ram h a)"

definition write_back :: "nat \<Rightarrow> sim_cache \<Rightarrow> sim_cache" where
  "write_back i h = h\<lparr>ram := (\<lambda>a. if dindex a = i then sim_view h a else ram h a)\<rparr>"

definition drop_line :: "nat \<Rightarrow> sim_cache \<Rightarrow> sim_cache" where
  "drop_line i h = h\<lparr>dlines := (dlines h)(i := None)\<rparr>"

definition sim_flushd :: "addr \<Rightarrow> sim_cache \<Rightarrow> sim_cache" where
  "sim_flushd a h = drop_line (dindex a) (write_back (dindex a) h)"

definition sim_flushda :: "addr \<Rightarrow> sim_cache \<Rightarrow> sim_cache" where
  "sim_flushda a h = (if sim_cached h a then sim_flushd a h else h)"

definition sim_initda :: "addr \<Rightarrow> sim_cache \<Rightarrow> sim_cache" where
  "sim_initda a h = (if sim_cached h a then drop_line (dindex a) h else h)"

lemma same_line_same_index: "cache_line a = cache_line b \<Longrightarrow> dindex a = dindex b"
  by (simp add: dindex_def)

lemma sim_flushd_facts:
  "sim_view (sim_flushd a h) = sim_view h"
  "sim_cached (sim_flushd a h) b \<longleftrightarrow> sim_cached h b \<and> dindex b \<noteq> dindex a"
  by (auto simp: fun_eq_iff sim_flushd_def drop_line_def write_back_def sim_view_def sim_cached_def
      split: option.splits)

lemma sim_cached_same_line: "cache_line a = cache_line b \<Longrightarrow> sim_cached h a \<longleftrightarrow> sim_cached h b"
  using same_line_same_index [of a b] by (auto simp: sim_cached_def split: option.splits)

lemma sim_cached_same_place:
  "sim_cached h a \<Longrightarrow> sim_cached h b \<Longrightarrow> dindex a = dindex b \<Longrightarrow> cache_line a = cache_line b"
  by (auto simp: sim_cached_def split: option.splits)

interpretation sim_dcache: dcache sim_flushda sim_flushd sim_initda sim_view ram sim_cached
proof unfold_locales
  fix h :: sim_cache and a b :: addr
  show "\<not> sim_cached h b \<Longrightarrow> sim_view h b = ram h b"
    by (auto simp: sim_cached_def sim_view_def split: option.splits)
  show "sim_view (sim_flushda a h) = sim_view h" by (simp add: sim_flushda_def sim_flushd_facts)
  show "sim_cached (sim_flushda a h) b \<longleftrightarrow> sim_cached h b \<and> cache_line b \<noteq> cache_line a"
    using sim_cached_same_line [of b a h] sim_cached_same_place [of h b a] same_line_same_index [of b a]
    by (cases "sim_cached h a") (auto simp: sim_flushda_def sim_flushd_facts)
  show "sim_view (sim_flushd a h) = sim_view h"
    "sim_cached (sim_flushd a h) b \<longleftrightarrow> sim_cached h b \<and> dindex b \<noteq> dindex a"
    by (simp_all add: sim_flushd_facts)
  show "sim_view (sim_initda a h) b = (if cache_line b = cache_line a then ram h b else sim_view h b)"
    using same_line_same_index [of b a]
    by (auto simp: sim_initda_def drop_line_def sim_cached_def sim_view_def split: option.splits)
  show "ram (sim_initda a h) = ram h" by (simp add: sim_initda_def drop_line_def)
qed

definition sim_flushi :: "addr \<Rightarrow> sim_cache \<Rightarrow> sim_cache" where
  "sim_flushi a h = h\<lparr>ilines := (ilines h)(iindex a := None)\<rparr>"

definition sim_flushp :: "sim_cache \<Rightarrow> sim_cache" where
  "sim_flushp h = h\<lparr>fetched := (\<lambda>_. False)\<rparr>"

interpretation sim_icache: icache sim_flushi sim_flushp
    "\<lambda>h a. ilines h (iindex a) = Some (cache_line a)" fetched
  by unfold_locales (auto simp: sim_flushi_def sim_flushp_def)

text \<open>A cache in which line 1 is dirty: it holds sevens where the memory holds zeros.\<close>

definition dirty_cache :: sim_cache where
  "dirty_cache = \<lparr>ram = (\<lambda>_. 0), dlines = (\<lambda>i. if i = 1 then Some (1, \<lambda>_. 7) else None),
     ilines = (\<lambda>_. None), fetched = (\<lambda>_. False)\<rparr>"

section \<open>Properties\<close>

text \<open>Property C21: \<open>alt_dcache_flush\<close> returns for every region that ends below the last line of the
  address space; afterwards no byte of the region is cached, the main memory holds what the
  processor last saw there, and what the processor sees has changed nowhere.\<close>

theorem alt_dcache_flush_writes_back:
  assumes "dcache flushda flushd initda view mem cached" and "unat start + unat len + 32 \<le> 4294967296"
  shows "\<exists>h'. alt_dcache_flush flushda start len h = Some h' \<and> view h' = view h
    \<and> (\<forall>a. unat start \<le> unat a \<and> unat a < unat start + unat len \<longrightarrow> \<not> cached h' a \<and> mem h' a = view h a)"
  by (rule dcache.flush_writes_back [OF assms])

theorem alt_dcache_flush_writes_back_witness:
  "ram dirty_cache 50 = 0
   \<and> (\<exists>h'. alt_dcache_flush sim_flushda 40 16 dirty_cache = Some h' \<and> \<not> sim_cached h' 50 \<and> ram h' 50 = 7)"
proof -
  have "sim_view dirty_cache 50 = 7"
    by (simp add: dirty_cache_def sim_view_def dindex_def cache_line_def)
  with alt_dcache_flush_writes_back [OF sim_dcache.dcache_axioms, of 40 16 dirty_cache] show ?thesis
    by (auto simp: dirty_cache_def)
qed

text \<open>Property C40: \<open>alt_dcache_flush_no_writeback\<close> discards more than the region. When the region starts
  in the middle of a line and does not reach into the next one, the next line loses its dirty data
  all the same.\<close>

theorem flush_no_writeback_discards_next_line:
  assumes "dcache flushda flushd initda view mem cached"
    and "unat start mod 32 \<noteq> 0" and "0 < unat len" and "unat start mod 32 + unat len \<le> 32"
    and "unat start + unat len + 32 \<le> 4294967296" and "cache_line b = cache_line start + 1"
  shows "unat start + unat len \<le> unat b
    \<and> (\<exists>h'. alt_dcache_flush_no_writeback initda start len h = Some h' \<and> view h' b = mem h b)"
proof -
  have "lines_for start (unat len) = 2"
    using assms(2-4) by (simp add: lines_for_def unaligned_def div_nat_eqI)
  moreover have "cache_line (start + of_nat (32 * 1)) = cache_line b"
    using assms(5,6) unat_plus_32 [of start 32] assms(3) by (simp add: cache_line_def)
  ultimately have "\<exists>k<lines_for start (unat len). cache_line b = cache_line (start + of_nat (32 * k))"
    by (intro exI [of _ 1]) simp
  moreover have "unat start + unat len \<le> unat b"
    using assms(4,6) div_mult_mod_eq [of "unat start" 32] div_mult_mod_eq [of "unat b" 32]
    unfolding cache_line_def by linarith
  ultimately show ?thesis
    using dcache.no_writeback_discards [OF assms(1,5), of h] by auto
qed

theorem flush_no_writeback_discards_next_line_witness:
  "sim_view dirty_cache 50 = 7
   \<and> (\<exists>h'. alt_dcache_flush_no_writeback sim_initda 16 8 dirty_cache = Some h' \<and> sim_view h' 50 = 0)"
proof -
  have "cache_line 50 = cache_line 16 + 1" by (simp add: cache_line_def)
  from flush_no_writeback_discards_next_line [OF sim_dcache.dcache_axioms _ _ _ _ this, of 8 dirty_cache]
  show ?thesis by (simp add: dirty_cache_def sim_view_def dindex_def cache_line_def)
qed

end
