(* ===== verification/Startup.thy ===== *)
theory Startup
  imports Cache
begin

text \<open>
  Start-up code: \<^verbatim>\<open>alt_load.c\<close> with \<^verbatim>\<open>sys/alt_load.h\<close>, which copies the sections of the program
  from the flash to the memory it runs in and then brings the caches in step, and
  \<^verbatim>\<open>alt_do_ctors.c\<close>, \<^verbatim>\<open>alt_do_dtors.c\<close> and \<^verbatim>\<open>alt_main.c\<close>. The property is about the
  composition with the cache maintenance: the image is in main memory where the instruction fetch
  finds it.
\<close>

section \<open>The code\<close>

text \<open>
  \<open>stw\<close> and \<open>ldw\<close> are the store and the load of a word by the processor. The loop compares for
  equality only: it does not end unless \<open>to\<close> hits \<open>end\<close>.
\<close>

partial_function (option) copy_words ::
  "(addr \<Rightarrow> 'h \<Rightarrow> alt_u32) \<Rightarrow> (addr \<Rightarrow> alt_u32 \<Rightarrow> 'h \<Rightarrow> 'h) \<Rightarrow> addr \<Rightarrow> addr \<Rightarrow> addr \<Rightarrow> 'h \<Rightarrow> 'h option" where
  "copy_words ldw stw from_w to_w end_w h =
     (if to_w \<noteq> end_w then copy_words ldw stw (from_w + 4) (to_w + 4) end_w (stw to_w (ldw from_w h) h)
      else Some h)"

definition alt_load_section ::
  "(addr \<Rightarrow> 'h \<Rightarrow> alt_u32) \<Rightarrow> (addr \<Rightarrow> alt_u32 \<Rightarrow> 'h \<Rightarrow> 'h) \<Rightarrow> addr \<Rightarrow> addr \<Rightarrow> addr \<Rightarrow> 'h \<Rightarrow> 'h option" where
  "alt_load_section ldw stw from_w to_w end_w h =
     (if to_w \<noteq> from_w then copy_words ldw stw from_w to_w end_w h else Some h)"

text \<open>The symbols of the linker script.\<close>

record section_symbols =
  flash_rwdata_start :: addr
  ram_rwdata_start :: addr
  ram_rwdata_end :: addr
  flash_rodata_start :: addr
  ram_rodata_start :: addr
  ram_rodata_end :: addr
  flash_exceptions_start :: addr
  ram_exceptions_start :: addr
  ram_exceptions_end :: addr

text \<open>The instructions of the processor that the start-up code uses.\<close>

record 'h instrs =
  i_ldw :: "addr \<Rightarrow> 'h \<Rightarrow> alt_u32"
  i_stw :: "addr \<Rightarrow> alt_u32 \<Rightarrow> 'h \<Rightarrow> 'h"
  i_flushd :: "addr \<Rightarrow> 'h \<Rightarrow> 'h"
  i_flushi :: "addr \<Rightarrow> 'h \<Rightarrow> 'h"
  i_flushp :: "'h \<Rightarrow> 'h"

definition alt_load :: "'h instrs \<Rightarrow> section_symbols \<Rightarrow> 'h \<Rightarrow> 'h option" where
  "alt_load m y h =
     do {
       h1 \<leftarrow> alt_load_section (i_ldw m) (i_stw m) (flash_rwdata_start y) (ram_rwdata_start y) (ram_rwdata_end y) h;
       h2 \<leftarrow> alt_load_section (i_ldw m) (i_stw m)
               (flash_exceptions_start y) (ram_exceptions_start y) (ram_exceptions_end y) h1;
       h3 \<leftarrow> alt_load_section (i_ldw m) (i_stw m) (flash_rodata_start y) (ram_rodata_start y) (ram_rodata_end y) h2;
       h4 \<leftarrow> alt_dcache_flush_all (i_flushd m) h3;
       alt_icache_flush_all (i_flushi m) (i_flushp m) h4
     }"

text \<open>
  The tables of constructors and destructors, as lists of functions: both loops run from the end
  of the table to its start.
\<close>

definition do_ctors :: "('h \<Rightarrow> 'h) list \<Rightarrow> 'h \<Rightarrow> 'h" where
  "do_ctors ctors h = foldr (\<lambda>ctor. ctor) ctors h"

definition do_dtors :: "('h \<Rightarrow> 'h) list \<Rightarrow> 'h \<Rightarrow> 'h" where
  "do_dtors dtors h = foldr (\<lambda>dtor. dtor) dtors h"

text \<open>
  \<^verbatim>\<open>alt_main()\<close>: the calls it makes, in order. \<open>main\<close> need not return; \<open>exit\<close> does not, and its
  argument and the state it is called in are the result. There is no operating system, so
  \<^verbatim>\<open>ALT_OS_INIT\<close> and \<^verbatim>\<open>ALT_SEM_CREATE\<close> are empty.
\<close>

record 'h boot =
  b_irq_init :: "'h \<Rightarrow> 'h"
  b_sys_init :: "'h \<Rightarrow> 'h"
  b_io_redirect :: "'h \<Rightarrow> 'h"
  b_ctors :: "('h \<Rightarrow> 'h) list"
  b_atexit :: "'h \<Rightarrow> 'h"
  b_main :: "'h \<Rightarrow> (int \<times> 'h) option"
  b_close_stdout :: "'h \<Rightarrow> 'h"

definition alt_main :: "'h boot \<Rightarrow> 'h \<Rightarrow> (int \<times> 'h) option" where
  "alt_main b h =
     (let h1 = b_irq_init b h;
          h2 = b_sys_init b h1;
          h3 = b_io_redirect b h2;
          h4 = do_ctors (b_ctors b) h3;
          h5 = b_atexit b h4
      in do {
        (result, h6) \<leftarrow> b_main b h5;
        Some (result, b_close_stdout b h6)
      })"

section \<open>Words and bytes\<close>

text \<open>A word is stored with its low byte first.\<close>

definition word_at :: "(addr \<Rightarrow> alt_u8) \<Rightarrow> addr \<Rightarrow> alt_u32" where
  "word_at v a = ucast (v a) OR push_bit 8 (ucast (v (a + 1))) OR push_bit 16 (ucast (v (a + 2)))
     OR push_bit 24 (ucast (v (a + 3)))"

definition store_word :: "addr \<Rightarrow> alt_u32 \<Rightarrow> (addr \<Rightarrow> alt_u8) \<Rightarrow> addr \<Rightarrow> alt_u8" where
  "store_word a w v = v(a := ucast w, a + 1 := ucast (drop_bit 8 w), a + 2 := ucast (drop_bit 16 w),
     a + 3 := ucast (drop_bit 24 w))"

lemma word_bytes:
  "ucast (word_at v a) = v a" "ucast (drop_bit 8 (word_at v a)) = v (a + 1)"
  "ucast (drop_bit 16 (word_at v a)) = v (a + 2)" "ucast (drop_bit 24 (word_at v a)) = v (a + 3)"
  unfolding word_at_def by (rule bit_word_eqI, auto simp: bit_simps dest: bit_imp_le_length)+

lemma store_loaded: "store_word t (word_at v f) u = u(t := v f, t + 1 := v (f + 1), t + 2 := v (f + 2), t + 3 := v (f + 3))"
  by (simp add: store_word_def word_bytes)

section \<open>Copying a section\<close>

text \<open>The bytes of \<open>n\<close> words from an address on.\<close>

definition region :: "addr \<Rightarrow> nat \<Rightarrow> addr set" where
  "region a n = {b. unat a \<le> unat b \<and> unat b < unat a + 4 * n}"

text \<open>What a view of the memory becomes when \<open>n\<close> words are copied.\<close>

definition copied :: "addr \<Rightarrow> addr \<Rightarrow> nat \<Rightarrow> (addr \<Rightarrow> alt_u8) \<Rightarrow> addr \<Rightarrow> alt_u8" where
  "copied f t n v = (\<lambda>b. if b \<in> region t n then v (f + (b - t)) else v b)"

lemma copied_0 [simp]: "copied f t 0 v = v"
  by (auto simp: copied_def region_def fun_eq_iff)

lemma region_first:
  assumes "unat t + 4 \<le> 4294967296"
  shows "b \<in> region t 1 \<longleftrightarrow> b = t \<or> b = t + 1 \<or> b = t + 2 \<or> b = t + 3"
proof -
  have u: "unat (t + 1) = unat t + 1" "unat (t + 2) = unat t + 2" "unat (t + 3) = unat t + 3"
    using unat_plus_32 [of t 1] unat_plus_32 [of t 2] unat_plus_32 [of t 3] assms by simp_all
  have "b \<in> region t 1 \<longleftrightarrow> unat b = unat t \<or> unat b = unat t + 1 \<or> unat b = unat t + 2 \<or> unat b = unat t + 3"
    by (auto simp: region_def)
  then show ?thesis by (simp add: word_unat_eq_iff u)
qed

lemma region_shift:
  assumes "b \<in> region t n" "unat f + 4 * n \<le> 4294967296"
  shows "f + (b - t) \<in> region f n" "unat (f + (b - t)) = unat f + (unat b - unat t)"
proof -
  have d: "unat (b - t) = unat b - unat t" using assms(1) by (simp add: region_def unat_sub word_le_nat_alt)
  have lt: "unat b - unat t < 4 * n" using assms(1) by (auto simp: region_def)
  then have "unat (f + of_nat (unat (b - t))) = unat f + unat (b - t)"
    using assms(2) d by (intro unat_plus_32) simp
  then have "unat (f + (b - t)) = unat f + unat (b - t)" by simp
  then show "unat (f + (b - t)) = unat f + (unat b - unat t)" by (simp only: d)
  with lt show "f + (b - t) \<in> region f n" by (simp add: region_def)
qed

lemma copied_1:
  assumes "unat t + 4 \<le> 4294967296"
  shows "store_word t (word_at v f) v = copied f t 1 v"
proof
  have "t \<noteq> t + 1" "t \<noteq> t + 2" "t \<noteq> t + 3" "t + 1 \<noteq> t + 2" "t + 1 \<noteq> t + 3" "t + 2 \<noteq> t + 3" by simp_all
  then show "store_word t (word_at v f) v b = copied f t 1 v b" for b
    unfolding store_loaded copied_def region_first [OF assms] by auto
qed

lemma copied_Suc:
  assumes t: "unat t + 4 * Suc n \<le> 4294967296" and f: "unat f + 4 * Suc n \<le> 4294967296"
    and disj: "region f (Suc n) \<inter> region t (Suc n) = {}" and n: "n \<noteq> 0"
  shows "copied (f + 4) (t + 4) n (copied f t 1 v) = copied f t (Suc n) v"
proof
  fix b
  have t4: "unat (t + 4) = unat t + 4" using t n unat_plus_32 [of t 4] by simp
  have split: "b \<in> region t (Suc n) \<longleftrightarrow> b \<in> region t 1 \<or> b \<in> region (t + 4) n"
    "\<not> (b \<in> region t 1 \<and> b \<in> region (t + 4) n)"
    by (auto simp: region_def t4)
  show "copied (f + 4) (t + 4) n (copied f t 1 v) b = copied f t (Suc n) v b"
  proof (cases "b \<in> region (t + 4) n")
    case True
    then have b: "b \<in> region t (Suc n)" using split by simp
    have "f + (b - t) \<notin> region t 1"
      using region_shift(1) [OF b f] disj by (auto simp: region_def)
    moreover have "f + 4 + (b - (t + 4)) = f + (b - t)" by simp
    ultimately show ?thesis using True b by (simp add: copied_def)
  next
    case False
    then show ?thesis using split by (auto simp: copied_def)
  qed
qed

section \<open>Loads and stores\<close>

text \<open>What an aligned load and an aligned store do to what the processor sees.\<close>

locale dcache_rw = dcache +
  fixes ldw :: "addr \<Rightarrow> 'a \<Rightarrow> alt_u32" and stw :: "addr \<Rightarrow> alt_u32 \<Rightarrow> 'a \<Rightarrow> 'a"
  assumes ldw: "4 dvd unat a \<Longrightarrow> ldw a h = word_at (view h) a"
    and stw: "4 dvd unat a \<Longrightarrow> view (stw a w h) = store_word a w (view h)"
begin

lemma copy_words_copies:
  assumes "4 dvd unat f" "4 dvd unat t" "unat t + 4 * n < 4294967296" "unat f + 4 * n < 4294967296"
    and "region f n \<inter> region t n = {}"
  shows "\<exists>h'. copy_words ldw stw f t (t + of_nat (4 * n)) h = Some h' \<and> view h' = copied f t n (view h)"
  using assms
proof (induction n arbitrary: f t h)
  case (Suc n)
  have u: "unat (t + 4) = unat t + 4" "unat (f + 4) = unat f + 4"
    using Suc.prems unat_plus_32 [of t 4] unat_plus_32 [of f 4] by simp_all
  have "unat (t + of_nat (4 * Suc n)) = unat t + 4 * Suc n" using Suc.prems by (intro unat_plus_32) simp
  then have ne: "t \<noteq> t + of_nat (4 * Suc n)" by (metis add_cancel_right_right mult_is_0 nat.simps(3) zero_neq_numeral)
  define h1 where "h1 = stw t (ldw f h) h"
  have v1: "view h1 = copied f t 1 (view h)"
    using Suc.prems copied_1 [of t "view h" f] by (simp add: h1_def stw ldw)
  have disj: "region (f + 4) n \<inter> region (t + 4) n = {}"
  proof -
    have "region (f + 4) n \<subseteq> region f (Suc n)" "region (t + 4) n \<subseteq> region t (Suc n)"
      by (auto simp: region_def u)
    with Suc.prems(5) show ?thesis by blast
  qed
  have "4 dvd unat (f + 4)" "4 dvd unat (t + 4)" "unat (t + 4) + 4 * n < 4294967296" "unat (f + 4) + 4 * n < 4294967296"
    using Suc.prems by (simp_all add: u)
  from Suc.IH [OF this disj, of h1] obtain h' where
    h': "copy_words ldw stw (f + 4) (t + 4) (t + 4 + of_nat (4 * n)) h1 = Some h'"
      "view h' = copied (f + 4) (t + 4) n (view h1)" by blast
  have "t + 4 + of_nat (4 * n) = t + of_nat (4 * Suc n)" by simp
  then have "copy_words ldw stw f t (t + of_nat (4 * Suc n)) h = Some h'"
    using ne h'(1) by (subst copy_words.simps) (simp add: h1_def add.assoc)
  moreover have "view h' = copied f t (Suc n) (view h)"
    using h'(2) v1 copied_Suc [of t n f "view h"] Suc.prems by (cases "n = 0") simp_all
  ultimately show ?case by blast
qed (simp add: copy_words.simps)

end

section \<open>The sections\<close>

text \<open>
  A section of \<open>n\<close> words from \<open>f\<close> to \<open>t\<close> is as the linker script makes it: aligned, inside the
  address space, and either in place or with flash and memory apart; different sections do not
  overwrite one another.
\<close>

definition section_ok :: "addr \<Rightarrow> addr \<Rightarrow> addr \<Rightarrow> nat \<Rightarrow> bool" where
  "section_ok f t e n \<longleftrightarrow> e = t + of_nat (4 * n) \<and> 4 dvd unat f \<and> 4 dvd unat t
     \<and> unat t + 4 * n < 4294967296 \<and> unat f + 4 * n < 4294967296 \<and> (t = f \<or> region f n \<inter> region t n = {})"

definition apart :: "addr \<Rightarrow> addr \<Rightarrow> nat \<Rightarrow> addr \<Rightarrow> addr \<Rightarrow> nat \<Rightarrow> bool" where
  "apart f t n f' t' n' \<longleftrightarrow> region t n \<inter> region t' n' = {} \<and> region f n \<inter> region t' n' = {}
     \<and> region f' n' \<inter> region t n = {}"

definition sections_ok :: "section_symbols \<Rightarrow> nat \<Rightarrow> nat \<Rightarrow> nat \<Rightarrow> bool" where
  "sections_ok y rw ex ro \<longleftrightarrow>
     section_ok (flash_rwdata_start y) (ram_rwdata_start y) (ram_rwdata_end y) rw
   \<and> section_ok (flash_exceptions_start y) (ram_exceptions_start y) (ram_exceptions_end y) ex
   \<and> section_ok (flash_rodata_start y) (ram_rodata_start y) (ram_rodata_end y) ro
   \<and> apart (flash_rwdata_start y) (ram_rwdata_start y) rw (flash_exceptions_start y) (ram_exceptions_start y) ex
   \<and> apart (flash_rwdata_start y) (ram_rwdata_start y) rw (flash_rodata_start y) (ram_rodata_start y) ro
   \<and> apart (flash_exceptions_start y) (ram_exceptions_start y) ex (flash_rodata_start y) (ram_rodata_start y) ro"

text \<open>A memory holds the image of a section of a view.\<close>

definition holds_section :: "(addr \<Rightarrow> alt_u8) \<Rightarrow> addr \<Rightarrow> addr \<Rightarrow> nat \<Rightarrow> (addr \<Rightarrow> alt_u8) \<Rightarrow> bool" where
  "holds_section m f t n v \<longleftrightarrow> (\<forall>b\<in>region t n. m b = v (f + (b - t)))"

lemma holds_copied: "holds_section (copied f t n v) f t n v"
  by (simp add: holds_section_def copied_def)

lemma holds_later:
  "holds_section m f t n v \<Longrightarrow> region t n \<inter> region t' n' = {} \<Longrightarrow> holds_section (copied f' t' n' m) f t n v"
  by (auto simp: holds_section_def copied_def)

lemma holds_earlier:
  assumes "holds_section m f t n (copied f' t' n' v)" "region f n \<inter> region t' n' = {}" "section_ok f t e n"
  shows "holds_section m f t n v"
proof -
  have "copied f' t' n' v (f + (b - t)) = v (f + (b - t))" if "b \<in> region t n" for b
    using region_shift(1) [OF that, of f] assms(2,3) by (auto simp: copied_def section_ok_def)
  with assms(1) show ?thesis by (simp add: holds_section_def)
qed

context dcache_rw
begin

lemma load_section_copies:
  assumes "section_ok f t e n"
  obtains h' where "alt_load_section ldw stw f t e h = Some h'" "view h' = copied f t n (view h)"
proof (cases "t = f")
  case True
  moreover have "copied f f n (view h) = view h" by (auto simp: copied_def fun_eq_iff)
  ultimately show thesis using that [of h] by (simp add: alt_load_section_def)
next
  case False
  with assms copy_words_copies [of f t n h] show thesis
    using that by (auto simp: section_ok_def alt_load_section_def)
qed

end

text \<open>Both caches over one memory; flushing instructions does not touch the memory.\<close>

locale memory_system =
  dcache_rw flushda flushd initda view mem cached ldw stw + icache flushi flushp held prefetched
  for flushda flushd initda :: "addr \<Rightarrow> 'h \<Rightarrow> 'h" and view mem :: "'h \<Rightarrow> addr \<Rightarrow> alt_u8"
    and cached :: "'h \<Rightarrow> addr \<Rightarrow> bool" and ldw :: "addr \<Rightarrow> 'h \<Rightarrow> alt_u32" and stw :: "addr \<Rightarrow> alt_u32 \<Rightarrow> 'h \<Rightarrow> 'h"
    and flushi :: "addr \<Rightarrow> 'h \<Rightarrow> 'h" and flushp :: "'h \<Rightarrow> 'h" and held prefetched :: "'h \<Rightarrow> addr \<Rightarrow> bool" +
  assumes flushi_mem: "mem (flushi a h) = mem h"
    and flushp_mem: "mem (flushp h) = mem h"
begin

lemma icache_flush_all_forgets:
  "\<exists>h'. alt_icache_flush_all flushi flushp h = Some h' \<and> mem h' = mem h \<and> (\<forall>b. \<not> held h' b \<and> \<not> prefetched h' b)"
proof -
  have e: "alt_icache_flush_all flushi flushp h = Some (flushp (each_line flushi 0 128 h))"
    by (simp add: alt_icache_flush_all_def alt_icache_flush_def cache_sizes flush_loop_each_line Let_def)
  have "mem (each_line flushi 0 n h) = mem h" for n
    by (induction n) (simp_all add: each_line_Suc flushi_mem)
  moreover have "\<not> held (each_line flushi 0 128 h) b" for b
    using whole_cache [of 0 b] by (auto simp: each_flushi lines_for_def unaligned_def)
  ultimately show ?thesis using e by (simp add: flushp_mem flushp_held flushp_prefetched)
qed

lemma load_image:
  assumes ok: "sections_ok y rw ex ro"
  defines "m \<equiv> \<lparr>i_ldw = ldw, i_stw = stw, i_flushd = flushd, i_flushi = flushi, i_flushp = flushp\<rparr>"
  shows "\<exists>h'. alt_load m y h = Some h'
    \<and> holds_section (mem h') (flash_rwdata_start y) (ram_rwdata_start y) rw (view h)
    \<and> holds_section (mem h') (flash_exceptions_start y) (ram_exceptions_start y) ex (view h)
    \<and> holds_section (mem h') (flash_rodata_start y) (ram_rodata_start y) ro (view h)
    \<and> (\<forall>b. \<not> held h' b \<and> \<not> prefetched h' b)"
proof -
  note so = ok [unfolded sections_ok_def]
  obtain h1 where h1: "alt_load_section ldw stw (flash_rwdata_start y) (ram_rwdata_start y) (ram_rwdata_end y) h = Some h1"
    "view h1 = copied (flash_rwdata_start y) (ram_rwdata_start y) rw (view h)"
    using so load_section_copies by metis
  obtain h2 where h2: "alt_load_section ldw stw (flash_exceptions_start y) (ram_exceptions_start y) (ram_exceptions_end y) h1 = Some h2"
    "view h2 = copied (flash_exceptions_start y) (ram_exceptions_start y) ex (view h1)"
    using so load_section_copies by metis
  obtain h3 where h3: "alt_load_section ldw stw (flash_rodata_start y) (ram_rodata_start y) (ram_rodata_end y) h2 = Some h3"
    "view h3 = copied (flash_rodata_start y) (ram_rodata_start y) ro (view h2)"
    using so load_section_copies by metis
  obtain h4 where h4: "alt_dcache_flush_all flushd h3 = Some h4" "view h4 = view h3" "\<forall>b. \<not> cached h4 b"
    using flush_all_empties by blast
  obtain h5 where h5: "alt_icache_flush_all flushi flushp h4 = Some h5" "mem h5 = mem h4"
    "\<forall>b. \<not> held h5 b \<and> \<not> prefetched h5 b"
    using icache_flush_all_forgets by blast
  have m: "mem h5 = view h3" using h4 h5 uncached by (metis ext)
  have "alt_load m y h = Some h5" by (simp add: alt_load_def m_def h1 h2 h3 h4 h5)
  moreover have "holds_section (mem h5) (flash_rwdata_start y) (ram_rwdata_start y) rw (view h)"
    unfolding m h3(2) h2(2) h1(2) using so by (intro holds_later holds_copied) (auto simp: apart_def)
  moreover have "holds_section (mem h5) (flash_exceptions_start y) (ram_exceptions_start y) ex (view h1)"
    unfolding m h3(2) h2(2) using so by (intro holds_later holds_copied) (auto simp: apart_def)
  then have "holds_section (mem h5) (flash_exceptions_start y) (ram_exceptions_start y) ex (view h)"
    unfolding h1(2) by (rule holds_earlier) (use so in \<open>auto simp: apart_def\<close>)
  moreover have "holds_section (mem h5) (flash_rodata_start y) (ram_rodata_start y) ro (view h2)"
    unfolding m h3(2) by (rule holds_copied)
  then have "holds_section (mem h5) (flash_rodata_start y) (ram_rodata_start y) ro (view h1)"
    unfolding h2(2) by (rule holds_earlier) (use so in \<open>auto simp: apart_def\<close>)
  then have "holds_section (mem h5) (flash_rodata_start y) (ram_rodata_start y) ro (view h)"
    unfolding h1(2) by (rule holds_earlier) (use so in \<open>auto simp: apart_def\<close>)
  ultimately show ?thesis using h5(3) by blast
qed

end

section \<open>A simulated memory system\<close>

text \<open>A store goes to the cached line, if there is one, and to the memory otherwise.\<close>

definition sim_poke :: "addr \<Rightarrow> alt_u8 \<Rightarrow> sim_cache \<Rightarrow> sim_cache" where
  "sim_poke a v h =
     (if sim_cached h a then
        h\<lparr>dlines := (dlines h)(dindex a := map_option (\<lambda>(t, d). (t, d(a := v))) (dlines h (dindex a)))\<rparr>
      else h\<lparr>ram := (ram h)(a := v)\<rparr>)"

definition sim_ldw :: "addr \<Rightarrow> sim_cache \<Rightarrow> alt_u32" where
  "sim_ldw a h = word_at (sim_view h) a"

definition sim_stw :: "addr \<Rightarrow> alt_u32 \<Rightarrow> sim_cache \<Rightarrow> sim_cache" where
  "sim_stw a w h = sim_poke (a + 3) (ucast (drop_bit 24 w)) (sim_poke (a + 2) (ucast (drop_bit 16 w))
     (sim_poke (a + 1) (ucast (drop_bit 8 w)) (sim_poke a (ucast w) h)))"

lemma sim_poke_view: "sim_view (sim_poke a v h) = (sim_view h)(a := v)"
  by (auto simp: fun_eq_iff sim_poke_def sim_view_def sim_cached_def split: option.splits)

interpretation sim_memory: memory_system sim_flushda sim_flushd sim_initda sim_view ram sim_cached sim_ldw sim_stw
    sim_flushi sim_flushp "\<lambda>h a. ilines h (iindex a) = Some (cache_line a)" fetched
  by unfold_locales
    (simp_all add: sim_ldw_def sim_stw_def sim_poke_view store_word_def sim_flushi_def sim_flushp_def)

text \<open>One word of data in the flash at 256, to be copied to 512; the other sections are in place.\<close>

definition one_section :: section_symbols where
  "one_section = \<lparr>flash_rwdata_start = 256, ram_rwdata_start = 512, ram_rwdata_end = 516,
     flash_rodata_start = 1024, ram_rodata_start = 1024, ram_rodata_end = 1028,
     flash_exceptions_start = 32, ram_exceptions_start = 32, ram_exceptions_end = 36\<rparr>"

definition flash_image :: sim_cache where
  "flash_image = \<lparr>ram = (\<lambda>a. if a = 258 then 99 else 0), dlines = (\<lambda>_. None),
     ilines = (\<lambda>_. Some 0), fetched = (\<lambda>_. True)\<rparr>"

section \<open>Properties\<close>

text \<open>Property C12: after \<open>alt_load\<close> the main memory, not just the data cache, holds the image of all
  three sections that the flash held before, and neither the instruction cache nor the pipeline
  holds anything older, so the processor runs the code that was loaded.\<close>

theorem alt_load_puts_image_in_memory:
  assumes "memory_system flushda flushd initda view mem cached ldw stw flushi flushp held prefetched"
    and "sections_ok y rw ex ro"
  shows "\<exists>h'. alt_load \<lparr>i_ldw = ldw, i_stw = stw, i_flushd = flushd, i_flushi = flushi, i_flushp = flushp\<rparr> y h = Some h'
    \<and> holds_section (mem h') (flash_rwdata_start y) (ram_rwdata_start y) rw (view h)
    \<and> holds_section (mem h') (flash_exceptions_start y) (ram_exceptions_start y) ex (view h)
    \<and> holds_section (mem h') (flash_rodata_start y) (ram_rodata_start y) ro (view h)
    \<and> (\<forall>b. \<not> held h' b \<and> \<not> prefetched h' b)"
  by (rule memory_system.load_image [OF assms])

theorem alt_load_puts_image_in_memory_witness:
  "\<exists>h'. alt_load \<lparr>i_ldw = sim_ldw, i_stw = sim_stw, i_flushd = sim_flushd, i_flushi = sim_flushi, i_flushp = sim_flushp\<rparr>
      one_section flash_image = Some h' \<and> ram h' 514 = 99 \<and> \<not> fetched h' 514"
proof -
  have "sections_ok one_section 1 1 1"
    by (auto simp: sections_ok_def one_section_def section_ok_def apart_def region_def)
  from alt_load_puts_image_in_memory [OF sim_memory.memory_system_axioms this, of flash_image]
  obtain h' where h': "alt_load \<lparr>i_ldw = sim_ldw, i_stw = sim_stw, i_flushd = sim_flushd, i_flushi = sim_flushi,
      i_flushp = sim_flushp\<rparr> one_section flash_image = Some h'"
    "holds_section (ram h') 256 512 1 (sim_view flash_image)" "\<not> fetched h' 514"
    by (auto simp: one_section_def)
  have "ram h' 514 = sim_view flash_image 258"
    using h'(2) by (simp add: holds_section_def region_def)
  then show ?thesis using h'(1,3) by (auto simp: sim_view_def flash_image_def)
qed

end
