(* ===== verification/Process.thy ===== *)
theory Process
  imports Cpu_Irq Cache
begin

text \<open>
  Exceptions and the process calls: \<^verbatim>\<open>alt_instruction_exception_entry.c\<close>,
  \<^verbatim>\<open>alt_instruction_exception_register.c\<close>, \<^verbatim>\<open>alt_ecc_fatal_exception.c\<close>, \<^verbatim>\<open>alt_kill.c\<close>,
  \<^verbatim>\<open>alt_exit.c\<close>, \<^verbatim>\<open>alt_getpid.c\<close>, \<^verbatim>\<open>alt_wait.c\<close> and the calls that a single process cannot have
  (\<^verbatim>\<open>fork\<close>, \<^verbatim>\<open>execve\<close>, \<^verbatim>\<open>link\<close>, \<^verbatim>\<open>unlink\<close>, \<^verbatim>\<open>rename\<close>).
\<close>

section \<open>Instruction exceptions\<close>

definition NIOS2_EXCEPTION_MISALIGNED_DATA_ADDR :: int where "NIOS2_EXCEPTION_MISALIGNED_DATA_ADDR = 6"
definition NIOS2_EXCEPTION_MISALIGNED_TARGET_PC :: int where "NIOS2_EXCEPTION_MISALIGNED_TARGET_PC = 7"
definition NIOS2_EXCEPTION_SUPERVISOR_ONLY_DATA_ADDR :: int where "NIOS2_EXCEPTION_SUPERVISOR_ONLY_DATA_ADDR = 11"
definition NIOS2_EXCEPTION_TLB_MISS :: int where "NIOS2_EXCEPTION_TLB_MISS = 12"
definition NIOS2_EXCEPTION_TLB_READ_PERM_VIOLATION :: int where "NIOS2_EXCEPTION_TLB_READ_PERM_VIOLATION = 14"
definition NIOS2_EXCEPTION_TLB_WRITE_PERM_VIOLATION :: int where "NIOS2_EXCEPTION_TLB_WRITE_PERM_VIOLATION = 15"
definition NIOS2_EXCEPTION_MPU_DATA_REGION_VIOLATION :: int where "NIOS2_EXCEPTION_MPU_DATA_REGION_VIOLATION = 17"
definition NIOS2_EXCEPTION_ECC_TLB_ERR :: int where "NIOS2_EXCEPTION_ECC_TLB_ERR = 18"
definition NIOS2_EXCEPTION_ECC_DATA_ERR :: int where "NIOS2_EXCEPTION_ECC_DATA_ERR = 21"
definition NIOS2_EXCEPTION_RETURN_REISSUE_INST :: int where "NIOS2_EXCEPTION_RETURN_REISSUE_INST = 0"

lemmas exception_causes = NIOS2_EXCEPTION_MISALIGNED_DATA_ADDR_def NIOS2_EXCEPTION_MISALIGNED_TARGET_PC_def
  NIOS2_EXCEPTION_SUPERVISOR_ONLY_DATA_ADDR_def NIOS2_EXCEPTION_TLB_MISS_def
  NIOS2_EXCEPTION_TLB_READ_PERM_VIOLATION_def NIOS2_EXCEPTION_TLB_WRITE_PERM_VIOLATION_def
  NIOS2_EXCEPTION_MPU_DATA_REGION_VIOLATION_def NIOS2_EXCEPTION_ECC_TLB_ERR_def NIOS2_EXCEPTION_ECC_DATA_ERR_def

definition alt_exception_cause_generated_bad_addr :: "int \<Rightarrow> int" where
  "alt_exception_cause_generated_bad_addr cause =
     (if cause = NIOS2_EXCEPTION_SUPERVISOR_ONLY_DATA_ADDR \<or> cause = NIOS2_EXCEPTION_MISALIGNED_DATA_ADDR
        \<or> cause = NIOS2_EXCEPTION_MISALIGNED_TARGET_PC \<or> cause = NIOS2_EXCEPTION_TLB_READ_PERM_VIOLATION
        \<or> cause = NIOS2_EXCEPTION_TLB_WRITE_PERM_VIOLATION \<or> cause = NIOS2_EXCEPTION_MPU_DATA_REGION_VIOLATION
        \<or> cause = NIOS2_EXCEPTION_ECC_DATA_ERR then 1
      else if cause = NIOS2_EXCEPTION_TLB_MISS \<or> cause = NIOS2_EXCEPTION_ECC_TLB_ERR then 0
      else 0)"

text \<open>The processor has the exception and the bad address register, and a debug stub.\<close>

record exc = cpu +
  exception_reg :: alt_u32
  badaddr_reg :: addr
  alt_instruction_exception_handler :: addr

definition NIOS2_EXCEPTION_REG_CAUSE_MASK :: alt_u32 where "NIOS2_EXCEPTION_REG_CAUSE_MASK = 0x7c"
definition NIOS2_EXCEPTION_REG_CAUSE_OFST :: nat where "NIOS2_EXCEPTION_REG_CAUSE_OFST = 2"

definition alt_instruction_exception_register :: "addr \<Rightarrow> 'a exc_scheme \<Rightarrow> 'a exc_scheme" where
  "alt_instruction_exception_register exception_handler s =
     s\<lparr>alt_instruction_exception_handler := exception_handler\<rparr>"

text \<open>
  \<open>call f cause pc badaddr s\<close> is the effect of calling the handler at address \<open>f\<close>; \<open>brk\<close> that of
  the break instruction.
\<close>

definition alt_instruction_exception_entry ::
  "(addr \<Rightarrow> alt_u32 \<Rightarrow> addr \<Rightarrow> addr \<Rightarrow> 'a exc_scheme \<Rightarrow> int \<times> 'a exc_scheme) \<Rightarrow> ('a exc_scheme \<Rightarrow> 'a exc_scheme)
   \<Rightarrow> addr \<Rightarrow> 'a exc_scheme \<Rightarrow> int \<times> 'a exc_scheme" where
  "alt_instruction_exception_entry call brk exception_pc s =
     (let cause = exception_reg s;
          cause1 = drop_bit NIOS2_EXCEPTION_REG_CAUSE_OFST (cause AND NIOS2_EXCEPTION_REG_CAUSE_MASK);
          badaddr = badaddr_reg s
      in if alt_instruction_exception_handler s \<noteq> 0 then
           call (alt_instruction_exception_handler s) cause1 exception_pc badaddr s
         else (NIOS2_EXCEPTION_RETURN_REISSUE_INST, brk s))"

text \<open>The cause handed to the handler is the five-bit field of the register.\<close>

lemma exception_entry_calls_handler:
  assumes "f \<noteq> 0"
  shows "alt_instruction_exception_entry call brk pc (alt_instruction_exception_register f s)
    = call f (of_nat (unat (exception_reg s) div 4 mod 32)) pc (badaddr_reg s)
        (alt_instruction_exception_register f s)"
proof -
  have "drop_bit 2 (w AND 0x7c) = take_bit 5 (drop_bit 2 w)" for w :: alt_u32
    by (simp add: take_bit_eq_mask mask_eq_exp_minus_1)
  then have "unat (drop_bit 2 (exception_reg s AND 0x7c)) = take_bit 5 (unat (drop_bit 2 (exception_reg s)))"
    by (simp only: unsigned_take_bit_eq)
  moreover have "unat (drop_bit 2 (exception_reg s)) = unat (exception_reg s) div 4"
    unfolding unsigned_drop_bit_eq by (simp add: take_bit_nat_eq_self unat_32_bound drop_bit_eq_div)
  ultimately have "unat (drop_bit 2 (exception_reg s AND 0x7c)) = unat (exception_reg s) div 4 mod 32"
    by (simp only: take_bit_eq_mod) simp
  then have "drop_bit 2 (exception_reg s AND 0x7c) = of_nat (unat (exception_reg s) div 4 mod 32)"
    by (simp only: word_unat_eq_iff unat_of_nat) simp
  then show ?thesis
    using assms
    by (simp add: alt_instruction_exception_entry_def alt_instruction_exception_register_def Let_def
        NIOS2_EXCEPTION_REG_CAUSE_OFST_def NIOS2_EXCEPTION_REG_CAUSE_MASK_def del: drop_bit_and)
qed

text \<open>
  \<^verbatim>\<open>alt_ecc_fatal_exception_register()\<close>: the variable is at address \<open>v\<close>; the handler of the
  exception reads it past the cache, so it has to be in main memory.
\<close>

definition alt_ecc_fatal_exception_register ::
  "(addr \<Rightarrow> alt_u32 \<Rightarrow> 'h \<Rightarrow> 'h) \<Rightarrow> (addr \<Rightarrow> 'h \<Rightarrow> 'h) \<Rightarrow> addr \<Rightarrow> alt_u32 \<Rightarrow> 'h \<Rightarrow> 'h option" where
  "alt_ecc_fatal_exception_register stw flushda v handler h =
     (let h1 = stw v handler h in alt_dcache_flush flushda v 4 h1)"

lemma ecc_handler_in_memory:
  assumes "dcache flushda flushd initda view mem cached" "unat v + 36 \<le> 4294967296"
  shows "\<exists>h'. alt_ecc_fatal_exception_register stw flushda v handler h = Some h'
    \<and> (\<forall>k<4. mem h' (v + of_nat k) = view (stw v handler h) (v + of_nat k))"
proof -
  have "unat (v + of_nat k) = unat v + k" if "k < 4" for k
    using unat_plus_32 [of v k] assms(2) that by simp
  then show ?thesis
    using dcache.flush_writes_back [OF assms(1), of v 4 "stw v handler h"] assms(2)
    by (auto simp: alt_ecc_fatal_exception_register_def)
qed

section \<open>Signals\<close>

text \<open>The numbers of the C library's \<^verbatim>\<open>signal.h\<close>.\<close>

definition exit_signals :: "int list" where
  "exit_signals = [6, 14, 8, 4, 9, 13, 3, 11, 15, 30, 31, 10, 23, 27, 12, 5, 26, 24, 25]"
definition SIGCHLD :: int where "SIGCHLD = 20"
definition SIGURG :: int where "SIGURG = 16"

text \<open>A call returns a value, or ends the program with an exit code.\<close>

datatype 's outcome = Returns int 's | Exits int

definition ALT_KILL :: "int \<Rightarrow> int \<Rightarrow> 'a cpu_scheme \<Rightarrow> 'a cpu_scheme outcome" where
  "ALT_KILL pid sig s =
     (let finish = (\<lambda>st. if st \<noteq> 0 then Returns (- 1) (s\<lparr>alt_errno := st\<rparr>) else Returns 0 s) in
      if pid \<le> 0 then
        if sig = 0 then finish 0
        else if sig \<in> set exit_signals then Exits 0
        else if sig = SIGCHLD \<or> sig = SIGURG then finish 0
        else finish EINVAL
      else finish ESRCH)"

text \<open>
  \<^verbatim>\<open>_exit()\<close>: with no operating system to stop and no simulator it only spins, so the program ends
  with its argument.
\<close>

definition ALT_EXIT :: "int \<Rightarrow> 's outcome" where "ALT_EXIT exit_code = Exits exit_code"

definition ALT_GETPID :: int where "ALT_GETPID = 0"

text \<open>The status that is stored, the result and the state.\<close>

definition ALT_WAIT :: "'a cpu_scheme \<Rightarrow> int \<times> int \<times> 'a cpu_scheme" where
  "ALT_WAIT s = (0, - 1, s\<lparr>alt_errno := ECHILD\<rparr>)"

definition ALT_FORK :: "'a cpu_scheme \<Rightarrow> int \<times> 'a cpu_scheme" where
  "ALT_FORK s = (- 1, s\<lparr>alt_errno := ENOSYS\<rparr>)"
definition ALT_EXECVE :: "string \<Rightarrow> string list \<Rightarrow> string list \<Rightarrow> 'a cpu_scheme \<Rightarrow> int \<times> 'a cpu_scheme" where
  "ALT_EXECVE name argv env s = (- 1, s\<lparr>alt_errno := ENOSYS\<rparr>)"
definition ALT_LINK :: "string \<Rightarrow> string \<Rightarrow> 'a cpu_scheme \<Rightarrow> int \<times> 'a cpu_scheme" where
  "ALT_LINK existing new s = (- 1, s\<lparr>alt_errno := ENOSYS\<rparr>)"
definition ALT_UNLINK :: "string \<Rightarrow> 'a cpu_scheme \<Rightarrow> int \<times> 'a cpu_scheme" where
  "ALT_UNLINK name s = (- 1, s\<lparr>alt_errno := ENOSYS\<rparr>)"
definition ALT_RENAME :: "string \<Rightarrow> string \<Rightarrow> 'a cpu_scheme \<Rightarrow> int \<times> 'a cpu_scheme" where
  "ALT_RENAME existing new s = (- 1, s\<lparr>alt_errno := ENOSYS\<rparr>)"

text \<open>
  A signal to this process: what happens, for every pid and signal. The pid of this process is 0,
  and the program always gets the default action.
\<close>

lemma kill_outcome:
  "ALT_KILL ALT_GETPID sig s =
     (if sig \<in> set exit_signals then Exits 0
      else if sig = 0 \<or> sig = SIGCHLD \<or> sig = SIGURG then Returns 0 s
      else Returns (- 1) (s\<lparr>alt_errno := EINVAL\<rparr>))"
  "0 < pid \<Longrightarrow> ALT_KILL pid sig s = Returns (- 1) (s\<lparr>alt_errno := ESRCH\<rparr>)"
  by (auto simp: ALT_KILL_def ALT_GETPID_def exit_signals_def SIGCHLD_def SIGURG_def errno_defs)

end
