(* ===== verification/Heap.thy ===== *)
theory Heap
  imports Alarm
begin

text \<open>
  The heap break of \<^verbatim>\<open>alt_sbrk.c\<close>, in the configuration of this system (no fixed heap size, no
  stack checking). The properties say that what it grants is aligned, inside the heap and
  disjoint from everything granted before.
\<close>

section \<open>The code\<close>

text \<open>The global \<^verbatim>\<open>heap_end\<close>, after the globals of the clock.\<close>

record heap = sysclk +
  heap_end :: addr

text \<open>\<open>heap_limit\<close> is the symbol \<^verbatim>\<open>__alt_heap_limit\<close> of the linker; pointer arithmetic wraps around.\<close>

definition ALT_SBRK :: "addr \<Rightarrow> int \<Rightarrow> 'a heap_scheme \<Rightarrow> addr \<times> 'a heap_scheme" where
  "ALT_SBRK heap_limit incr s =
     (let (context, s1) = alt_irq_disable_all s;
          s2 = s1\<lparr>heap_end := (heap_end s1 + 3) AND NOT 3\<rparr>
      in if heap_end s2 + word_of_int incr > heap_limit then (- 1, alt_irq_enable_all context s2)
         else
           (let prev_heap_end = heap_end s2;
                s3 = s2\<lparr>heap_end := heap_end s2 + word_of_int incr\<rparr>
            in (prev_heap_end, alt_irq_enable_all context s3)))"

section \<open>What it grants\<close>

text \<open>The next multiple of 4.\<close>

definition align4 :: "nat \<Rightarrow> nat" where "align4 n = (n + 3) div 4 * 4"

lemma align4: "n \<le> align4 n" "align4 n mod 4 = 0" "4 dvd m \<Longrightarrow> n \<le> m \<Longrightarrow> align4 n \<le> m"
proof -
  show "n \<le> align4 n" "align4 n mod 4 = 0" by (simp_all add: align4_def)
  show "4 dvd m \<Longrightarrow> n \<le> m \<Longrightarrow> align4 n \<le> m" by (auto simp: align4_def elim!: dvdE)
qed

lemma clear_low_2: "w AND NOT 3 = push_bit 2 (drop_bit 2 w)" for w :: addr
proof -
  have "w AND NOT (mask 2) = push_bit 2 (drop_bit 2 w)"
    by (rule bit_word_eqI) (auto simp: bit_simps simp del: mask_numeral add_2_eq_Suc add_2_eq_Suc')
  then show ?thesis by (simp add: mask_eq_exp_minus_1)
qed

lemma unat_clear_low_2: "unat (w AND NOT 3) = unat w div 4 * 4" for w :: addr
proof -
  have "unat w div 4 * 4 < 4294967296" using unat_32_bound [of w] by linarith
  then show ?thesis
    unfolding clear_low_2 unsigned_push_bit_eq unsigned_drop_bit_eq
    by (simp add: take_bit_nat_eq_self unat_32_bound push_bit_eq_mult drop_bit_eq_div)
qed

lemma unat_align:
  fixes w :: addr
  assumes "unat w \<le> 2147483648"
  shows "unat ((w + 3) AND NOT 3) = align4 (unat w)"
proof -
  have "unat (w + 3) = unat w + 3" using add_wrap_32 [of 3 w] assms by simp
  then show ?thesis unfolding unat_clear_low_2 by (simp add: align4_def)
qed

text \<open>One call, for the addresses and sizes that can occur.\<close>

lemma ALT_SBRK_cases:
  assumes "unat (heap_end s) \<le> 2147483648" and "0 \<le> incr" "incr < 2147483648"
  defines "a \<equiv> align4 (unat (heap_end s))"
  shows "ALT_SBRK limit incr s =
    (if a + nat incr \<le> unat limit then (of_nat a, s\<lparr>heap_end := of_nat (a + nat incr)\<rparr>)
     else (- 1, s\<lparr>heap_end := of_nat a\<rparr>))"
proof -
  have a: "(heap_end s + 3) AND NOT 3 = of_nat a" "a \<le> 2147483648"
    using unat_align [OF assms(1)] align4(3) [of 2147483648 "unat (heap_end s)"] assms(1)
    by (simp_all add: a_def word_unat_eq_iff unat_of_nat)
  have i: "(word_of_int incr :: addr) = of_nat (nat incr)" using assms(2) by (metis int_nat_eq of_int_of_nat_eq)
  have "of_nat a + of_nat (nat incr) = (of_nat (a + nat incr) :: addr)" by simp
  moreover have "unat (of_nat (a + nat incr) :: addr) = a + nat incr"
    using a(2) assms(3) by (simp add: unat_of_nat del: of_nat_add)
  ultimately show ?thesis
    unfolding ALT_SBRK_def Let_def alt_irq_disable_all_def alt_irq_enable_all_def
    by (simp add: a(1) [simplified] i word_less_nat_alt not_less del: of_nat_add)
qed

text \<open>
  A sequence of calls for blocks of the sizes \<open>ns\<close>: the blocks granted, in order. The C library
  and the profiler both take their memory in this way.
\<close>

fun sbrk_all :: "addr \<Rightarrow> int list \<Rightarrow> 'a heap_scheme \<Rightarrow> (addr \<times> int) list \<times> 'a heap_scheme" where
  "sbrk_all limit [] s = ([], s)"
| "sbrk_all limit (n # ns) s =
     (let (p, s1) = ALT_SBRK limit n s; (gs, s2) = sbrk_all limit ns s1
      in (if p = - 1 then gs else (p, n) # gs, s2))"

definition block_in :: "nat \<Rightarrow> nat \<Rightarrow> addr \<times> int \<Rightarrow> bool" where
  "block_in lo hi = (\<lambda>(p, n). 4 dvd unat p \<and> lo \<le> unat p \<and> unat p + nat n \<le> hi)"

definition block_before :: "addr \<times> int \<Rightarrow> addr \<times> int \<Rightarrow> bool" where
  "block_before = (\<lambda>(p, n) (q, m). unat p + nat n \<le> unat q)"

lemma sbrk_all_grants:
  assumes "unat (heap_end s) \<le> 2147483648" "unat limit \<le> 2147483648" "\<forall>n\<in>set ns. 0 \<le> n \<and> n < 2147483648"
  shows "(\<forall>g\<in>set (fst (sbrk_all limit ns s)). block_in (unat (heap_end s)) (unat limit) g)
    \<and> sorted_wrt block_before (fst (sbrk_all limit ns s))
    \<and> status (snd (sbrk_all limit ns s)) = status s"
  using assms
proof (induction ns arbitrary: s)
  case (Cons n ns)
  define a where "a = align4 (unat (heap_end s))"
  have a: "unat (heap_end s) \<le> a" "4 dvd a" "a \<le> 2147483648"
    using align4 [of "unat (heap_end s)"] align4(3) [of 2147483648] Cons.prems(1) by (auto simp: a_def)
  have n: "0 \<le> n" "n < 2147483648" using Cons.prems(3) by auto
  note one = ALT_SBRK_cases [OF Cons.prems(1) n, of limit, folded a_def]
  have u: "unat (of_nat m :: addr) = m" if "m \<le> 2147483648" for m using that by (simp add: unat_of_nat)
  have neq: "(of_nat a :: addr) \<noteq> - 1"
    using a(3) u [OF a(3)] unat_max_32_iff [of "of_nat a"] by auto
  show ?case
  proof (cases "a + nat n \<le> unat limit")
    case True
    define s1 where "s1 = s\<lparr>heap_end := of_nat (a + nat n)\<rparr>"
    have e: "unat (heap_end s1) = a + nat n" using True Cons.prems(2) by (simp add: s1_def u del: of_nat_add)
    have IH: "(\<forall>g\<in>set (fst (sbrk_all limit ns s1)). block_in (a + nat n) (unat limit) g)
      \<and> sorted_wrt block_before (fst (sbrk_all limit ns s1))
      \<and> status (snd (sbrk_all limit ns s1)) = status s1"
      using Cons.IH [of s1] Cons.prems True unfolding e by simp
    have "sbrk_all limit (n # ns) s =
      ((of_nat a, n) # fst (sbrk_all limit ns s1), snd (sbrk_all limit ns s1))"
      using True neq by (simp add: one s1_def split: prod.splits)
    with IH a True show ?thesis
      by (fastforce simp: block_in_def block_before_def u s1_def)
  next
    case False
    define s1 where "s1 = s\<lparr>heap_end := of_nat a\<rparr>"
    have e: "unat (heap_end s1) = a" using a by (simp add: s1_def u)
    have IH: "(\<forall>g\<in>set (fst (sbrk_all limit ns s1)). block_in a (unat limit) g)
      \<and> sorted_wrt block_before (fst (sbrk_all limit ns s1))
      \<and> status (snd (sbrk_all limit ns s1)) = status s1"
      using Cons.IH [of s1] Cons.prems a unfolding e by simp
    have "sbrk_all limit (n # ns) s = sbrk_all limit ns s1"
      using False by (simp add: one s1_def split: prod.splits)
    with IH a show ?thesis by (fastforce simp: block_in_def s1_def)
  qed
qed simp

section \<open>Properties\<close>

text \<open>Property C31: in every sequence of requests for blocks of non-negative sizes, the blocks granted
  start at a multiple of four, lie between the first break and the limit of the heap, and follow
  one another without overlap, whatever requests were refused in between; the interrupt enable is
  as before.\<close>

theorem sbrk_blocks_disjoint:
  assumes "unat (heap_end s) \<le> 2147483648" and "unat limit \<le> 2147483648"
    and "\<forall>n\<in>set ns. 0 \<le> n \<and> n < 2147483648"
  shows "(\<forall>(p, n)\<in>set (fst (sbrk_all limit ns s)).
            4 dvd unat p \<and> unat (heap_end s) \<le> unat p \<and> unat p + nat n \<le> unat limit)
    \<and> sorted_wrt (\<lambda>(p, n) (q, m). unat p + nat n \<le> unat q) (fst (sbrk_all limit ns s))
    \<and> status (snd (sbrk_all limit ns s)) = status s"
  using sbrk_all_grants [OF assms] unfolding block_in_def block_before_def by (simp add: case_prod_unfold)

text \<open>A heap whose break is at 4097.\<close>

definition small_heap :: heap where
  "small_heap = sysclk.extend (sysclk.truncate idle_clock) (heap.fields 4097)"

theorem sbrk_blocks_disjoint_witness:
  "fst (sbrk_all 4200 [10, 100, 20] small_heap) = [(4100, 10), (4112, 20)]
   \<and> unat (4100 :: addr) + 10 \<le> unat (4112 :: addr)"
proof -
  have h: "heap_end small_heap = 4097" by (simp add: small_heap_def sysclk.defs heap.defs)
  have "\<forall>n\<in>set [10, 100, 20]. 0 \<le> n \<and> n < (2147483648 :: int)" by simp
  moreover have g: "fst (sbrk_all 4200 [10, 100, 20] small_heap) = [(4100, 10), (4112, 20)]"
    by (simp add: ALT_SBRK_def Let_def alt_irq_disable_all_def alt_irq_enable_all_def h)
  ultimately show ?thesis
    using sbrk_blocks_disjoint [of small_heap 4200 "[10, 100, 20]"] by (simp add: h)
qed

end
