(* ===== verification/Profile.thy ===== *)
theory Profile
  imports Heap
begin

text \<open>
  The profiler of \<^verbatim>\<open>alt_gmon.c\<close>: the call graph that \<^verbatim>\<open>mcount\<close> builds out of memory it never
  gives back, and the histogram of the program counter that an alarm fills at every tick. The
  fast path of \<^verbatim>\<open>mcount\<close> is assembler and not modelled. The properties say that recording a call
  adds exactly one arc to the call graph, and where the histogram is overrun.
\<close>

section \<open>Data\<close>

record mcount_fn_arc =
  arc_next :: addr
  arc_from_pc :: addr
  arc_count :: alt_u32

record mcount_fn_entry =
  fn_next :: addr
  fn_self_pc :: addr
  fn_arc_head :: addr

text \<open>
  The globals of \<^verbatim>\<open>alt_gmon.c\<close>. \<open>fn_slots\<close> are the pointer variables (the array
  \<^verbatim>\<open>__mcount_fn_head\<close>) by address, \<open>pcsamples\<close> is the buffer at \<open>s_pcsamples\<close>. The slab size is
  an \<^verbatim>\<open>int\<close> that is only compared with and reduced by unsigned numbers: its word is kept.
\<close>

record gmon = heap +
  pcsample_need_init :: int
  fn_slots :: "addr \<Rightarrow> addr"
  fn_entries :: "addr \<Rightarrow> mcount_fn_entry"
  fn_arcs :: "addr \<Rightarrow> mcount_fn_arc"
  s_pcsamples :: addr
  pcsamples :: "alt_u16 list"
  alt_gmon_data :: "alt_u32 list"
  mcount_slab_ptr :: addr
  mcount_slab_size :: alt_u32

text \<open>Addresses that the linker settles.\<close>

record symbols =
  heap_start :: addr
  heap_limit :: addr
  s_low_pc :: addr
  s_high_pc :: addr
  s_nios2_pcsample_alarm :: addr
  nios2_pcsample_fn :: addr

definition PCSAMPLE_BYTES_PER_BUCKET :: alt_u32 where "PCSAMPLE_BYTES_PER_BUCKET = 32"
definition MCOUNT_SLAB_INCREMENT :: int where "MCOUNT_SLAB_INCREMENT = 1020"
definition GMON_DATA_PROFILE_DATA :: nat where "GMON_DATA_PROFILE_DATA = 2"
definition GMON_DATA_PROFILE_RATE :: nat where "GMON_DATA_PROFILE_RATE = 6"

section \<open>The code\<close>

text \<open>Nothing checks whether \<^verbatim>\<open>sbrk\<close> failed.\<close>

definition mcount_allocate :: "symbols \<Rightarrow> alt_u32 \<Rightarrow> 'a gmon_scheme \<Rightarrow> addr \<times> 'a gmon_scheme" where
  "mcount_allocate sy sz s =
     (let s1 = (if sz > mcount_slab_size s then
                  (let (p, t) = ALT_SBRK (heap_limit sy) MCOUNT_SLAB_INCREMENT s
                   in t\<lparr>mcount_slab_ptr := p, mcount_slab_size := word_of_int MCOUNT_SLAB_INCREMENT\<rparr>)
                else s);
          data = mcount_slab_ptr s1
      in (data, s1\<lparr>mcount_slab_ptr := mcount_slab_ptr s1 + sz, mcount_slab_size := mcount_slab_size s1 - sz\<rparr>))"

text \<open>A structure of three words may be written inside the heap only.\<close>

definition on_heap :: "symbols \<Rightarrow> addr \<Rightarrow> 'a gmon_scheme \<Rightarrow> bool" where
  "on_heap sy p s \<longleftrightarrow> heap_start sy \<le> p \<and> unat p + 12 \<le> unat (heap_end s)"

definition nios2_pcsample_init :: "symbols \<Rightarrow> 'a gmon_scheme \<Rightarrow> (int \<times> 'a gmon_scheme) c_result" where
  "nios2_pcsample_init sy s =
     (let prof_rate = alt_ticks_per_second s in
      if prof_rate = 0 then Inr (1, s)
      else
        let pcsamples_size = (s_high_pc sy - s_low_pc sy) div PCSAMPLE_BYTES_PER_BUCKET;
            (p, s1) = ALT_SBRK (heap_limit sy) (sint (pcsamples_size * 2)) s;
            s2 = s1\<lparr>s_pcsamples := p\<rparr>
        in if s_pcsamples s2 \<noteq> 0 then
             if p = - 1 \<and> pcsamples_size \<noteq> 0 then Inl Out_Of_Bounds
             else
               let s3 = s2\<lparr>pcsamples := replicate (unat pcsamples_size) 0,
                           alt_gmon_data := (alt_gmon_data s2)
                             [GMON_DATA_PROFILE_DATA := s_pcsamples s2, GMON_DATA_PROFILE_RATE := prof_rate]\<rparr>;
                   (rc, s4) = alt_alarm_start (s_nios2_pcsample_alarm sy) 1 (nios2_pcsample_fn sy) 0 s3
               in Inr (0, s4)
           else Inr (0, s2))"

text \<open>The alarm's callback; \<open>pc\<close> is what it reads as the exception return address.\<close>

definition nios2_pcsample :: "symbols \<Rightarrow> addr \<Rightarrow> 'a gmon_scheme \<Rightarrow> (alt_u32 \<times> 'a gmon_scheme) c_result" where
  "nios2_pcsample sy pc s =
     (if pc \<ge> s_low_pc sy \<and> pc < s_high_pc sy \<and> s_pcsamples s \<noteq> 0 then
        (let bucket = unat ((pc - s_low_pc sy) div PCSAMPLE_BYTES_PER_BUCKET) in
         if bucket < length (pcsamples s) then
           Inr (1, s\<lparr>pcsamples := (pcsamples s)[bucket := pcsamples s ! bucket + 1]\<rparr>)
         else Inl Out_Of_Bounds)
      else Inr (1, s))"

definition mcount_new_entry :: "symbols \<Rightarrow> addr \<Rightarrow> addr \<Rightarrow> 'a gmon_scheme \<Rightarrow> (addr \<times> 'a gmon_scheme) c_result" where
  "mcount_new_entry sy self_pc fn_head s =
     (let (fn_entry, s1) = mcount_allocate sy 12 s in
      if on_heap sy fn_entry s1 then
        Inr (fn_entry,
             s1\<lparr>fn_entries := (fn_entries s1)
                  (fn_entry := \<lparr>fn_next = fn_slots s1 fn_head, fn_self_pc = self_pc, fn_arc_head = 0\<rparr>),
                fn_slots := (fn_slots s1)(fn_head := fn_entry)\<rparr>)
      else Inl Out_Of_Bounds)"

definition mcount_new_arc :: "symbols \<Rightarrow> addr \<Rightarrow> addr \<Rightarrow> 'a gmon_scheme \<Rightarrow> 'a gmon_scheme c_result" where
  "mcount_new_arc sy from_pc fn_entry s =
     (let (arc_entry, s1) = mcount_allocate sy 12 s;
          e = fn_entries s1 fn_entry
      in if on_heap sy arc_entry s1 then
           Inr (s1\<lparr>fn_arcs := (fn_arcs s1)
                     (arc_entry := \<lparr>arc_next = fn_arc_head e, arc_from_pc = from_pc, arc_count = 1\<rparr>),
                   fn_entries := (fn_entries s1)(fn_entry := e\<lparr>fn_arc_head := arc_entry\<rparr>)\<rparr>)
         else Inl Out_Of_Bounds)"

text \<open>\<^verbatim>\<open>__mcount_record()\<close>\<close>

definition mcount_record ::
  "symbols \<Rightarrow> addr \<Rightarrow> addr \<Rightarrow> addr \<Rightarrow> addr \<Rightarrow> 'a gmon_scheme \<Rightarrow> 'a gmon_scheme c_result" where
  "mcount_record sy self_pc from_pc fn_entry fn_head s =
     (case (if pcsample_need_init s \<noteq> 0 then
              map_sum id (\<lambda>(r, t). t\<lparr>pcsample_need_init := r\<rparr>)
                (nios2_pcsample_init sy (s\<lparr>pcsample_need_init := 0\<rparr>))
            else Inr s) of
        Inl f \<Rightarrow> Inl f
      | Inr s1 \<Rightarrow>
          (let (context, s2) = alt_irq_disable_all s1 in
           case (if fn_entry = 0 then mcount_new_entry sy self_pc fn_head s2 else Inr (fn_entry, s2)) of
             Inl f \<Rightarrow> Inl f
           | Inr (e, s3) \<Rightarrow>
               (case mcount_new_arc sy from_pc e s3 of
                  Inl f \<Rightarrow> Inl f
                | Inr s4 \<Rightarrow> Inr (alt_irq_enable_all context s4))))"

section \<open>The allocator\<close>

text \<open>
  The slab is a part of the heap below the break, which is below the limit; the bound keeps the
  addresses from wrapping around.
\<close>

definition slab_ok :: "symbols \<Rightarrow> 'a gmon_scheme \<Rightarrow> bool" where
  "slab_ok sy s \<longleftrightarrow> 0 < unat (heap_start sy) \<and> unat (heap_start sy) \<le> unat (heap_end s)
    \<and> unat (heap_limit sy) \<le> 2147483648 \<and> unat (heap_end s) \<le> 2147483648
    \<and> unat (mcount_slab_ptr s) + unat (mcount_slab_size s) \<le> unat (heap_end s)
    \<and> (mcount_slab_size s \<noteq> 0 \<longrightarrow> heap_start sy \<le> mcount_slab_ptr s)"

text \<open>There is room for a new slab; there is room for one more structure.\<close>

definition heap_room :: "symbols \<Rightarrow> 'a gmon_scheme \<Rightarrow> bool" where
  "heap_room sy s \<longleftrightarrow> align4 (unat (heap_end s)) + 1020 \<le> unat (heap_limit sy)"

definition node_room :: "symbols \<Rightarrow> 'a gmon_scheme \<Rightarrow> bool" where
  "node_room sy s \<longleftrightarrow> 12 \<le> mcount_slab_size s \<or> heap_room sy s"

text \<open>An address below the free part of the slab, so not one that will be handed out.\<close>

definition node :: "symbols \<Rightarrow> 'a gmon_scheme \<Rightarrow> addr \<Rightarrow> bool" where
  "node sy s a \<longleftrightarrow> a \<noteq> 0 \<and> unat a + 12 \<le> unat (mcount_slab_ptr s)"

definition same_graph :: "'a gmon_scheme \<Rightarrow> 'a gmon_scheme \<Rightarrow> bool" where
  "same_graph s t \<longleftrightarrow> fn_slots t = fn_slots s \<and> fn_entries t = fn_entries s \<and> fn_arcs t = fn_arcs s
    \<and> status t = status s"

lemma slab_size_12: "12 \<le> mcount_slab_size s \<longleftrightarrow> 12 \<le> unat (mcount_slab_size s)"
  by (simp add: word_le_nat_alt)

text \<open>An allocation hands out an address that no node has, and makes it one.\<close>

lemma mcount_allocate_fresh:
  assumes ok: "slab_ok sy s" and room: "node_room sy s"
  obtains p t where "mcount_allocate sy 12 s = (p, t)" "slab_ok sy t" "on_heap sy p t" "node sy t p"
    "\<not> node sy s p" "\<forall>a. node sy s a \<longrightarrow> node sy t a" "same_graph s t" "heap_room sy s \<Longrightarrow> node_room sy t"
proof (cases "12 \<le> mcount_slab_size s")
  case True
  define p where "p = mcount_slab_ptr s"
  define t where "t = s\<lparr>mcount_slab_ptr := p + 12, mcount_slab_size := mcount_slab_size s - 12\<rparr>"
  have n: "12 \<le> unat (mcount_slab_size s)" using True by (simp add: slab_size_12)
  have a: "unat (mcount_slab_size s - 12) = unat (mcount_slab_size s) - 12"
    using True by (simp add: unat_sub)
  have b: "unat (p + 12) = unat p + 12"
    using ok n add_wrap_32 [of 12 p] by (simp add: slab_ok_def p_def)
  have c: "heap_start sy \<le> p" "unat (heap_start sy) \<le> unat p"
    using ok n by (auto simp: slab_ok_def p_def word_le_nat_alt)
  show thesis
  proof (rule that [of p t])
    show "mcount_allocate sy 12 s = (p, t)"
      using True by (simp add: mcount_allocate_def t_def p_def leD)
    show "slab_ok sy t" using ok n c by (simp add: slab_ok_def t_def a b word_le_nat_alt) (simp add: p_def)
    show "on_heap sy p t" using ok n c by (simp add: on_heap_def t_def slab_ok_def p_def)
    show "node sy t p" using ok c b by (auto simp: node_def t_def slab_ok_def)
    show "\<not> node sy s p" by (simp add: node_def p_def)
    show "\<forall>a. node sy s a \<longrightarrow> node sy t a" using b by (auto simp: node_def t_def p_def)
    show "same_graph s t" by (simp add: same_graph_def t_def)
    show "heap_room sy s \<Longrightarrow> node_room sy t" by (simp add: node_room_def heap_room_def t_def)
  qed
next
  case False
  define m where "m = align4 (unat (heap_end s))"
  have m: "m + 1020 \<le> unat (heap_limit sy)" "unat (heap_end s) \<le> m"
    using room False align4(1) by (auto simp: node_room_def heap_room_def m_def)
  have lim: "unat (heap_limit sy) \<le> 2147483648" "unat (heap_end s) \<le> 2147483648"
    using ok by (simp_all add: slab_ok_def)
  define t where "t = s\<lparr>heap_end := of_nat (m + 1020), mcount_slab_ptr := of_nat m + 12, mcount_slab_size := 1008\<rparr>"
  have u: "unat (of_nat k :: addr) = k" if "k \<le> 2147483648" for k using that by (simp add: unat_of_nat)
  have b: "unat (of_nat m :: addr) = m" "unat (of_nat (m + 1020) :: addr) = m + 1020"
    "unat (of_nat m + 12 :: addr) = m + 12"
    using u [of m] u [of "m + 1020"] u [of "m + 12"] m lim by simp_all
  have e: "ALT_SBRK (heap_limit sy) 1020 s = (of_nat m, s\<lparr>heap_end := of_nat (m + 1020)\<rparr>)"
    using ALT_SBRK_cases [OF lim(2), of 1020 "heap_limit sy"] m(1) by (simp add: m_def)
  show thesis
  proof (rule that [of "of_nat m" t])
    show "mcount_allocate sy 12 s = (of_nat m, t)"
      using False by (simp add: mcount_allocate_def MCOUNT_SLAB_INCREMENT_def e t_def not_le)
    show "slab_ok sy t" using ok m lim b
      by (simp add: slab_ok_def t_def word_le_nat_alt del: of_nat_add)
    show "on_heap sy (of_nat m) t" using ok m b
      by (simp add: on_heap_def t_def slab_ok_def word_le_nat_alt del: of_nat_add)
    show "node sy t (of_nat m)" using ok m b by (auto simp: node_def t_def slab_ok_def simp flip: unat_eq_0)
    show "\<not> node sy s (of_nat m)" using ok m b by (auto simp: node_def slab_ok_def)
    show "\<forall>a. node sy s a \<longrightarrow> node sy t a" using ok m b by (auto simp: node_def t_def slab_ok_def)
    show "same_graph s t" by (simp add: same_graph_def t_def)
    show "heap_room sy s \<Longrightarrow> node_room sy t" by (simp add: node_room_def t_def)
  qed
qed

section \<open>The call graph\<close>

text \<open>The arcs of a function and the functions of a slot, by following the pointers.\<close>

fun arc_chain :: "'a gmon_scheme \<Rightarrow> addr \<Rightarrow> addr list \<Rightarrow> bool" where
  "arc_chain s p [] \<longleftrightarrow> p = 0"
| "arc_chain s p (a # as) \<longleftrightarrow> p = a \<and> arc_chain s (arc_next (fn_arcs s a)) as"

fun fn_chain :: "'a gmon_scheme \<Rightarrow> addr \<Rightarrow> (addr \<times> addr list) list \<Rightarrow> bool" where
  "fn_chain s p [] \<longleftrightarrow> p = 0"
| "fn_chain s p ((e, as) # fs) \<longleftrightarrow> p = e \<and> arc_chain s (fn_arc_head (fn_entries s e)) as
     \<and> fn_chain s (fn_next (fn_entries s e)) fs"

text \<open>What is recorded there: for each function its address, and its callers with their counts.\<close>

definition arc_of :: "'a gmon_scheme \<Rightarrow> addr \<Rightarrow> addr \<times> alt_u32" where
  "arc_of s a = (arc_from_pc (fn_arcs s a), arc_count (fn_arcs s a))"

definition graph_of :: "'a gmon_scheme \<Rightarrow> (addr \<times> addr list) list \<Rightarrow> (addr \<times> (addr \<times> alt_u32) list) list" where
  "graph_of s fs = map (\<lambda>(e, as). (fn_self_pc (fn_entries s e), map (arc_of s) as)) fs"

text \<open>Recording a call, on the graph: a new function, or a new arc of the \<open>i\<close>-th one.\<close>

fun add_arc :: "addr \<Rightarrow> addr \<Rightarrow> nat option \<Rightarrow> (addr \<times> (addr \<times> alt_u32) list) list
    \<Rightarrow> (addr \<times> (addr \<times> alt_u32) list) list" where
  "add_arc self_pc from_pc None g = (self_pc, [(from_pc, 1)]) # g"
| "add_arc self_pc from_pc (Some i) g = g[i := (fst (g ! i), (from_pc, 1) # snd (g ! i))]"

definition nodes_of :: "(addr \<times> addr list) list \<Rightarrow> addr set" where
  "nodes_of fs = (\<Union>(e, as)\<in>set fs. insert e (set as))"

text \<open>
  The invariant: every slot holds a list of functions with their lists of arcs, all of them nodes,
  and no function is in two places.
\<close>

definition graph_ok :: "symbols \<Rightarrow> addr set \<Rightarrow> (addr \<Rightarrow> (addr \<times> addr list) list) \<Rightarrow> 'a gmon_scheme \<Rightarrow> bool" where
  "graph_ok sy slots F s \<longleftrightarrow> slab_ok sy s
    \<and> (\<forall>q\<in>slots. fn_chain s (fn_slots s q) (F q) \<and> distinct (map fst (F q)) \<and> (\<forall>a\<in>nodes_of (F q). node sy s a))
    \<and> (\<forall>q\<in>slots. \<forall>r\<in>slots. q \<noteq> r \<longrightarrow> fst ` set (F q) \<inter> fst ` set (F r) = {})"

lemma arc_chain_cong: "\<forall>a\<in>set as. fn_arcs t a = fn_arcs s a \<Longrightarrow> arc_chain t p as \<longleftrightarrow> arc_chain s p as"
  by (induction as arbitrary: p) auto

lemma fn_chain_cong:
  assumes "\<forall>e\<in>fst ` set fs. fn_entries t e = fn_entries s e" "\<forall>a\<in>nodes_of fs. fn_arcs t a = fn_arcs s a"
  shows "fn_chain t p fs \<longleftrightarrow> fn_chain s p fs" and "graph_of t fs = graph_of s fs"
proof -
  have "(fn_chain t p fs \<longleftrightarrow> fn_chain s p fs) \<and> graph_of t fs = graph_of s fs" for p
    using assms
  proof (induction fs arbitrary: p)
    case (Cons f fs)
    obtain e as where f: "f = (e, as)" by (cases f)
    have "\<forall>a\<in>set as. fn_arcs t a = fn_arcs s a" using Cons.prems(2) f by (auto simp: nodes_of_def)
    then have "arc_chain t q as \<longleftrightarrow> arc_chain s q as" "map (arc_of t) as = map (arc_of s) as" for q
      by (simp_all add: arc_chain_cong arc_of_def)
    moreover have "\<forall>a\<in>nodes_of fs. fn_arcs t a = fn_arcs s a" using Cons.prems(2) by (auto simp: nodes_of_def)
    ultimately show ?case using Cons f by (simp add: graph_of_def)
  qed (simp_all add: graph_of_def)
  then show "fn_chain t p fs \<longleftrightarrow> fn_chain s p fs" "graph_of t fs = graph_of s fs" by simp_all
qed

lemma arc_heads_nodes: "fn_chain s p fs \<Longrightarrow> (e, as) \<in> set fs \<Longrightarrow> arc_chain s (fn_arc_head (fn_entries s e)) as"
  by (induction fs arbitrary: p) auto

text \<open>A new arc in front of the arcs of the \<open>i\<close>-th function.\<close>

lemma new_arc_chain:
  fixes s :: "'a gmon_scheme" and from_pc :: addr
  assumes "fn_chain s p fs" "distinct (map fst fs)" "i < length fs" "a \<notin> nodes_of fs" "fs ! i = (e, as)"
  defines "t \<equiv> s\<lparr>fn_arcs := (fn_arcs s)(a := \<lparr>arc_next = fn_arc_head (fn_entries s e), arc_from_pc = from_pc, arc_count = 1\<rparr>),
                fn_entries := (fn_entries s)(e := fn_entries s e\<lparr>fn_arc_head := a\<rparr>)\<rparr>"
  shows "fn_chain t p (fs[i := (e, a # as)])"
    and "graph_of t (fs[i := (e, a # as)]) = add_arc self_pc from_pc (Some i) (graph_of s fs)"
proof -
  have "fn_chain t p (fs[i := (e, a # as)])
    \<and> graph_of t (fs[i := (e, a # as)]) = add_arc self_pc from_pc (Some i) (graph_of s fs)"
    using assms(1-5)
  proof (induction fs arbitrary: i p)
    case (Cons f fs)
    obtain e' as' where f: "f = (e', as')" by (cases f)
    have fresh: "a \<notin> nodes_of fs" "a \<notin> set as'" using Cons.prems(4) f by (auto simp: nodes_of_def)
    have arcs: "arc_chain t q xs \<longleftrightarrow> arc_chain s q xs" "map (arc_of t) xs = map (arc_of s) xs"
      if "a \<notin> set xs" for q xs
      using that by (auto intro!: arc_chain_cong map_cong simp: t_def arc_of_def)
    show ?case
    proof (cases i)
      case 0
      with Cons.prems f have e: "e' = e" "as' = as" by simp_all
      have "\<forall>d\<in>fst ` set fs. fn_entries t d = fn_entries s d" using Cons.prems(2) f e by (force simp: t_def)
      moreover have "\<forall>d\<in>nodes_of fs. fn_arcs t d = fn_arcs s d" using fresh by (auto simp: t_def)
      ultimately have "fn_chain t q fs \<longleftrightarrow> fn_chain s q fs" "graph_of t fs = graph_of s fs" for q
        by (rule fn_chain_cong)+
      then show ?thesis
        using 0 Cons.prems f e arcs [OF fresh(2)] by (simp add: graph_of_def) (simp add: t_def arc_of_def)
    next
      case (Suc j)
      have "e \<in> fst ` set fs" using Cons.prems(3,5) Suc by (metis fst_conv imageI length_Cons less_Suc_eq_0_disj
            nat.inject nth_Cons_Suc nth_mem Suc_less_eq)
      then have "e' \<noteq> e" using Cons.prems(2) f by auto
      then have "fn_entries t e' = fn_entries s e'" by (simp add: t_def)
      then show ?thesis
        using Cons.IH [of "fn_next (fn_entries s e')" j] Cons.prems Suc f fresh arcs [OF fresh(2)]
        by (simp add: graph_of_def)
    qed
  qed simp
  then show "fn_chain t p (fs[i := (e, a # as)])"
    "graph_of t (fs[i := (e, a # as)]) = add_arc self_pc from_pc (Some i) (graph_of s fs)" by simp_all
qed

lemma nodes_of_simps [simp]:
  "nodes_of [] = {}" "nodes_of ((e, as) # fs) = insert e (set as) \<union> nodes_of fs"
  by (auto simp: nodes_of_def)

lemma nodes_of_update: "i < length fs \<Longrightarrow> fs ! i = (e, as) \<Longrightarrow> nodes_of (fs[i := (e, a # as)]) = insert a (nodes_of fs)"
proof (induction fs arbitrary: i)
  case (Cons f fs)
  then show ?case by (cases i; cases f) auto
qed simp

lemma entries_in_nodes: "fst ` set fs \<subseteq> nodes_of fs"
  by (auto simp: nodes_of_def)

lemma entries_update: "i < length fs \<Longrightarrow> fs ! i = (e, as) \<Longrightarrow> map fst (fs[i := (e, as')]) = map fst fs"
  by (metis fst_conv list_update_id map_update nth_map)

lemma same_graph_chain:
  assumes "same_graph s t"
  shows "fn_chain t p fs \<longleftrightarrow> fn_chain s p fs" and "graph_of t fs = graph_of s fs"
  using assms fn_chain_cong [of fs t s] by (simp_all add: same_graph_def)

lemma graph_okD:
  assumes "graph_ok sy slots F s" "q \<in> slots"
  shows "fn_chain s (fn_slots s q) (F q)" "distinct (map fst (F q))" "\<forall>a\<in>nodes_of (F q). node sy s a"
    "slab_ok sy s" "r \<in> slots \<Longrightarrow> r \<noteq> q \<Longrightarrow> fst ` set (F q) \<inter> fst ` set (F r) = {}"
  using assms by (auto simp: graph_ok_def)

text \<open>The allocation alone changes nothing of the graph.\<close>

lemma graph_ok_alloc:
  assumes "graph_ok sy slots F s" "same_graph s t" "slab_ok sy t" "\<forall>a. node sy s a \<longrightarrow> node sy t a"
  shows "graph_ok sy slots F t"
  using assms same_graph_chain(1) [OF assms(2)] by (auto simp: graph_ok_def same_graph_def)

lemma node_cong:
  "mcount_slab_ptr t = mcount_slab_ptr s \<Longrightarrow> node sy t a \<longleftrightarrow> node sy s a"
  "heap_end t = heap_end s \<Longrightarrow> mcount_slab_ptr t = mcount_slab_ptr s \<Longrightarrow> mcount_slab_size t = mcount_slab_size s
   \<Longrightarrow> slab_ok sy t \<longleftrightarrow> slab_ok sy s"
  by (simp_all add: node_def slab_ok_def)

lemma new_entry:
  assumes ok: "graph_ok sy slots F s" and room: "node_room sy s" and q: "q \<in> slots"
  obtains e t where "mcount_new_entry sy self_pc q s = Inr (e, t)" "e \<noteq> 0"
    "graph_ok sy slots (F(q := (e, []) # F q)) t" "status t = status s" "heap_room sy s \<Longrightarrow> node_room sy t"
    "graph_of t ((e, []) # F q) = (self_pc, []) # graph_of s (F q)"
    "\<forall>r\<in>slots. r \<noteq> q \<longrightarrow> graph_of t (F r) = graph_of s (F r)"
proof -
  obtain e u where a: "mcount_allocate sy 12 s = (e, u)" "slab_ok sy u" "on_heap sy e u" "node sy u e"
    "\<not> node sy s e" "\<forall>a. node sy s a \<longrightarrow> node sy u a" "same_graph s u" "heap_room sy s \<Longrightarrow> node_room sy u"
    using mcount_allocate_fresh [OF graph_okD(4) [OF ok q] room] by metis
  define t where "t = u\<lparr>fn_entries := (fn_entries u)(e := \<lparr>fn_next = fn_slots u q, fn_self_pc = self_pc, fn_arc_head = 0\<rparr>),
                fn_slots := (fn_slots u)(q := e)\<rparr>"
  have u: "graph_ok sy slots F u" by (rule graph_ok_alloc [OF ok a(7,2,6)])
  have new: "e \<notin> nodes_of (F r)" if "r \<in> slots" for r
    using graph_okD(3) [OF ok that] a(5) by auto
  have keep: "fn_chain t p (F r) \<longleftrightarrow> fn_chain u p (F r)" "graph_of t (F r) = graph_of u (F r)"
    if "r \<in> slots" for r p
    using fn_chain_cong [of "F r" t u] new [OF that] entries_in_nodes by (fastforce simp: t_def)+
  have head: "fn_chain t e ((e, []) # F q)" "graph_of t ((e, []) # F q) = (self_pc, []) # graph_of u (F q)"
    using keep [OF q] graph_okD(1) [OF u q] by (simp_all add: t_def graph_of_def)
  have "e \<notin> fst ` set (F r)" if "r \<in> slots" for r using new [OF that] entries_in_nodes by blast
  then have "graph_ok sy slots (F(q := (e, []) # F q)) t"
    using u head keep a(4) q by (auto simp: graph_ok_def t_def node_def slab_ok_def)
  moreover have "mcount_new_entry sy self_pc q s = Inr (e, t)"
    by (simp add: mcount_new_entry_def a(1,3) t_def)
  moreover have "e \<noteq> 0" using a(4) by (simp add: node_def)
  moreover have "status t = status s" using a(7) by (simp add: t_def same_graph_def)
  moreover have "heap_room sy s \<Longrightarrow> node_room sy t"
    using a(8) by (simp add: t_def node_room_def heap_room_def)
  ultimately show thesis
    using that [of e t] head(2) keep(2) same_graph_chain(2) [OF a(7)] by simp
qed

lemma new_arc:
  assumes ok: "graph_ok sy slots F s" and room: "node_room sy s" and q: "q \<in> slots"
    and i: "i < length (F q)" "F q ! i = (e, as)"
  obtains a t where "mcount_new_arc sy from_pc e s = Inr t" "graph_ok sy slots (F(q := (F q)[i := (e, a # as)])) t"
    "status t = status s" "graph_of t ((F q)[i := (e, a # as)]) = add_arc self_pc from_pc (Some i) (graph_of s (F q))"
    "\<forall>r\<in>slots. r \<noteq> q \<longrightarrow> graph_of t (F r) = graph_of s (F r)"
proof -
  obtain a u where a: "mcount_allocate sy 12 s = (a, u)" "slab_ok sy u" "on_heap sy a u" "node sy u a"
    "\<not> node sy s a" "\<forall>a. node sy s a \<longrightarrow> node sy u a" "same_graph s u"
    using mcount_allocate_fresh [OF graph_okD(4) [OF ok q] room] by metis
  define t where "t = u\<lparr>fn_arcs := (fn_arcs u)(a := \<lparr>arc_next = fn_arc_head (fn_entries u e), arc_from_pc = from_pc, arc_count = 1\<rparr>),
                fn_entries := (fn_entries u)(e := fn_entries u e\<lparr>fn_arc_head := a\<rparr>)\<rparr>"
  have u: "graph_ok sy slots F u" by (rule graph_ok_alloc [OF ok a(7,2,6)])
  have new: "a \<notin> nodes_of (F r)" if "r \<in> slots" for r
    using graph_okD(3) [OF ok that] a(5) by auto
  have e: "e \<in> fst ` set (F q)" using i by (metis fst_conv imageI nth_mem)
  have keep: "fn_chain t p (F r) \<longleftrightarrow> fn_chain u p (F r)" "graph_of t (F r) = graph_of u (F r)"
    if "r \<in> slots" "r \<noteq> q" for r p
  proof -
    have "e \<notin> fst ` set (F r)" using graph_okD(5) [OF u q that] e by blast
    then have "\<forall>d\<in>fst ` set (F r). fn_entries t d = fn_entries u d" by (auto simp: t_def)
    moreover have "\<forall>d\<in>nodes_of (F r). fn_arcs t d = fn_arcs u d" using new [OF that(1)] by (auto simp: t_def)
    ultimately show "fn_chain t p (F r) \<longleftrightarrow> fn_chain u p (F r)" "graph_of t (F r) = graph_of u (F r)"
      by (rule fn_chain_cong)+
  qed
  note own = new_arc_chain [OF graph_okD(1,2) [OF u q] i(1) new [OF q] i(2), of from_pc, folded t_def]
  have "graph_ok sy slots (F(q := (F q)[i := (e, a # as)])) t"
  proof -
    have "fst ` set ((F q)[i := (e, a # as)]) = fst ` set (F q)"
      using entries_update [OF i, of "a # as"] by (metis image_set)
    then show ?thesis
      using u own(1) keep(1) a(4) q nodes_of_update [OF i, of a] entries_update [OF i, of "a # as"]
      by (auto simp: graph_ok_def t_def node_def slab_ok_def)
  qed
  moreover have "mcount_new_arc sy from_pc e s = Inr t"
    by (simp add: mcount_new_arc_def a(1,3) t_def Let_def)
  moreover have "status t = status s" using a(7) by (simp add: t_def same_graph_def)
  ultimately show thesis
    using that [of t a] own(2) keep(2) same_graph_chain(2) [OF a(7)] by simp
qed

text \<open>Before the timer runs, and once the sampler has been started, the call records only.\<close>

definition sampler_idle :: "'a gmon_scheme \<Rightarrow> bool" where
  "sampler_idle s \<longleftrightarrow> pcsample_need_init s = 0 \<or> pcsample_need_init s = 1 \<and> tick_rate s = 0"

lemma record_idle:
  assumes "sampler_idle s"
  shows "mcount_record sy self_pc from_pc fn_entry q s =
    (let s2 = s\<lparr>status := status s AND NOT NIOS2_STATUS_PIE_MSK\<rparr> in
     case (if fn_entry = 0 then mcount_new_entry sy self_pc q s2 else Inr (fn_entry, s2)) of
       Inl f \<Rightarrow> Inl f
     | Inr (e, s3) \<Rightarrow> map_sum id (\<lambda>t. t\<lparr>status := status s\<rparr>) (mcount_new_arc sy from_pc e s3))"
proof -
  have "(if pcsample_need_init s \<noteq> 0 then
              map_sum id (\<lambda>(r, t). t\<lparr>pcsample_need_init := r\<rparr>)
                (nios2_pcsample_init sy (s\<lparr>pcsample_need_init := 0\<rparr>))
            else Inr s) = Inr s"
    using assms by (auto simp: sampler_idle_def nios2_pcsample_init_def alt_ticks_per_second_def)
  then show ?thesis
    unfolding mcount_record_def
    by (auto simp: Let_def alt_irq_disable_all_def alt_irq_enable_all_def split: sum.splits)
qed

lemma status_graph:
  "same_graph (s\<lparr>status := x\<rparr>) (s\<lparr>status := y\<rparr>) \<longleftrightarrow> x = y"
  "graph_of (s\<lparr>status := x\<rparr>) fs = graph_of s fs" "fn_chain (s\<lparr>status := x\<rparr>) p fs \<longleftrightarrow> fn_chain s p fs"
  "slab_ok sy (s\<lparr>status := x\<rparr>) \<longleftrightarrow> slab_ok sy s" "node sy (s\<lparr>status := x\<rparr>) a \<longleftrightarrow> node sy s a"
  "heap_room sy (s\<lparr>status := x\<rparr>) \<longleftrightarrow> heap_room sy s" "node_room sy (s\<lparr>status := x\<rparr>) \<longleftrightarrow> node_room sy s"
  using fn_chain_cong [where fs = fs and t = "s\<lparr>status := x\<rparr>" and s = s]
  by (auto simp: same_graph_def slab_ok_def node_def heap_room_def node_room_def)

lemma status_graph_ok: "graph_ok sy slots F (s\<lparr>status := x\<rparr>) \<longleftrightarrow> graph_ok sy slots F s"
  by (simp add: graph_ok_def status_graph)

text \<open>The function that a call is recorded for: none yet, or the \<open>i\<close>-th of its slot.\<close>

definition entry_at :: "(addr \<times> addr list) list \<Rightarrow> nat option \<Rightarrow> addr" where
  "entry_at fs k = (case k of None \<Rightarrow> 0 | Some i \<Rightarrow> fst (fs ! i))"

lemma record_adds_arc:
  assumes ok: "graph_ok sy slots F s" and room: "heap_room sy s" and q: "q \<in> slots" and idle: "sampler_idle s"
    and k: "case k of None \<Rightarrow> True | Some i \<Rightarrow> i < length (F q)"
  shows "\<exists>t G. mcount_record sy self_pc from_pc (entry_at (F q) k) q s = Inr t \<and> graph_ok sy slots G t
    \<and> status t = status s \<and> graph_of t (G q) = add_arc self_pc from_pc k (graph_of s (F q))
    \<and> (\<forall>r\<in>slots. r \<noteq> q \<longrightarrow> graph_of t (G r) = graph_of s (F r))"
proof -
  define s2 where "s2 = s\<lparr>status := status s AND NOT NIOS2_STATUS_PIE_MSK\<rparr>"
  have s2: "graph_ok sy slots F s2" "heap_room sy s2" "node_room sy s2" "graph_of s2 fs = graph_of s fs" for fs
    using ok room by (simp_all add: s2_def status_graph_ok status_graph node_room_def)
  show ?thesis
  proof (cases k)
    case None
    obtain e u where u: "mcount_new_entry sy self_pc q s2 = Inr (e, u)" "graph_ok sy slots (F(q := (e, []) # F q)) u"
      "heap_room sy s2 \<Longrightarrow> node_room sy u" "graph_of u ((e, []) # F q) = (self_pc, []) # graph_of s2 (F q)"
      "\<forall>r\<in>slots. r \<noteq> q \<longrightarrow> graph_of u (F r) = graph_of s2 (F r)"
      using new_entry [OF s2(1,3) q, of self_pc] by metis
    let ?F = "F(q := (e, []) # F q)"
    have "0 < length (?F q)" "?F q ! 0 = (e, [])" by simp_all
    note arc = new_arc [OF u(2) u(3) [OF s2(2)] q this, of from_pc self_pc]
    obtain a t where t: "mcount_new_arc sy from_pc e u = Inr t" "graph_ok sy slots (?F(q := (?F q)[0 := (e, [a])])) t"
      "graph_of t ((?F q)[0 := (e, [a])]) = add_arc self_pc from_pc (Some 0) (graph_of u (?F q))"
      "\<forall>r\<in>slots. r \<noteq> q \<longrightarrow> graph_of t (?F r) = graph_of u (?F r)"
      using arc by metis
    show ?thesis
      using t u s2
      by (intro exI [of _ "t\<lparr>status := status s\<rparr>"] exI [of _ "F(q := (e, [a]) # F q)"])
        (simp add: None entry_at_def record_idle [OF idle] s2_def [symmetric] Let_def status_graph_ok status_graph)
  next
    case (Some i)
    obtain e as where e: "F q ! i = (e, as)" by (cases "F q ! i")
    have i: "i < length (F q)" using k Some by simp
    have "e \<in> nodes_of (F q)" using i e entries_in_nodes [of "F q"] by (metis fst_conv image_subset_iff nth_mem)
    then have "e \<noteq> 0" using graph_okD(3) [OF ok q] by (auto simp: node_def)
    obtain a t where t: "mcount_new_arc sy from_pc e s2 = Inr t" "graph_ok sy slots (F(q := (F q)[i := (e, a # as)])) t"
      "graph_of t ((F q)[i := (e, a # as)]) = add_arc self_pc from_pc (Some i) (graph_of s2 (F q))"
      "\<forall>r\<in>slots. r \<noteq> q \<longrightarrow> graph_of t (F r) = graph_of s2 (F r)"
      using new_arc [OF s2(1,3) q i e, of from_pc self_pc] by metis
    show ?thesis
      using t s2 \<open>e \<noteq> 0\<close> e
      by (intro exI [of _ "t\<lparr>status := status s\<rparr>"] exI [of _ "F(q := (F q)[i := (e, a # as)])"])
        (simp add: Some entry_at_def record_idle [OF idle] s2_def [symmetric] Let_def status_graph_ok status_graph)
  qed
qed

section \<open>The histogram\<close>

lemma alarm_start_keeps:
  fixes s :: "'a gmon_scheme"
  shows "pcsamples (snd (alt_alarm_start x n cb ctx s)) = pcsamples s"
    "s_pcsamples (snd (alt_alarm_start x n cb ctx s)) = s_pcsamples s"
  by (simp_all add: alt_alarm_start_def Let_def alt_irq_disable_all_def alt_irq_enable_all_def)

lemma pcsample_init_length:
  assumes "nios2_pcsample_init sy s = Inr (0, t)" "s_pcsamples t \<noteq> 0"
  shows "length (pcsamples t) = unat ((s_high_pc sy - s_low_pc sy) div PCSAMPLE_BYTES_PER_BUCKET)"
  using assms
  by (auto simp: nios2_pcsample_init_def Let_def alarm_start_keeps split: if_splits prod.splits
      dest!: arg_cong [where f = pcsamples and y = t] arg_cong [where f = s_pcsamples and y = t]
      arg_cong [where f = snd and x = "alt_alarm_start _ _ _ _ _"])

lemma pcsample_init_succeeds:
  assumes "tick_rate s \<noteq> 0"
    and "ALT_SBRK (heap_limit sy) (sint ((s_high_pc sy - s_low_pc sy) div PCSAMPLE_BYTES_PER_BUCKET * 2)) s = (p, s1)"
    and "p \<noteq> 0" "p \<noteq> - 1"
  shows "\<exists>t. nios2_pcsample_init sy s = Inr (0, t) \<and> s_pcsamples t = p"
  using assms
  by (simp add: nios2_pcsample_init_def Let_def alt_ticks_per_second_def case_prod_unfold alarm_start_keeps)

lemma unat_bucket:
  assumes "low \<le> pc"
  shows "unat ((pc - low) div PCSAMPLE_BYTES_PER_BUCKET) = (unat pc - unat low) div 32"
  using assms by (simp add: PCSAMPLE_BYTES_PER_BUCKET_def unat_div unat_sub)

text \<open>A profiler that has recorded nothing, on the heap of 4097, for a text section of 40 bytes.\<close>

definition fresh_profiler :: gmon where
  "fresh_profiler = heap.extend small_heap
     (gmon.fields 0 (\<lambda>_. 0) (\<lambda>_. \<lparr>fn_next = 0, fn_self_pc = 0, fn_arc_head = 0\<rparr>)
       (\<lambda>_. \<lparr>arc_next = 0, arc_from_pc = 0, arc_count = 0\<rparr>) 0 [] (replicate 9 0) 0 0)"

definition small_symbols :: symbols where
  "small_symbols = \<lparr>heap_start = 4096, heap_limit = 8192, s_low_pc = 256, s_high_pc = 296,
     s_nios2_pcsample_alarm = 512, nios2_pcsample_fn = 260\<rparr>"

lemma fresh_profiler_simps [simp]:
  "heap_end fresh_profiler = 4097" "mcount_slab_ptr fresh_profiler = 0" "mcount_slab_size fresh_profiler = 0"
  "fn_slots fresh_profiler q = 0" "pcsample_need_init fresh_profiler = 0" "tick_rate fresh_profiler = 1000"
  by (simp_all add: fresh_profiler_def small_heap_def idle_clock_def sysclk.defs heap.defs gmon.defs)

section \<open>Properties\<close>

text \<open>Property C32: recording a call, with room for a slab left on the heap, adds exactly one arc to
  the call graph: for a function seen for the first time it puts a new function with that arc in
  front of its slot, for a function already there it puts the arc in front of its arcs. All other
  functions, in this slot and in the others, keep their arcs, the memory handed out is never one
  in use, and the interrupt enable is as before.\<close>

theorem mcount_record_adds_one_arc:
  assumes "graph_ok sy slots F s" and "heap_room sy s" and "q \<in> slots" and "sampler_idle s"
    and "case k of None \<Rightarrow> True | Some i \<Rightarrow> i < length (F q)"
  shows "\<exists>t G. mcount_record sy self_pc from_pc (entry_at (F q) k) q s = Inr t \<and> graph_ok sy slots G t
    \<and> status t = status s \<and> graph_of t (G q) = add_arc self_pc from_pc k (graph_of s (F q))
    \<and> (\<forall>r\<in>slots. r \<noteq> q \<longrightarrow> graph_of t (G r) = graph_of s (F r))"
  by (rule record_adds_arc [OF assms])

theorem mcount_record_adds_one_arc_witness:
  "\<exists>t fs. mcount_record small_symbols 264 280 0 64 fresh_profiler = Inr t
     \<and> fn_chain t (fn_slots t 64) fs \<and> graph_of t fs = [(264, [(280, 1)])]"
proof -
  have "graph_ok small_symbols {64} (\<lambda>_. []) fresh_profiler"
    by (simp add: graph_ok_def slab_ok_def small_symbols_def)
  moreover have "heap_room small_symbols fresh_profiler"
    by (simp add: heap_room_def small_symbols_def align4_def)
  moreover have "sampler_idle fresh_profiler" by (simp add: sampler_idle_def)
  ultimately have "\<exists>t G. mcount_record small_symbols 264 280 (entry_at [] None) 64 fresh_profiler = Inr t
     \<and> graph_ok small_symbols {64} G t \<and> status t = status fresh_profiler
     \<and> graph_of t (G 64) = add_arc 264 280 None (graph_of fresh_profiler [])
     \<and> (\<forall>r\<in>{64}. r \<noteq> 64 \<longrightarrow> graph_of t (G r) = graph_of fresh_profiler [])"
    by (intro mcount_record_adds_one_arc [where F = "\<lambda>_. []" and slots = "{64}" and q = 64 and k = None]) simp_all
  then obtain t G where t: "mcount_record small_symbols 264 280 0 64 fresh_profiler = Inr t"
    "graph_ok small_symbols {64} G t" "graph_of t (G 64) = [(264, [(280, 1)])]"
    by (auto simp: entry_at_def graph_of_def)
  then show ?thesis using graph_okD(1) [OF t(2), of 64] by blast
qed

text \<open>The histogram has one bucket for each whole 32 bytes of the text section. A sample
  in one of them adds one to its bucket; a sample in the incomplete 32 bytes at the end, which the
  range check lets through, writes behind the buffer.\<close>

theorem pcsample_overruns_last_bucket:
  assumes "nios2_pcsample_init sy s = Inr (0, t)" and "s_pcsamples t \<noteq> 0"
    and "s_low_pc sy \<le> pc" and "pc < s_high_pc sy"
  defines "n \<equiv> (unat (s_high_pc sy) - unat (s_low_pc sy)) div 32"
    and "b \<equiv> (unat pc - unat (s_low_pc sy)) div 32"
  shows "nios2_pcsample sy pc t =
      (if unat pc < unat (s_low_pc sy) + 32 * n
       then Inr (1, t\<lparr>pcsamples := (pcsamples t)[b := pcsamples t ! b + 1]\<rparr>)
       else Inl Out_Of_Bounds)"
proof -
  have "length (pcsamples t) = n"
    using pcsample_init_length [OF assms(1,2)] assms(3,4) by (simp add: unat_bucket n_def)
  moreover have "b < n \<longleftrightarrow> unat pc < unat (s_low_pc sy) + 32 * n"
    using assms(3) by (auto simp: b_def word_le_nat_alt div_less_iff_less_mult)
  ultimately show ?thesis
    using assms(2-4) by (simp add: nios2_pcsample_def Let_def unat_bucket b_def)
qed

theorem pcsample_overruns_last_bucket_witness:
  "\<exists>t. nios2_pcsample_init small_symbols fresh_profiler = Inr (0, t)
     \<and> nios2_pcsample small_symbols 288 t = Inl Out_Of_Bounds"
proof -
  have "ALT_SBRK 8192 2 fresh_profiler = (4100, fresh_profiler\<lparr>heap_end := 4102\<rparr>)"
    using ALT_SBRK_cases [of fresh_profiler 2 8192] by (simp add: align4_def)
  then have "ALT_SBRK (heap_limit small_symbols)
      (sint ((s_high_pc small_symbols - s_low_pc small_symbols) div PCSAMPLE_BYTES_PER_BUCKET * 2)) fresh_profiler
    = (4100, fresh_profiler\<lparr>heap_end := 4102\<rparr>)"
    by (simp add: small_symbols_def PCSAMPLE_BYTES_PER_BUCKET_def)
  from pcsample_init_succeeds [OF _ this] obtain t where
    t: "nios2_pcsample_init small_symbols fresh_profiler = Inr (0, t)" "s_pcsamples t = 4100" by auto
  then show ?thesis
    using pcsample_overruns_last_bucket [of small_symbols fresh_profiler t 288] by (simp add: small_symbols_def)
qed

end
