(* ===== verification/Spec2Isabelle.thy ===== *)
theory Spec2Isabelle
  imports Clock Tick_Waits Epcs_System I2c App_Main Geometry Debug Alt_Log Direct Semihosting Dma
    Startup Process Profile
begin

text \<open>
  A model of the software of Lab 6: a picture viewer for the LT24 display on a Nios II system
  (\<^verbatim>\<open>src/Lab 6/software/LT24\<close>) and the board support package it runs on
  (\<^verbatim>\<open>src/Lab 6/software/LT24_bsp\<close>, the hardware abstraction layer "HAL" and the drivers), in the
  configuration that \<^verbatim>\<open>system.h\<close> and \<^verbatim>\<open>public.mk\<close> select (one thread, the enhanced interrupt
  API, buffered device drivers, both caches, a 1 kHz system timer), and the variants of the same
  sources that other build options select.

  \<^bold>\<open>The parts and how they interact.\<close> After reset \<^verbatim>\<open>alt_load\<close> copies the sections of the program
  and brings the caches in step, \<^verbatim>\<open>alt_main\<close> initialises interrupts and drivers, opens the three
  standard descriptors and calls \<^verbatim>\<open>main\<close>. The timer's interrupt drives \<^verbatim>\<open>alt_tick\<close>, which calls
  the alarms in a linked list; the wall clock counts the same ticks. The Unix-style calls go
  through the table of descriptors to a driver; the JTAG UART driver exchanges bytes with its
  interrupt routine through two ring buffers. The flash driver talks to its chip with commands,
  each a few transactions of the SPI master. The application polls two buttons and draws images
  on the display.

  \<^bold>\<open>Theories.\<close> Each opens with the files it models; names are those of the source.
  \<^item> \<open>Hal_Prelude\<close>: word types, error numbers, faults, device registers; shared lemmas.
  \<^item> \<open>Cpu_Irq\<close>: interrupt enable, masks, the handler table, registration and the dispatcher.
  \<^item> \<open>Llist\<close>, \<open>Alarm\<close>, \<open>Clock\<close>: the linked list on an explicit store of pointers, the system
    clock with its alarms, and the time of day, the calibrated delay and the timer drivers.
  \<^item> \<open>Fd_Table\<close>, \<open>Posix_Io\<close>, \<open>Redirect\<close>: devices, file systems and descriptors; \<^verbatim>\<open>open\<close> to
    \<^verbatim>\<open>fstat\<close>; the set-up of the console.
  \<^item> \<open>Ring\<close>, \<open>Jtag_Uart\<close>, \<open>Uart_System\<close>, \<open>Uart_Wait\<close>: index arithmetic of the ring buffers, the
    driver with its interrupt routine, both together under any interleaving, and waiting for it.
    \<open>Alarm_Watch\<close>, \<open>Host_Watch\<close>, \<open>Tick_Waits\<close>: one alarm seen through its effect, the driver's
    alarm that counts the seconds without a host, and the waits under any schedule of interrupts.
  \<^item> \<open>Spi\<close>, \<open>Epcs\<close>, \<open>Epcs_Flash\<close>, \<open>Epcs_System\<close>: the SPI master, the chip's commands, the flash
    driver, and all three together on a simulated chip.
  \<^item> \<open>I2c\<close>: the bit-banged I2C master. \<open>Lcd\<close>: the display driver. \<open>App_Main\<close>: \<^verbatim>\<open>main.c\<close>.
    \<open>Geometry\<close>, \<open>Debug\<close>: the small libraries of the application.
  \<^item> \<open>Numerals\<close>, \<open>Console\<close>: numbers as text and \<^verbatim>\<open>alt_printf\<close>. \<open>Cache\<close>, \<open>Startup\<close>: cache
    maintenance, loading the program. \<open>Process\<close>: exceptions and process calls. \<open>Heap\<close>, \<open>Profile\<close>:
    \<^verbatim>\<open>sbrk\<close> and the profiler on it. \<open>Dma\<close>: the interface to DMA channels.
  \<^item> Other builds of the same sources: \<open>Alt_Log\<close> with the HAL's logging, \<open>Uart_Small\<close> with small
    drivers, \<open>Direct\<close> with direct drivers (on either UART driver), \<open>Semihosting\<close> with output
    through a debugger.

  \<^bold>\<open>State.\<close> The globals of the C code are records, extended from one layer to the next in the order
  the layers use each other (\<open>cpu\<close>, \<open>intc\<close>, \<open>sysclk\<close>, then \<open>wallclock\<close> or \<open>heap\<close>, \<open>gmon\<close>; \<open>cpu\<close>,
  \<open>fdtable\<close>, \<open>uart\<close>). C integers are words and wrap around; an \<^verbatim>\<open>int\<close> whose range is bounded in the
  code is an integer, and one that can overflow wraps around as on the processor (in \<open>Geometry\<close>,
  where nothing bounds the arguments, it is a fault). What C leaves undefined is the value \<open>Inl\<close>
  of a fault, never an unspecified one. A pointer to memory that several parts share is an address
  into an explicit map.

  \<^bold>\<open>Interrupts.\<close> Where an interrupt may come in between two accesses, the definition calls a
  parameter \<open>intr\<close> there; the contract \<open>uart_interrupts\<close> is all that the proofs know of it, and
  the interrupt routine of the driver is proved to satisfy it. Its extensions \<open>uart_waits\<close> and
  \<open>uart_write_waits\<close> say that no wait goes on without end. The alarm callback of the driver, called
  by the ticks of the clock, makes them true when there is no host (\<open>lonely_uart\<close>,
  \<open>host_clock\<close>, \<open>steady_clock\<close>). The order of ticks and interrupts is free: an inductive relation
  (\<open>uart_runs\<close>) or a schedule that the state carries (\<open>clocked\<close>).

  \<^bold>\<open>Hardware and libraries.\<close> Registers are read and written through \<open>'h bus\<close>. What a device does
  is the contract of a locale (\<open>uart_device\<close>, \<open>log_port\<close> and its extension \<open>polled_uart\<close>,
  \<open>spi_master\<close>, \<open>epcs_chip\<close>, \<open>i2c_pins\<close>, \<open>lcd_panel\<close>, \<open>dcache\<close>, \<open>icache\<close>, \<open>memory_system\<close>,
  \<open>debug_host\<close>), as its data sheet has it; each is interpreted on a
  simulated device, on which the witnesses run. Functions of the C library (\<^verbatim>\<open>putchar\<close>,
  \<^verbatim>\<open>memalign\<close>, \<^verbatim>\<open>rand\<close>) and the custom instruction of the processor are parameters. Contracts
  between parts of the program itself are locales too: \<open>entry_list\<close> for the alarms' list,
  \<open>watched_alarm\<close> between the clock and the owner of an alarm,
  \<open>quiet_driver\<close> between the descriptor calls and a driver, \<open>stdout\<close> between the formatter and
  whatever a build prints with (the C library, the semihosting buffer, or directly the driver of
  the UART, each proved to satisfy it).

  \<^bold>\<open>What is shown.\<close> No byte is lost between a program and the UART (\<open>uart_irq_conserves_data\<close>,
  \<open>uart_read_is_fifo\<close>, \<open>uart_write_is_fifo\<close>). Without a host the ticks of the clock count the
  seconds exactly, however they are interleaved with interrupts of the UART, and as long as they
  keep coming reads and writes always return (\<open>uart_counts_seconds_without_host\<close>,
  \<open>uart_calls_return_on_clock\<close>); both allow other alarms, under the contracts \<open>host_clock\<close> and
  \<open>steady_clock\<close>. Alarms fire on exactly their ticks across the wrap-around of the counter; the
  clock reads what was set exactly when it was set within \<open>2\<^sup>3\<^sup>2\<close> microseconds of reset. Descriptors keep their invariant,
  open and close undo each other, exclusive devices stay exclusive, and the console is open on its
  devices after start-up. A flash chip is described as the part it answers to be. Data written to the flash are read back and other sectors kept; the
  layers below refine abstract exchanges. The I2C transactions are well-formed frames. The display
  shows the image that the buttons select, at every pixel, and no run of the program leaves its
  tables. The image of the program is in main memory when it starts. Memory is granted without
  overlap, and the profiler records exactly the calls it sees. Both formatters write exactly the
  rendering of their formats, in every build, down to the bytes sent over the UART with direct
  drivers. Where the code does something else than it means to, the theorem says exactly what.

  \<^bold>\<open>Loops and bounds.\<close> Loops that poll hardware or compare for equality only are
  \<open>partial_function (option)\<close>, \<open>None\<close> standing for not returning; that they return is proved where
  it is so (and that they hang where they do: \<open>alt_tick_stopping_next_hangs\<close>,
  \<open>spi_command_returns_iff\<close>). All other loops are recursive functions with a measure. There is no
  fuel anywhere. Bounds in the statements are those of the hardware: addresses below \<open>2 ^ 32\<close>, the
  time of day within \<open>2 ^ 32\<close> microseconds of reset, flash chips up to the largest the driver knows.

  \<^bold>\<open>Not modelled.\<close> The hardware designs of all labs (Verilog and generated VHDL) are not C. The
  assembler files (reset, exception entry, software multiplication, the fast path of \<^verbatim>\<open>mcount\<close>)
  are not C either. \<^verbatim>\<open>ids_lounge.h\<close> and \<^verbatim>\<open>staticimg.h\<close> are tables of pixels, parameters here.
  \<^verbatim>\<open>system.h\<close> and \<^verbatim>\<open>linker.h\<close> are generated constants; those that are used are defined. The
  branches for an operating system (uC/OS) need code that is not in the repository. The locks of
  newlib and the environment are empty functions and constants.
\<close>

end
